(* ===== verification/Prelude.thy ===== *)
theory Prelude
  imports Main "HOL-Library.Word"
begin

text \<open>
  What every component of the model shares: the machine types, the outcome of a Rust
  computation (a value, an error, or a panic), slicing and indexing with their panics,
  text, and the few functions of the Rust standard library on numbers and text that the
  crate calls (decimal and hexadecimal formatting, \<open>parse::<u32>\<close>, little endian bytes,
  white space).

  Text is the list of its Unicode scalar values, each a natural number, which is what
  \<open>str::chars\<close> yields; its bytes are given by the theory Utf8.
\<close>

unbundle bit_operations_syntax

section \<open>Types\<close>

type_synonym u8 = "8 word"
type_synonym u16 = "16 word"
type_synonym u32 = "32 word"
type_synonym bytes = "u8 list"
type_synonym str = "nat list"

text \<open>A literal of the source, as text.\<close>

definition lit :: "string \<Rightarrow> str" where
  "lit s = map of_char s"

lemma lit_Nil: "lit [] = []"
  by (simp add: lit_def)

lemma lit_Cons: "lit (c # cs) = of_char c # lit cs"
  by (simp add: lit_def)

text \<open>Lemmas that rewrite writers, readers and guards to their results.\<close>

named_theorems wire_simps "what the writers and the readers of the binary format compute"

section \<open>Outcomes\<close>

text \<open>
  The outcome of a Rust function returning \<open>Result<T, E>\<close>. The third constructor is a
  panic: an index or slice out of range, a subtraction that would go below zero, a failed
  \<open>expect\<close> or \<open>debug_assert\<close>.
\<close>

datatype ('a, 'e) res = Ok 'a | Err 'e | Panic

fun bind_res :: "('a, 'e) res \<Rightarrow> ('a \<Rightarrow> ('b, 'e) res) \<Rightarrow> ('b, 'e) res" where
  "bind_res (Ok x) f = f x"
| "bind_res (Err e) f = Err e"
| "bind_res Panic f = Panic"

fun map_err :: "('e \<Rightarrow> 'f) \<Rightarrow> ('a, 'e) res \<Rightarrow> ('a, 'f) res" where
  "map_err f (Ok x) = Ok x"
| "map_err f (Err e) = Err (f e)"
| "map_err f Panic = Panic"

fun is_ok :: "('a, 'e) res \<Rightarrow> bool" where
  "is_ok (Ok _) = True"
| "is_ok _ = False"

lemma bind_res_cong [fundef_cong]:
  "m = m' \<Longrightarrow> (\<And>x. m' = Ok x \<Longrightarrow> f x = f' x) \<Longrightarrow> bind_res m f = bind_res m' f'"
  by (cases m') auto

lemma bind_res_Ok_iff: "bind_res m f = Ok y \<longleftrightarrow> (\<exists>x. m = Ok x \<and> f x = Ok y)"
  by (cases m) auto

lemma bind_res_Err_iff:
  "bind_res m f = Err e \<longleftrightarrow> m = Err e \<or> (\<exists>x. m = Ok x \<and> f x = Err e)"
  by (cases m) auto

lemma bind_res_Panic_iff:
  "bind_res m f = Panic \<longleftrightarrow> m = Panic \<or> (\<exists>x. m = Ok x \<and> f x = Panic)"
  by (cases m) auto

lemma bind_res_assoc: "bind_res (bind_res m f) g = bind_res m (\<lambda>x. bind_res (f x) g)"
  by (cases m) auto

lemma map_err_iffs [simp]:
  "map_err f m = Ok x \<longleftrightarrow> m = Ok x"
  "map_err f m = Err e' \<longleftrightarrow> (\<exists>e. m = Err e \<and> e' = f e)"
  "map_err f m = Panic \<longleftrightarrow> m = Panic"
  by (cases m; auto)+

lemma is_ok_iff: "is_ok m \<longleftrightarrow> (\<exists>x. m = Ok x)"
  by (cases m) auto

text \<open>\<open>Option::ok_or\<close> and \<open>Result\<close> built from a library call that returns a message.\<close>

fun ok_or :: "'a option \<Rightarrow> 'e \<Rightarrow> ('a, 'e) res" where
  "ok_or (Some x) e = Ok x"
| "ok_or None e = Err e"

fun of_sum :: "'e + 'a \<Rightarrow> ('a, 'e) res" where
  "of_sum (Inl e) = Err e"
| "of_sum (Inr x) = Ok x"

lemma ok_or_iffs [simp]:
  "ok_or z e = Ok x \<longleftrightarrow> z = Some x"
  "ok_or z e = Err d \<longleftrightarrow> z = None \<and> d = e"
  "ok_or z e \<noteq> Panic"
  by (cases z; auto)+

lemma of_sum_iffs [simp]:
  "of_sum z = Ok x \<longleftrightarrow> z = Inr x"
  "of_sum z = Err e \<longleftrightarrow> z = Inl e"
  "of_sum z \<noteq> Panic"
  by (cases z; auto)+

section \<open>Slices\<close>

text \<open>\<open>xs[i]\<close>, \<open>&xs[i..]\<close>, \<open>&xs[i..j]\<close> and \<open>a - b\<close> on \<open>usize\<close>.\<close>

definition index :: "'a list \<Rightarrow> nat \<Rightarrow> ('a, 'e) res" where
  "index xs i = (if i < length xs then Ok (xs ! i) else Panic)"

definition slice_from :: "'a list \<Rightarrow> nat \<Rightarrow> ('a list, 'e) res" where
  "slice_from xs i = (if i \<le> length xs then Ok (drop i xs) else Panic)"

definition subslice :: "'a list \<Rightarrow> nat \<Rightarrow> nat \<Rightarrow> ('a list, 'e) res" where
  "subslice xs i j = (if i \<le> j \<and> j \<le> length xs then Ok (take (j - i) (drop i xs)) else Panic)"

definition usub :: "nat \<Rightarrow> nat \<Rightarrow> (nat, 'e) res" where
  "usub a b = (if b \<le> a then Ok (a - b) else Panic)"

lemma index_in [simp]: "i < length xs \<Longrightarrow> index xs i = Ok (xs ! i)"
  by (simp add: index_def)

lemma slice_from_in [simp]: "i \<le> length xs \<Longrightarrow> slice_from xs i = Ok (drop i xs)"
  by (simp add: slice_from_def)

lemma subslice_in [simp]:
  "i \<le> j \<Longrightarrow> j \<le> length xs \<Longrightarrow> subslice xs i j = Ok (take (j - i) (drop i xs))"
  by (simp add: subslice_def)

lemma usub_in [simp]: "b \<le> a \<Longrightarrow> usub a b = Ok (a - b)"
  by (simp add: usub_def)

lemma index_not_Err [simp]: "index xs i \<noteq> Err e"
  and slice_from_not_Err [simp]: "slice_from xs i \<noteq> Err e"
  and subslice_not_Err [simp]: "subslice xs i j \<noteq> Err e"
  and usub_not_Err [simp]: "usub a b \<noteq> Err e"
  by (simp_all add: index_def slice_from_def subslice_def usub_def)

text \<open>\<open>slice::get\<close> and \<open>Iterator::position\<close>.\<close>

definition get :: "'a list \<Rightarrow> nat \<Rightarrow> 'a option" where
  "get xs i = (if i < length xs then Some (xs ! i) else None)"

fun position :: "('a \<Rightarrow> bool) \<Rightarrow> 'a list \<Rightarrow> nat option" where
  "position p [] = None"
| "position p (x # xs) = (if p x then Some 0 else map_option Suc (position p xs))"

lemma position_Some_iff:
  "position p xs = Some i \<longleftrightarrow> i < length xs \<and> p (xs ! i) \<and> (\<forall>j < i. \<not> p (xs ! j))"
proof (induction xs arbitrary: i)
  case Nil
  then show ?case by simp
next
  case (Cons x xs)
  show ?case by (cases i) (auto simp: Cons.IH All_less_Suc2)
qed

lemma position_None_iff: "position p xs = None \<longleftrightarrow> (\<forall>x \<in> set xs. \<not> p x)"
  by (induction xs) auto

lemma position_append_hit:
  "\<forall>x \<in> set xs. \<not> p x \<Longrightarrow> p y \<Longrightarrow> position p (xs @ y # ys) = Some (length xs)"
  by (induction xs) auto

end
