(* ===== verification/Std.thy ===== *)
theory Std
  imports Prelude
begin

text \<open>
  The functions of the Rust standard library on integers, bytes and text that the crate
  calls: \<open>format!\<close> of an integer, \<open>u32::from_str_radix\<close> and \<open>parse::<u32>\<close>,
  \<open>to_le_bytes\<close> and \<open>from_le_bytes\<close>, \<open>char::is_whitespace\<close> and \<open>str::trim\<close>, and the
  splitting of text.
\<close>

section \<open>Formatting\<close>

fun decimal :: "nat \<Rightarrow> str" where
  "decimal n = (if n < 10 then [48 + n] else decimal (n div 10) @ [48 + n mod 10])"

declare decimal.simps [simp del]

text \<open>A signed integer, as \<open>i64\<close> prints.\<close>

definition decimal_int :: "int \<Rightarrow> str" where
  "decimal_int i = (if i < 0 then lit ''-'' @ decimal (nat (- i)) else decimal (nat i))"

definition hex_digit :: "nat \<Rightarrow> nat" where
  "hex_digit d = (if d < 10 then 48 + d else 87 + d)"

fun hex :: "nat \<Rightarrow> str" where
  "hex n = (if n < 16 then [hex_digit n] else hex (n div 16) @ [hex_digit (n mod 16)])"

declare hex.simps [simp del]

text \<open>\<open>format!("{:0wx}", n)\<close>.\<close>

definition hex_padded :: "nat \<Rightarrow> nat \<Rightarrow> str" where
  "hex_padded w n = replicate (w - length (hex n)) 48 @ hex n"

section \<open>Parsing integers\<close>

definition to_digit :: "nat \<Rightarrow> nat \<Rightarrow> nat option" where
  "to_digit r c =
     (let d = (if 48 \<le> c \<and> c \<le> 57 then c - 48
               else if 97 \<le> c \<and> c \<le> 122 then c - 87
               else if 65 \<le> c \<and> c \<le> 90 then c - 55
               else r)
      in if d < r then Some d else None)"

fun from_digits :: "nat \<Rightarrow> str \<Rightarrow> nat \<Rightarrow> nat option" where
  "from_digits r [] acc = Some acc"
| "from_digits r (c # cs) acc =
     (case to_digit r c of
        None \<Rightarrow> None
      | Some d \<Rightarrow> if acc * r + d < 2 ^ 32 then from_digits r cs (acc * r + d) else None)"

text \<open>
  \<open>u32::from_str_radix\<close>: empty text and a sign on its own are refused, one leading plus
  sign is accepted, a minus sign is not a digit, and a value past \<open>u32::MAX\<close> is refused.
\<close>

definition from_str_radix :: "nat \<Rightarrow> str \<Rightarrow> u32 option" where
  "from_str_radix r s =
     (if s = [] \<or> s = lit ''+'' \<or> s = lit ''-'' then None
      else map_option of_nat (from_digits r (if hd s = 43 then tl s else s) 0))"

definition parse_u32 :: "str \<Rightarrow> u32 option" where
  "parse_u32 s = from_str_radix 10 s"

lemma to_digit_decimal [simp]: "d < 10 \<Longrightarrow> to_digit 10 (48 + d) = Some d"
  by (simp add: to_digit_def)

lemma to_digit_hex [simp]: "d < 16 \<Longrightarrow> to_digit 16 (hex_digit d) = Some d"
  by (auto simp: to_digit_def hex_digit_def)

lemma from_digits_append:
  "from_digits r (xs @ ys) acc = Option.bind (from_digits r xs acc) (from_digits r ys)"
  by (induction xs arbitrary: acc) (auto split: option.splits)

lemma from_digits_decimal: "n < 2 ^ 32 \<Longrightarrow> from_digits 10 (decimal n) 0 = Some n"
proof (induction n rule: decimal.induct)
  case (1 n)
  show ?case
  proof (cases "n < 10")
    case True
    with "1.prems" show ?thesis by (subst decimal.simps) simp
  next
    case False
    moreover have "n div 10 < 2 ^ 32" using "1.prems" by simp
    ultimately have "from_digits 10 (decimal (n div 10)) 0 = Some (n div 10)"
      using "1.IH" by blast
    with False "1.prems" show ?thesis
      by (subst decimal.simps) (simp add: from_digits_append)
  qed
qed

lemma decimal_digits: "\<forall>c \<in> set (decimal n). 48 \<le> c \<and> c \<le> 57"
proof (induction n rule: decimal.induct)
  case (1 n)
  then show ?case by (cases "n < 10"; subst decimal.simps) auto
qed

lemma decimal_nonempty [simp]: "decimal n \<noteq> []"
  by (subst decimal.simps) simp

lemma decimal_no_sign:
  "decimal n \<noteq> [43]" "decimal n \<noteq> [45]" "hd (decimal n) \<noteq> 43"
proof -
  obtain c cs where d: "decimal n = c # cs" by (cases "decimal n") auto
  with decimal_digits [of n] have "48 \<le> c" by simp
  then show "decimal n \<noteq> [43]" "decimal n \<noteq> [45]" "hd (decimal n) \<noteq> 43"
    by (auto simp: d)
qed

lemma parse_u32_decimal: "n < 2 ^ 32 \<Longrightarrow> parse_u32 (decimal n) = Some (of_nat n)"
  by (simp add: parse_u32_def from_str_radix_def lit_def decimal_no_sign from_digits_decimal)

lemma parse_u32_decimal_unat [simp]: "parse_u32 (decimal (unat m)) = Some (m :: u32)"
  using parse_u32_decimal [of "unat m"] unsigned_less [of m] by simp

section \<open>Little endian bytes\<close>

definition to_le_bytes :: "u32 \<Rightarrow> bytes" where
  "to_le_bytes v =
     [ucast v, ucast (drop_bit 8 v), ucast (drop_bit 16 v), ucast (drop_bit 24 v)]"

definition from_le_bytes :: "u8 \<Rightarrow> u8 \<Rightarrow> u8 \<Rightarrow> u8 \<Rightarrow> u32" where
  "from_le_bytes a b c d =
     ucast a OR push_bit 8 (ucast b) OR push_bit 16 (ucast c) OR push_bit 24 (ucast d)"

lemma length_to_le_bytes [simp]: "length (to_le_bytes v) = 4"
  by (simp add: to_le_bytes_def)

lemma from_to_le_bytes:
  "from_le_bytes (ucast v) (ucast (drop_bit 8 v)) (ucast (drop_bit 16 v)) (ucast (drop_bit 24 v)) = v"
proof (rule bit_word_eqI)
  fix n assume "n < LENGTH(32)"
  then consider "n < 8" | "8 \<le> n" "n < 16" | "16 \<le> n" "n < 24" | "24 \<le> n" "n < 32"
    by fastforce
  then show "bit (from_le_bytes (ucast v) (ucast (drop_bit 8 v)) (ucast (drop_bit 16 v))
      (ucast (drop_bit 24 v))) n = bit v n"
    by cases (auto simp: from_le_bytes_def bit_or_iff bit_push_bit_iff bit_unsigned_iff
        bit_drop_bit_eq)
qed

lemma u8_no_bit: "8 \<le> n \<Longrightarrow> \<not> bit (a :: u8) n"
  using bit_imp_le_length [of a n] by auto

lemma to_from_le_bytes: "to_le_bytes (from_le_bytes a b c d) = [a, b, c, d]"
  unfolding from_le_bytes_def to_le_bytes_def
  by (auto intro!: bit_word_eqI
      simp: bit_or_iff bit_push_bit_iff bit_unsigned_iff bit_drop_bit_eq u8_no_bit)

section \<open>White space\<close>

text \<open>\<open>char::is_whitespace\<close>, the Unicode property \<open>White_Space\<close>.\<close>

definition is_whitespace :: "nat \<Rightarrow> bool" where
  "is_whitespace c \<longleftrightarrow>
     9 \<le> c \<and> c \<le> 13 \<or> c = 32 \<or> c = 0x85 \<or> c = 0xA0 \<or> c = 0x1680
     \<or> 0x2000 \<le> c \<and> c \<le> 0x200A \<or> c = 0x2028 \<or> c = 0x2029 \<or> c = 0x202F
     \<or> c = 0x205F \<or> c = 0x3000"

definition trim :: "str \<Rightarrow> str" where
  "trim s = rev (dropWhile is_whitespace (rev (dropWhile is_whitespace s)))"

lemma trim_eq_Nil [simp]: "trim s = [] \<longleftrightarrow> (\<forall>c \<in> set s. is_whitespace c)"
proof -
  have "trim s = [] \<longleftrightarrow> (\<forall>c \<in> set (dropWhile is_whitespace s). is_whitespace c)"
    by (simp add: trim_def dropWhile_eq_Nil_conv)
  also have "\<dots> \<longleftrightarrow> (\<forall>c \<in> set s. is_whitespace c)"
    by (induction s) auto
  finally show ?thesis .
qed

section \<open>Splitting text\<close>

text \<open>\<open>str::split_once\<close>, \<open>str::split\<close> at a character, \<open>str::strip_prefix\<close>, \<open>find_map\<close>.\<close>

definition split_once :: "nat \<Rightarrow> str \<Rightarrow> (str \<times> str) option" where
  "split_once c s =
     (case position (\<lambda>x. x = c) s of
        None \<Rightarrow> None
      | Some i \<Rightarrow> Some (take i s, drop (Suc i) s))"

fun split_at :: "nat \<Rightarrow> str \<Rightarrow> str list" where
  "split_at c [] = [[]]"
| "split_at c (x # xs) =
     (if x = c then [] # split_at c xs
      else case split_at c xs of [] \<Rightarrow> [[x]] | p # ps \<Rightarrow> (x # p) # ps)"

definition strip_prefix :: "str \<Rightarrow> str \<Rightarrow> str option" where
  "strip_prefix p s =
     (if take (length p) s = p then Some (drop (length p) s) else None)"

fun find_map :: "('a \<Rightarrow> 'b option) \<Rightarrow> 'a list \<Rightarrow> 'b option" where
  "find_map f [] = None"
| "find_map f (x # xs) = (case f x of None \<Rightarrow> find_map f xs | Some y \<Rightarrow> Some y)"

lemma split_once_hit: "c \<notin> set a \<Longrightarrow> split_once c (a @ c # b) = Some (a, b)"
  using position_append_hit [of a "\<lambda>x. x = c" c b] by (fastforce simp: split_once_def)

lemma split_once_None: "split_once c s = None \<longleftrightarrow> c \<notin> set s"
  using position_None_iff [of "\<lambda>x. x = c" s]
  by (auto simp: split_once_def split: option.splits)

lemma split_at_nonempty [simp]: "split_at c s \<noteq> []"
  by (cases s) (auto split: list.splits)

lemma split_at_none: "c \<notin> set s \<Longrightarrow> split_at c s = [s]"
  by (induction s) auto

lemma split_at_hit: "c \<notin> set a \<Longrightarrow> split_at c (a @ c # b) = a # split_at c b"
  by (induction a) auto

lemma strip_prefix_append [simp]: "strip_prefix p (p @ s) = Some s"
  by (simp add: strip_prefix_def)

end
