(* ===== verification/Utf8.thy ===== *)
theory Utf8
  imports Std
begin

text \<open>
  The bytes of text: \<open>str::as_bytes\<close> and \<open>str::from_utf8\<close>. A \<open>char\<close> is a Unicode scalar
  value, and \<open>from_utf8\<close> accepts exactly the shortest form of each, so the two functions
  are inverse to each other: text survives being written and read, and bytes that are
  accepted are written back unchanged.
\<close>

section \<open>Scalar values\<close>

definition scalar :: "nat \<Rightarrow> bool" where
  "scalar c \<longleftrightarrow> c < 0xD800 \<or> 0xE000 \<le> c \<and> c < 0x110000"

text \<open>The text a \<open>String\<close> can hold.\<close>

definition is_text :: "str \<Rightarrow> bool" where
  "is_text s \<longleftrightarrow> (\<forall>c \<in> set s. scalar c)"

text \<open>\<open>char::from_u32\<close>.\<close>

definition char_from_u32 :: "u32 \<Rightarrow> nat option" where
  "char_from_u32 v = (if scalar (unat v) then Some (unat v) else None)"

lemma is_text_simps [simp]:
  "is_text []" "is_text (c # s) \<longleftrightarrow> scalar c \<and> is_text s"
  "is_text (s @ t) \<longleftrightarrow> is_text s \<and> is_text t"
  by (auto simp: is_text_def)

lemma scalar_ascii: "c < 128 \<Longrightarrow> scalar c"
  by (simp add: scalar_def)

lemma is_text_decimal [simp]: "is_text (decimal n)"
  using decimal_digits [of n] by (auto simp: is_text_def scalar_def)

lemma is_text_take: "is_text s \<Longrightarrow> is_text (take n s)"
  by (auto simp: is_text_def dest: in_set_takeD)

lemma is_text_drop: "is_text s \<Longrightarrow> is_text (drop n s)"
  by (auto simp: is_text_def dest: in_set_dropD)

section \<open>Encoding\<close>

text \<open>\<open>n as u8\<close>.\<close>

definition byte :: "nat \<Rightarrow> u8" where
  "byte n = of_nat n"

lemma unat_byte [simp]: "n < 256 \<Longrightarrow> unat (byte n) = n"
  by (simp add: byte_def unat_of_nat)

lemma byte_unat [simp]: "byte (unat b) = b"
  by (simp add: byte_def)

lemma byte_inject: "n < 256 \<Longrightarrow> m < 256 \<Longrightarrow> byte n = byte m \<longleftrightarrow> n = m"
  by (metis unat_byte)

definition encode_char :: "nat \<Rightarrow> bytes" where
  "encode_char c =
     (if c < 0x80 then [byte c]
      else if c < 0x800 then [byte (0xC0 + c div 64), byte (0x80 + c mod 64)]
      else if c < 0x10000 then
        [byte (0xE0 + c div 4096), byte (0x80 + c div 64 mod 64), byte (0x80 + c mod 64)]
      else
        [byte (0xF0 + c div 262144), byte (0x80 + c div 4096 mod 64),
         byte (0x80 + c div 64 mod 64), byte (0x80 + c mod 64)])"

definition as_bytes :: "str \<Rightarrow> bytes" where
  "as_bytes s = concat (map encode_char s)"

lemma as_bytes_simps [simp]:
  "as_bytes [] = []" "as_bytes (c # s) = encode_char c @ as_bytes s"
  "as_bytes (s @ t) = as_bytes s @ as_bytes t"
  by (simp_all add: as_bytes_def)

lemma encode_char_nonempty [simp]: "encode_char c \<noteq> []"
  by (simp add: encode_char_def)

lemma as_bytes_eq_Nil [simp]: "as_bytes s = [] \<longleftrightarrow> s = []"
  by (cases s) auto

lemma as_bytes_ascii: "\<forall>c \<in> set s. c < 128 \<Longrightarrow> as_bytes s = map byte s"
  by (induction s) (auto simp: encode_char_def)

section \<open>Decoding\<close>

definition cont :: "u8 \<Rightarrow> bool" where
  "cont b \<longleftrightarrow> 0x80 \<le> unat b \<and> unat b \<le> 0xBF"

text \<open>
  One scalar value from the front. The second byte of a longer form has the ranges that
  rule out a form longer than needed, a surrogate and a value past the last one.
\<close>

definition second3 :: "nat \<Rightarrow> nat \<Rightarrow> bool" where
  "second3 n b \<longleftrightarrow> n = 0xE0 \<and> 0xA0 \<le> b \<and> b \<le> 0xBF
     \<or> 0xE1 \<le> n \<and> n \<le> 0xEC \<and> 0x80 \<le> b \<and> b \<le> 0xBF
     \<or> n = 0xED \<and> 0x80 \<le> b \<and> b \<le> 0x9F
     \<or> 0xEE \<le> n \<and> n \<le> 0xEF \<and> 0x80 \<le> b \<and> b \<le> 0xBF"

definition second4 :: "nat \<Rightarrow> nat \<Rightarrow> bool" where
  "second4 n b \<longleftrightarrow> n = 0xF0 \<and> 0x90 \<le> b \<and> b \<le> 0xBF
     \<or> 0xF1 \<le> n \<and> n \<le> 0xF3 \<and> 0x80 \<le> b \<and> b \<le> 0xBF
     \<or> n = 0xF4 \<and> 0x80 \<le> b \<and> b \<le> 0x8F"

fun next_char :: "bytes \<Rightarrow> (nat \<times> bytes) option" where
  "next_char [] = None"
| "next_char (a # r) =
     (let n = unat a in
      if n < 0x80 then Some (n, r)
      else if 0xC2 \<le> n \<and> n \<le> 0xDF then
        (case r of
           b # r' \<Rightarrow> if cont b then Some ((n - 0xC0) * 64 + (unat b - 0x80), r') else None
         | _ \<Rightarrow> None)
      else if 0xE0 \<le> n \<and> n \<le> 0xEF then
        (case r of
           b # c # r' \<Rightarrow>
             if second3 n (unat b) \<and> cont c
             then Some ((n - 0xE0) * 4096 + (unat b - 0x80) * 64 + (unat c - 0x80), r')
             else None
         | _ \<Rightarrow> None)
      else if 0xF0 \<le> n \<and> n \<le> 0xF4 then
        (case r of
           b # c # d # r' \<Rightarrow>
             if second4 n (unat b) \<and> cont c \<and> cont d
             then Some ((n - 0xF0) * 262144 + (unat b - 0x80) * 4096 + (unat c - 0x80) * 64
                        + (unat d - 0x80), r')
             else None
         | _ \<Rightarrow> None)
      else None)"

lemma next_char_length: "next_char bs = Some (c, r) \<Longrightarrow> length r < length bs"
  by (cases bs) (auto simp: Let_def split: if_splits list.splits)

function from_utf8 :: "bytes \<Rightarrow> str option" where
  "from_utf8 bs =
     (if bs = [] then Some []
      else case next_char bs of
        None \<Rightarrow> None
      | Some (c, r) \<Rightarrow> map_option ((#) c) (from_utf8 r))"
  by pat_completeness auto
termination
  by (relation "measure length") (auto dest: next_char_length)

declare from_utf8.simps [simp del]

lemma from_utf8_Nil [simp]: "from_utf8 [] = Some []"
  by (simp add: from_utf8.simps)

section \<open>The two are inverse\<close>

lemma cont_byte [simp]: "x < 64 \<Longrightarrow> cont (byte (128 + x))"
  by (simp add: cont_def)

lemma contE:
  assumes "cont b"
  obtains x where "x < 64" "b = byte (128 + x)"
proof (rule that)
  have "128 \<le> unat b" "unat b \<le> 191" using assms by (simp_all add: cont_def)
  then show "unat b - 128 < 64" "b = byte (128 + (unat b - 128))" by simp_all
qed

text \<open>Groups of six bits.\<close>

lemma six_bits: "(z :: nat) < 64 \<Longrightarrow> (a * 64 + z) div 64 = a \<and> (a * 64 + z) mod 64 = z"
  by simp

lemma groups3:
  assumes "c = (y * 64 + x) * 64 + z" "x < 64" "z < (64 :: nat)"
  shows "c div 4096 = y" "c div 64 mod 64 = x" "c mod 64 = z"
proof -
  have d: "c div 64 = y * 64 + x" using assms six_bits by blast
  moreover have "c div 4096 = c div 64 div 64" by (simp flip: div_mult2_eq)
  ultimately show "c div 4096 = y" "c div 64 mod 64 = x" using assms by simp_all
  show "c mod 64 = z" using assms six_bits by blast
qed

lemma groups4:
  assumes "c = ((y * 64 + x) * 64 + z) * 64 + w" "x < 64" "z < 64" "w < (64 :: nat)"
  shows "c div 262144 = y" "c div 4096 mod 64 = x" "c div 64 mod 64 = z" "c mod 64 = w"
proof -
  have d: "c div 64 = (y * 64 + x) * 64 + z" using assms six_bits by blast
  have e: "c div 262144 = c div 64 div 4096" "c div 4096 = c div 64 div 64"
    by (simp_all flip: div_mult2_eq)
  show "c div 262144 = y" unfolding e by (rule groups3(1) [OF d assms(2,3)])
  show "c div 4096 mod 64 = x" unfolding e by (rule groups3(2) [OF d assms(2,3)])
  show "c div 64 mod 64 = z" by (rule groups3(3) [OF d assms(2,3)])
  show "c mod 64 = w" using assms six_bits by blast
qed

text \<open>What one step of the decoder does with each length.\<close>

lemma next_char2:
  "2 \<le> y \<Longrightarrow> y < 32 \<Longrightarrow> x < 64 \<Longrightarrow>
     next_char (byte (0xC0 + y) # byte (0x80 + x) # r) = Some (y * 64 + x, r)"
  by simp

lemma next_char3:
  "second3 (0xE0 + y) (0x80 + x) \<Longrightarrow> y < 16 \<Longrightarrow> x < 64 \<Longrightarrow> z < 64 \<Longrightarrow>
     next_char (byte (0xE0 + y) # byte (0x80 + x) # byte (0x80 + z) # r)
     = Some ((y * 64 + x) * 64 + z, r)"
  by simp

lemma next_char4:
  "second4 (0xF0 + y) (0x80 + x) \<Longrightarrow> y < 5 \<Longrightarrow> x < 64 \<Longrightarrow> z < 64 \<Longrightarrow> w < 64 \<Longrightarrow>
     next_char (byte (0xF0 + y) # byte (0x80 + x) # byte (0x80 + z) # byte (0x80 + w) # r)
     = Some (((y * 64 + x) * 64 + z) * 64 + w, r)"
  by simp

text \<open>A scalar value of each length, by its groups of six bits.\<close>

lemma encode_char2:
  "2 \<le> y \<Longrightarrow> y < 32 \<Longrightarrow> x < 64 \<Longrightarrow>
     encode_char (y * 64 + x) = [byte (0xC0 + y), byte (0x80 + x)]"
  by (simp add: encode_char_def)

lemma encode_char3:
  assumes "second3 (0xE0 + y) (0x80 + x)" "y < 16" "x < 64" "z < 64"
  shows "encode_char ((y * 64 + x) * 64 + z)
    = [byte (0xE0 + y), byte (0x80 + x), byte (0x80 + z)]"
    and "scalar ((y * 64 + x) * 64 + z)"
proof -
  let ?c = "(y * 64 + x) * 64 + z"
  have y: "y = 0 \<longrightarrow> 32 \<le> x" "y = 13 \<longrightarrow> x < 32" using assms(1) by (auto simp: second3_def)
  have "2048 \<le> ?c" "?c < 65536" using y(1) assms(2-) by (cases "y = 0"; simp)+
  moreover have sc: "scalar ?c"
    using y assms(2-) unfolding scalar_def by (cases "y < 13"; cases "y = 13"; simp)
  moreover note groups3 [OF refl assms(3,4), of y]
  ultimately show "encode_char ?c = [byte (0xE0 + y), byte (0x80 + x), byte (0x80 + z)]"
    by (simp only: encode_char_def) simp
  from sc show "scalar ?c" .
qed

lemma encode_char4:
  assumes "second4 (0xF0 + y) (0x80 + x)" "y < 5" "x < 64" "z < 64" "w < 64"
  shows "encode_char (((y * 64 + x) * 64 + z) * 64 + w)
    = [byte (0xF0 + y), byte (0x80 + x), byte (0x80 + z), byte (0x80 + w)]"
    and "scalar (((y * 64 + x) * 64 + z) * 64 + w)"
proof -
  let ?c = "((y * 64 + x) * 64 + z) * 64 + w"
  have y: "y = 0 \<longrightarrow> 16 \<le> x" "y = 4 \<longrightarrow> x < 16" using assms(1) by (auto simp: second4_def)
  have ge: "65536 \<le> ?c" using y(1) by (cases "y = 0"; simp)
  moreover have sc: "scalar ?c"
    using y ge assms(2-) unfolding scalar_def by (cases "y = 4"; simp)
  moreover note groups4 [OF refl assms(3-5), of y]
  ultimately show
    "encode_char ?c = [byte (0xF0 + y), byte (0x80 + x), byte (0x80 + z), byte (0x80 + w)]"
    by (simp only: encode_char_def) simp
  from sc show "scalar ?c" .
qed

lemma scalar_groups:
  assumes "scalar c"
  obtains (one) "c < 0x80"
  | (two) y x where "c = y * 64 + x" "2 \<le> y" "y < 32" "x < 64"
  | (three) y x z where "c = (y * 64 + x) * 64 + z" "second3 (0xE0 + y) (0x80 + x)"
      "y < 16" "x < 64" "z < 64"
  | (four) y x z w where "c = ((y * 64 + x) * 64 + z) * 64 + w"
      "second4 (0xF0 + y) (0x80 + x)" "y < 5" "x < 64" "z < 64" "w < 64"
proof -
  have "c < 0x80 \<or> 0x80 \<le> c \<and> c < 0x800 \<or> 0x800 \<le> c \<and> c < 0x10000
    \<or> 0x10000 \<le> c \<and> c < 0x110000"
    using assms unfolding scalar_def by linarith
  then consider "c < 0x80" | "0x80 \<le> c" "c < 0x800" | "0x800 \<le> c" "c < 0x10000"
    | "0x10000 \<le> c" "c < 0x110000"
    by blast
  then show thesis
  proof cases
    case 1
    then show ?thesis by (rule one)
  next
    case 2
    then show ?thesis by (intro two [of "c div 64" "c mod 64"]) auto
  next
    case 3
    define y x z where "y = c div 64 div 64" and "x = c div 64 mod 64" and "z = c mod 64"
    then have c: "c = (y * 64 + x) * 64 + z" and x: "x < 64" and z: "z < 64" by simp_all
    then have y: "y < 16" "y = 0 \<longrightarrow> 32 \<le> x" "y = 13 \<longrightarrow> x < 32"
      using 3 assms unfolding scalar_def by auto
    then have "second3 (0xE0 + y) (0x80 + x)" using x by (auto simp: second3_def)
    from three [OF c this y(1) x z] show ?thesis .
  next
    case 4
    define y x z w where "y = c div 64 div 64 div 64" and "x = c div 64 div 64 mod 64"
      and "z = c div 64 mod 64" and "w = c mod 64"
    then have c: "c = ((y * 64 + x) * 64 + z) * 64 + w" and x: "x < 64" and z: "z < 64" "w < 64"
      by simp_all
    then have y: "y < 5" "y = 0 \<longrightarrow> 16 \<le> x" "y = 4 \<longrightarrow> x < 16" using 4 by simp_all
    then have "second4 (0xF0 + y) (0x80 + x)" using x by (auto simp: second4_def)
    from four [OF c this y(1) x z] show ?thesis .
  qed
qed

lemma next_char_encode:
  assumes "scalar c"
  shows "next_char (encode_char c @ r) = Some (c, r)"
  using assms
proof (cases rule: scalar_groups)
  case one
  then show ?thesis by (simp add: encode_char_def)
next
  case two
  then show ?thesis by (simp only: encode_char2 append.simps next_char2)
next
  case three
  then show ?thesis by (simp only: encode_char3 append.simps next_char3)
next
  case four
  then show ?thesis by (simp only: encode_char4 append.simps next_char4)
qed

lemma next_char_sound:
  assumes "next_char bs = Some (c, r)"
  shows "scalar c \<and> bs = encode_char c @ r"
proof -
  obtain a s where bs: "bs = a # s" using assms by (cases bs) auto
  define n where "n = unat a"
  have a: "a = byte n" by (simp add: n_def)
  consider "n < 0x80" | y where "n = 0xC0 + y" "2 \<le> y" "y < 32" | y where "n = 0xE0 + y" "y < 16"
    | y where "n = 0xF0 + y" "y < 5"
  proof -
    have "n < 0x80 \<or> 0xC2 \<le> n \<and> n \<le> 0xDF \<or> 0xE0 \<le> n \<and> n \<le> 0xEF \<or> 0xF0 \<le> n \<and> n \<le> 0xF4"
      using assms by (auto simp: bs Let_def n_def split: if_splits)
    then show thesis
      using that(1) that(2) [of "n - 0xC0"] that(3) [of "n - 0xE0"] that(4) [of "n - 0xF0"]
      by force
  qed
  then show ?thesis
  proof cases
    case 1
    with assms show ?thesis
      by (auto simp: bs Let_def n_def [symmetric] a encode_char_def scalar_def)
  next
    case (2 y)
    then obtain b where s: "s = b # r" and b: "cont b" and c: "c = y * 64 + (unat b - 0x80)"
      using assms by (auto simp: bs Let_def n_def [symmetric] split: if_splits list.splits)
    from b obtain x where x: "x < 64" "b = byte (128 + x)" by (rule contE)
    with 2 c have c: "c = y * 64 + x" "y * 64 + x < 0xD800" by simp_all
    show ?thesis using 2 x c by (simp add: bs s a encode_char2 scalar_def)
  next
    case (3 y)
    then obtain b d where s: "s = b # d # r" and b: "second3 n (unat b)" and d: "cont d"
      and c: "c = y * 4096 + (unat b - 0x80) * 64 + (unat d - 0x80)"
      using assms by (auto simp: bs Let_def n_def [symmetric] split: if_splits list.splits)
    have "cont b" using b by (auto simp: second3_def cont_def)
    then obtain x where x: "x < 64" "b = byte (128 + x)" by (rule contE)
    from d obtain z where z: "z < 64" "d = byte (128 + z)" by (rule contE)
    have c: "c = (y * 64 + x) * 64 + z" and b: "second3 (0xE0 + y) (0x80 + x)"
      using c b x z 3(1) by simp_all
    show ?thesis using encode_char3 [OF b 3(2) x(1) z(1)] by (simp add: bs s a c 3(1) x(2) z(2))
  next
    case (4 y)
    then obtain b d e where s: "s = b # d # e # r" and b: "second4 n (unat b)"
      and d: "cont d" and e: "cont e"
      and c: "c = y * 262144 + (unat b - 0x80) * 4096 + (unat d - 0x80) * 64 + (unat e - 0x80)"
      using assms by (auto simp: bs Let_def n_def [symmetric] split: if_splits list.splits)
    have "cont b" using b by (auto simp: second4_def cont_def)
    then obtain x where x: "x < 64" "b = byte (128 + x)" by (rule contE)
    from d obtain z where z: "z < 64" "d = byte (128 + z)" by (rule contE)
    from e obtain w where w: "w < 64" "e = byte (128 + w)" by (rule contE)
    have c: "c = ((y * 64 + x) * 64 + z) * 64 + w" and b: "second4 (0xF0 + y) (0x80 + x)"
      using c b x z w 4(1) by simp_all
    show ?thesis using encode_char4 [OF b 4(2) x(1) z(1) w(1)]
      by (simp add: bs s a c 4(1) x(2) z(2) w(2))
  qed
qed

theorem from_utf8_as_bytes: "is_text s \<Longrightarrow> from_utf8 (as_bytes s) = Some s"
  by (induction s) (simp_all add: from_utf8.simps [of "encode_char _ @ _"] next_char_encode)

theorem from_utf8_sound: "from_utf8 bs = Some s \<Longrightarrow> is_text s \<and> as_bytes s = bs"
proof (induction bs arbitrary: s rule: from_utf8.induct)
  case (1 bs)
  show ?case
  proof (cases "bs = []")
    case True
    with "1.prems" show ?thesis by simp
  next
    case False
    with "1.prems" obtain c r t where nc: "next_char bs = Some (c, r)"
      and t: "from_utf8 r = Some t" and s: "s = c # t"
      by (auto simp: from_utf8.simps [of bs] split: option.splits)
    from "1.IH" [OF False nc refl t] next_char_sound [OF nc] show ?thesis by (simp add: s)
  qed
qed

section \<open>Null bytes\<close>

lemma zero_in_encode_char: "scalar c \<Longrightarrow> 0 \<in> set (encode_char c) \<longleftrightarrow> c = 0"
proof -
  assume sc: "scalar c"
  have z: "n < 256 \<Longrightarrow> 0 = byte n \<longleftrightarrow> n = 0" for n
    using byte_inject [of 0 n] by (simp add: byte_def)
  have "c div 262144 \<le> 4" using sc unfolding scalar_def by linarith
  then show "0 \<in> set (encode_char c) \<longleftrightarrow> c = 0"
    by (auto simp: encode_char_def z)
qed

lemma zero_in_as_bytes: "is_text s \<Longrightarrow> 0 \<in> set (as_bytes s) \<longleftrightarrow> 0 \<in> set s"
  by (induction s) (auto simp: zero_in_encode_char)

lemma as_bytes_inject: "is_text s \<Longrightarrow> is_text t \<Longrightarrow> as_bytes s = as_bytes t \<longleftrightarrow> s = t"
  by (metis from_utf8_as_bytes option.inject)

section \<open>Lossy decoding\<close>

text \<open>
  \<open>String::from_utf8_lossy\<close>: where no scalar value can be read, the bytes that begin one
  are replaced by a single U+FFFD, one byte at least.
\<close>

fun malformed_length :: "bytes \<Rightarrow> nat" where
  "malformed_length (a # b # c # r) =
     (if second3 (unat a) (unat b) then 2
      else if second4 (unat a) (unat b) then (if cont c then 3 else 2)
      else 1)"
| "malformed_length [a, b] =
     (if second3 (unat a) (unat b) \<or> second4 (unat a) (unat b) then 2 else 1)"
| "malformed_length _ = 1"

lemma malformed_length_pos: "0 < malformed_length bs"
  by (induction bs rule: malformed_length.induct) auto

function from_utf8_lossy :: "bytes \<Rightarrow> str" where
  "from_utf8_lossy bs =
     (if bs = [] then []
      else case next_char bs of
        Some (c, r) \<Rightarrow> c # from_utf8_lossy r
      | None \<Rightarrow> 0xFFFD # from_utf8_lossy (drop (malformed_length bs) bs))"
  by pat_completeness auto
termination
  by (relation "measure length") (auto dest: next_char_length simp: malformed_length_pos)

declare from_utf8_lossy.simps [simp del]

lemma from_utf8_lossy_text: "from_utf8 bs = Some s \<Longrightarrow> from_utf8_lossy bs = s"
proof (induction bs arbitrary: s rule: from_utf8.induct)
  case (1 bs)
  then show ?case
    by (auto simp: from_utf8.simps [of bs] from_utf8_lossy.simps [of bs]
        split: if_splits option.splits prod.splits)
qed

lemma is_text_from_utf8_lossy: "is_text (from_utf8_lossy bs)"
proof (induction bs rule: from_utf8_lossy.induct)
  case (1 bs)
  then show ?case
    by (subst from_utf8_lossy.simps)
      (auto split: option.splits dest: next_char_sound simp: scalar_def)
qed

end
