(* ===== verification/Errors.thy ===== *)
theory Errors
  imports Utf8
begin

text \<open>
  The reasons a read fails (\<open>ParseStatus\<close> of src/src/status.rs, \<open>ParseDetail\<close> and
  \<open>ParseError\<close> of src/src/parse.rs), the errors of every other operation (\<open>Error\<close> of
  src/src/error.rs), what each is displayed as, and the version byte (src/src/version.rs).
  Constructors keep their names in the source. A name that two enums share is written with
  its type, as \<open>parse_status.UnsupportedVersion\<close> against \<open>error.UnsupportedVersion\<close>.
\<close>

section \<open>Constants\<close>

definition SIGNATURE_LENGTH :: nat where
  "SIGNATURE_LENGTH = 64"

definition MAXIMUM_DOMAIN_LENGTH :: nat where
  "MAXIMUM_DOMAIN_LENGTH = 253"

declare SIGNATURE_LENGTH_def [wire_simps] MAXIMUM_DOMAIN_LENGTH_def [wire_simps]

section \<open>Why a read failed\<close>

datatype parse_status =
    Parsed
  | MissingInput
  | InvalidBase64
  | UnsupportedVersion
  | AbsentNode
  | UnexpectedEnd
  | InvalidDomainEncoding
  | ByteCountMismatch
  | ImplementationCapacityExceeded
  | MalformedEnvelope

fun parse_status_as_str :: "parse_status \<Rightarrow> str" where
  "parse_status_as_str Parsed = lit ''Parsed''"
| "parse_status_as_str MissingInput = lit ''MissingInput''"
| "parse_status_as_str InvalidBase64 = lit ''InvalidBase64''"
| "parse_status_as_str UnsupportedVersion = lit ''UnsupportedVersion''"
| "parse_status_as_str AbsentNode = lit ''AbsentNode''"
| "parse_status_as_str UnexpectedEnd = lit ''UnexpectedEnd''"
| "parse_status_as_str InvalidDomainEncoding = lit ''InvalidDomainEncoding''"
| "parse_status_as_str ByteCountMismatch = lit ''ByteCountMismatch''"
| "parse_status_as_str ImplementationCapacityExceeded = lit ''ImplementationCapacityExceeded''"
| "parse_status_as_str MalformedEnvelope = lit ''MalformedEnvelope''"

datatype parse_detail =
    Field str
  | VersionByte u8
  | ByteCounts (declared: u32) (present: int)
  | Capacity (required: nat)
  | MaximumDomainLength nat

text \<open>Single quotes around a value in a message.\<close>

definition quoted :: "str \<Rightarrow> str" where
  "quoted s = [39] @ s @ [39]"

fun parse_detail_to_string :: "parse_detail \<Rightarrow> str" where
  "parse_detail_to_string (Field name) = lit ''stopped inside '' @ name"
| "parse_detail_to_string (VersionByte v) = lit ''version '' @ quoted (decimal (unat v))"
| "parse_detail_to_string (ByteCounts d p) =
     lit ''declared '' @ quoted (decimal (unat d)) @ lit '' with '' @ quoted (decimal_int p)
     @ lit '' present''"
| "parse_detail_to_string (Capacity r) = quoted (decimal r) @ lit '' bytes required''"
| "parse_detail_to_string (MaximumDomainLength m) =
     lit ''longer than the '' @ quoted (decimal m)
     @ lit '' character maximum, or not terminated''"

datatype parse_error = ParseError (pe_status: parse_status) (pe_detail: "parse_detail option")

fun parse_error_to_string :: "parse_error \<Rightarrow> str" where
  "parse_error_to_string (ParseError s None) = parse_status_as_str s"
| "parse_error_to_string (ParseError s (Some d)) =
     parse_status_as_str s @ lit '': '' @ parse_detail_to_string d"

text \<open>\<open>fail\<close> and \<open>fail_with\<close>.\<close>

definition fail :: "parse_status \<Rightarrow> ('a, parse_error) res" where
  "fail s = Err (ParseError s None)"

definition fail_with :: "parse_status \<Rightarrow> parse_detail \<Rightarrow> ('a, parse_error) res" where
  "fail_with s d = Err (ParseError s (Some d))"

lemma fail_iffs [simp]:
  "fail s \<noteq> Ok x" "fail s \<noteq> Panic" "fail s = Err e \<longleftrightarrow> e = ParseError s None"
  "fail_with s d \<noteq> Ok x" "fail_with s d \<noteq> Panic"
  "fail_with s d = Err e \<longleftrightarrow> e = ParseError s (Some d)"
  "bind_res (fail s) f = fail s" "bind_res (fail_with s d) f = fail_with s d"
  by (auto simp: fail_def fail_with_def)

section \<open>Errors of the other operations\<close>

datatype error =
    UnsupportedVersion u8
  | InvalidSignatureLength nat
  | InvalidDomain str
  | DomainTooLong
  | DateOutOfRange
  | PayloadTooLarge nat
  | ImplementationCapacityExceeded nat
  | Key str
  | KeyMissing str
  | InvalidKeyFormat str
  | Http str
  | Parse parse_error

fun error_to_string :: "error \<Rightarrow> str" where
  "error_to_string (UnsupportedVersion v) =
     lit ''OWID version '' @ quoted (decimal (unat v)) @ lit '' not supported''"
| "error_to_string (InvalidSignatureLength l) =
     lit ''signature length '' @ quoted (decimal l) @ lit '' not compatible with ''
     @ quoted (decimal SIGNATURE_LENGTH) @ lit '' OWID signature length''"
| "error_to_string (InvalidDomain d) = lit ''domain '' @ quoted d @ lit '' is not valid''"
| "error_to_string DomainTooLong =
     lit ''domain field exceeds the '' @ quoted (decimal MAXIMUM_DOMAIN_LENGTH)
     @ lit '' character maximum''"
| "error_to_string DateOutOfRange =
     lit ''date can not be stored in the encoding for the OWID version''"
| "error_to_string (PayloadTooLarge l) =
     lit ''payload length '' @ quoted (decimal l) @ lit '' exceeds the unsigned 32 bit limit''"
| "error_to_string (ImplementationCapacityExceeded r) =
     lit ''OWID requires '' @ quoted (decimal r)
     @ lit '' bytes beyond this implementation'' @ [39]
     @ lit ''s capacity''"
| "error_to_string (Key e) = lit ''key operation failed because '' @ e"
| "error_to_string (KeyMissing a) = lit ''instance of Crypto cannot be used to '' @ a"
| "error_to_string (InvalidKeyFormat v) =
     lit ''the only public key format defined is '' @ quoted (lit ''spki'')
     @ lit '', received '' @ quoted v"
| "error_to_string (Http e) = lit ''HTTP request failed because '' @ e"
| "error_to_string (Parse e) = lit ''bytes are not an OWID because '' @ parse_error_to_string e"

text \<open>\<open>Error::source\<close>, the only source being a \<open>ParseError\<close>, and the conversion behind \<open>?\<close>.\<close>

fun error_source :: "error \<Rightarrow> parse_error option" where
  "error_source (Parse e) = Some e"
| "error_source _ = None"

definition error_from_parse :: "parse_error \<Rightarrow> error" where
  "error_from_parse e = Parse e"

section \<open>The version byte\<close>

datatype version = Empty | Version1 | Version2 | Version3

fun as_byte :: "version \<Rightarrow> u8" where
  "as_byte Empty = 0"
| "as_byte Version1 = 1"
| "as_byte Version2 = 2"
| "as_byte Version3 = 3"

definition version_try_from :: "u8 \<Rightarrow> (version, error) res" where
  "version_try_from b =
     (if b = 0 then Ok Empty
      else if b = 1 then Ok Version1
      else if b = 2 then Ok Version2
      else if b = 3 then Ok Version3
      else Err (error.UnsupportedVersion b))"

text \<open>\<open>#[default]\<close>: the version that \<open>Creator::create\<close> writes.\<close>

definition version_default :: version where
  "version_default = Version3"

text \<open>\<open>From<Version> for u8\<close>.\<close>

definition u8_from_version :: "version \<Rightarrow> u8" where
  "u8_from_version v = as_byte v"

lemma version_try_from_as_byte [simp]: "version_try_from (as_byte v) = Ok v"
  by (cases v) (simp_all add: version_try_from_def)

lemma version_try_from_Ok: "version_try_from b = Ok v \<Longrightarrow> as_byte v = b"
  by (auto simp: version_try_from_def split: if_splits)

lemma version_try_from_not_Panic [simp]: "version_try_from b \<noteq> Panic"
  by (simp add: version_try_from_def)

lemma as_byte_eq_0 [simp]: "as_byte v = 0 \<longleftrightarrow> v = Empty"
  by (cases v) simp_all

end
