(* ===== verification/Environment.thy ===== *)
theory Environment
  imports Errors
begin

text \<open>
  The code the crate calls that is not part of the repository, as parameters of the model:
  the dates of the \<open>chrono\<close> crate, the Base 64 engine of the \<open>base64\<close> crate, the keys and
  signatures of the \<open>p256\<close> crate, and the allocator and pointer width of the target. Each
  is a record of functions, an argument of every definition that uses it. What the crate
  relies on is stated as a predicate on the record, from the documentation of the crate
  called, and is a hypothesis of the theorems that need it. One instance of each record is
  given, on which the witnesses evaluate.
\<close>

section \<open>Dates\<close>

text \<open>
  A \<open>DateTime<Utc>\<close> is a value of an ordered type \<open>'t\<close>. \<open>num_minutes C a b\<close> stands for
  \<open>(a - b).num_minutes()\<close>, \<open>add_minutes C a m\<close> for \<open>a + Duration::minutes(m)\<close>, with
  \<open>None\<close> where that panics, and \<open>to_rfc3339\<close> for
  \<open>to_rfc3339_opts(SecondsFormat::Secs, true)\<close>.
\<close>

record 't chrono =
  from_timestamp :: "int \<Rightarrow> nat \<Rightarrow> 't option"
  num_minutes :: "'t \<Rightarrow> 't \<Rightarrow> int"
  num_hours :: "'t \<Rightarrow> 't \<Rightarrow> int"
  add_minutes :: "'t \<Rightarrow> int \<Rightarrow> 't option"
  add_hours :: "'t \<Rightarrow> int \<Rightarrow> 't option"
  parse_from_rfc3339 :: "str \<Rightarrow> 't option"
  to_rfc3339 :: "'t \<Rightarrow> str"

text \<open>
  The base date of src/src/io.rs. The \<open>expect\<close> on the timestamp is on a constant, which
  the first law below keeps from being out of range.
\<close>

definition base_date :: "'t chrono \<Rightarrow> 't" where
  "base_date C = the (from_timestamp C 1577836800 0)"

text \<open>
  What is relied on when a date is written and read: the base date exists, and adding a
  count of whole minutes or hours that the wire format can hold to it stays in range and
  is counted back as the same count.
\<close>

definition dates_ok :: "'t chrono \<Rightarrow> bool" where
  "dates_ok C \<longleftrightarrow>
     from_timestamp C 1577836800 0 \<noteq> None
     \<and> (\<forall>m. 0 \<le> m \<and> m < 2 ^ 32 \<longrightarrow>
          (\<exists>d. add_minutes C (base_date C) m = Some d \<and> num_minutes C d (base_date C) = m))
     \<and> (\<forall>h. 0 \<le> h \<and> h < 2 ^ 16 \<longrightarrow>
          (\<exists>d. add_hours C (base_date C) h = Some d \<and> num_hours C d (base_date C) = h))"

text \<open>
  What is relied on where minutes and moments are compared: a later moment has no fewer
  whole minutes, and counting down to the minute never passes the moment.
\<close>

definition dates_ordered :: "('t :: linorder) chrono \<Rightarrow> bool" where
  "dates_ordered C \<longleftrightarrow>
     (\<forall>a b. a \<le> b \<longrightarrow> num_minutes C a (base_date C) \<le> num_minutes C b (base_date C))
     \<and> (\<forall>a d. base_date C \<le> a \<longrightarrow>
          add_minutes C (base_date C) (num_minutes C a (base_date C)) = Some d \<longrightarrow> d \<le> a)"

lemma dates_ok_minutes:
  assumes "dates_ok C" "0 \<le> m" "m < 2 ^ 32"
  obtains d where "add_minutes C (base_date C) m = Some d" "num_minutes C d (base_date C) = m"
  using assms unfolding dates_ok_def by blast

lemma dates_ok_hours:
  assumes "dates_ok C" "0 \<le> h" "h < 2 ^ 16"
  obtains d where "add_hours C (base_date C) h = Some d" "num_hours C d (base_date C) = h"
  using assms unfolding dates_ok_def by blast

text \<open>
  The moments whose RFC 3339 text is read back as the same moment are those with whole
  seconds, because the text is written without a fraction. The text is a \<open>String\<close>.
\<close>

definition rfc3339_ok :: "'t chrono \<Rightarrow> ('t \<Rightarrow> bool) \<Rightarrow> bool" where
  "rfc3339_ok C whole \<longleftrightarrow>
     (\<forall>d. whole d \<longrightarrow> parse_from_rfc3339 C (to_rfc3339 C d) = Some d)
     \<and> (\<forall>d. is_text (to_rfc3339 C d))"

section \<open>Base 64\<close>

record base64 =
  b64_encode :: "bytes \<Rightarrow> str"
  b64_decode :: "str \<Rightarrow> bytes option"

definition base64_ok :: "base64 \<Rightarrow> bool" where
  "base64_ok B \<longleftrightarrow>
     (\<forall>bs. b64_decode B (b64_encode B bs) = Some bs)
     \<and> (\<forall>bs. b64_encode B bs = [] \<longrightarrow> bs = [])"

section \<open>Keys and signatures\<close>

text \<open>
  \<open>'sk\<close> is \<open>SigningKey\<close>, \<open>'vk\<close> is \<open>VerifyingKey\<close> and \<open>'sg\<close> is \<open>Signature\<close>. A call that
  can fail yields the text of its error on the left. \<open>from_sec1_pem\<close> stands for
  \<open>SecretKey::from_sec1_pem(..).map(SigningKey::from)\<close>.
\<close>

record ('sk, 'vk, 'sg) p256 =
  verifying_key_of :: "'sk \<Rightarrow> 'vk"
  from_pkcs8_pem :: "str \<Rightarrow> str + 'sk"
  from_sec1_pem :: "str \<Rightarrow> str + 'sk"
  from_public_key_pem :: "str \<Rightarrow> str + 'vk"
  to_public_key_pem :: "'vk \<Rightarrow> str + str"
  to_pkcs8_pem :: "'sk \<Rightarrow> str + str"
  ecdsa_sign :: "'sk \<Rightarrow> bytes \<Rightarrow> 'sg"
  sig_to_bytes :: "'sg \<Rightarrow> bytes"
  sig_from_slice :: "bytes \<Rightarrow> 'sg option"
  ecdsa_verify :: "'vk \<Rightarrow> bytes \<Rightarrow> 'sg \<Rightarrow> bool"

text \<open>
  The correctness of the signature scheme: a signature made with a key has the 64 bytes of
  its r and s values, is read back from them, and verifies under the key's public half.
\<close>

definition signatures_ok :: "('sk, 'vk, 'sg) p256 \<Rightarrow> bool" where
  "signatures_ok E \<longleftrightarrow>
     (\<forall>k d. length (sig_to_bytes E (ecdsa_sign E k d)) = 64)
     \<and> (\<forall>k d. sig_from_slice E (sig_to_bytes E (ecdsa_sign E k d)) = Some (ecdsa_sign E k d))
     \<and> (\<forall>k d. ecdsa_verify E (verifying_key_of E k) d (ecdsa_sign E k d))"

text \<open>A public key that was exported is read back as the same key, and is not blank.\<close>

definition public_pem_ok :: "('sk, 'vk, 'sg) p256 \<Rightarrow> bool" where
  "public_pem_ok E \<longleftrightarrow>
     (\<forall>v p. to_public_key_pem E v = Inr p \<longrightarrow>
        from_public_key_pem E p = Inr v \<and> trim p \<noteq> [] \<and> is_text p)"

section \<open>The target\<close>

text \<open>The largest \<open>usize\<close>, and the reservations the allocator grants.\<close>

record platform =
  usize_max :: nat
  can_reserve :: "nat \<Rightarrow> bool"

text \<open>A target that can hold any envelope whose bytes are present.\<close>

definition ample :: "platform \<Rightarrow> bool" where
  "ample P \<longleftrightarrow> 2 ^ 32 \<le> usize_max P \<and> (\<forall>n \<le> usize_max P. can_reserve P n)"

section \<open>Instances\<close>

text \<open>Moments as whole seconds, with the truncating division of \<open>Duration\<close>.\<close>

definition quot :: "int \<Rightarrow> int \<Rightarrow> int" where
  "quot a b = sgn a * (\<bar>a\<bar> div b)"

definition utc_seconds :: "int chrono" where
  "utc_seconds =
     \<lparr> from_timestamp = (\<lambda>s n. Some s),
       num_minutes = (\<lambda>a b. quot (a - b) 60),
       num_hours = (\<lambda>a b. quot (a - b) 3600),
       add_minutes = (\<lambda>a m. Some (a + 60 * m)),
       add_hours = (\<lambda>a h. Some (a + 3600 * h)),
       parse_from_rfc3339 = (\<lambda>s. case s of
           [] \<Rightarrow> None
         | c # cs \<Rightarrow> if c = 45 then map_option (\<lambda>n. - int n) (from_digits 10 cs 0)
                     else map_option int (from_digits 10 (c # cs) 0)),
       to_rfc3339 = (\<lambda>d. decimal_int d) \<rparr>"

lemma base_date_utc [simp]: "base_date utc_seconds = 1577836800"
  by (simp add: base_date_def utc_seconds_def)

lemma dates_ok_utc: "dates_ok utc_seconds"
  by (auto simp: dates_ok_def base_date_def utc_seconds_def quot_def sgn_if)

lemma quot_mono: "0 < b \<Longrightarrow> a \<le> c \<Longrightarrow> quot a b \<le> quot c b"
proof -
  assume "0 < b" "a \<le> c"
  consider "0 \<le> a" "0 \<le> c" | "a < 0" "0 \<le> c" | "a < 0" "c < 0"
    using \<open>a \<le> c\<close> by linarith
  then show "quot a b \<le> quot c b"
  proof cases
    case 1
    then have "a div b \<le> c div b" using \<open>0 < b\<close> \<open>a \<le> c\<close> by (intro zdiv_mono1) auto
    with 1 \<open>0 < b\<close> show ?thesis by (auto simp: quot_def sgn_if pos_imp_zdiv_nonneg_iff)
  next
    case 2
    then have "0 \<le> - a div b" "0 \<le> c div b" using \<open>0 < b\<close> by (simp_all add: pos_imp_zdiv_nonneg_iff)
    with 2 show ?thesis by (auto simp: quot_def sgn_if)
  next
    case 3
    then have "- c div b \<le> - a div b" using \<open>0 < b\<close> \<open>a \<le> c\<close> by (intro zdiv_mono1) auto
    with 3 show ?thesis by (simp add: quot_def sgn_if)
  qed
qed

lemma dates_ordered_utc: "dates_ordered utc_seconds"
proof -
  have "60 * quot (a - b) 60 \<le> a - b" if "b \<le> a" for a b :: int
    using that by (auto simp: quot_def sgn_if)
  then show ?thesis
    by (auto simp: dates_ordered_def base_date_def utc_seconds_def intro!: quot_mono)
       (smt (verit) add.commute)
qed

lemma rfc3339_ok_utc: "rfc3339_ok utc_seconds (\<lambda>d. \<bar>d\<bar> < 2 ^ 32)"
proof -
  have "parse_from_rfc3339 utc_seconds (to_rfc3339 utc_seconds d) = Some d" if "\<bar>d\<bar> < 2 ^ 32" for d
  proof (cases "d < 0")
    case True
    with that show ?thesis by (simp add: utc_seconds_def decimal_int_def from_digits_decimal lit_def)
  next
    case False
    obtain c cs where dec: "decimal (nat d) = c # cs" by (cases "decimal (nat d)") auto
    with decimal_digits [of "nat d"] have "c \<noteq> 45" by auto
    moreover have "from_digits 10 (c # cs) 0 = Some (nat d)"
      unfolding dec [symmetric] using False that by (intro from_digits_decimal) auto
    ultimately show ?thesis
      using False by (simp del: from_digits.simps add: utc_seconds_def decimal_int_def dec)
  qed
  moreover have "is_text (to_rfc3339 utc_seconds d)" for d
    by (simp add: utc_seconds_def decimal_int_def scalar_ascii lit_def)
  ultimately show ?thesis by (simp add: rfc3339_ok_def)
qed

text \<open>Base 64 replaced by one character for each byte.\<close>

definition plain64 :: base64 where
  "plain64 = \<lparr> b64_encode = map unat, b64_decode = (\<lambda>s. Some (map byte s)) \<rparr>"

lemma base64_ok_plain: "base64_ok plain64"
  by (simp add: base64_ok_def plain64_def comp_def)

text \<open>
  A signature scheme with numbered keys, in which the signature is the number of the key,
  the sum of the bytes signed, and zeros. A key's PEM is its number in decimal.
\<close>

definition numbered_sign :: "u32 \<Rightarrow> bytes \<Rightarrow> bytes" where
  "numbered_sign k d = to_le_bytes k @ to_le_bytes (sum_list (map ucast d)) @ replicate 56 0"

definition read_number :: "str \<Rightarrow> str + u32" where
  "read_number p = (case parse_u32 p of None \<Rightarrow> Inl (lit ''not a key'') | Some k \<Rightarrow> Inr k)"

definition numbered :: "(u32, u32, bytes) p256" where
  "numbered =
     \<lparr> verifying_key_of = (\<lambda>k. k),
       from_pkcs8_pem = read_number,
       from_sec1_pem = read_number,
       from_public_key_pem = read_number,
       to_public_key_pem = (\<lambda>k. Inr (decimal (unat k))),
       to_pkcs8_pem = (\<lambda>k. Inr (decimal (unat k))),
       ecdsa_sign = numbered_sign,
       sig_to_bytes = (\<lambda>s. s),
       sig_from_slice = (\<lambda>s. Some s),
       ecdsa_verify = (\<lambda>k d s. s = numbered_sign k d) \<rparr>"

lemma signatures_ok_numbered: "signatures_ok numbered"
  by (simp add: signatures_ok_def numbered_def numbered_sign_def)

lemma public_pem_ok_numbered: "public_pem_ok numbered"
proof -
  have "\<exists>c \<in> set (decimal n). \<not> is_whitespace c" for n
  proof -
    have "hd (decimal n) \<in> set (decimal n)" by simp
    moreover from this decimal_digits [of n] have "\<not> is_whitespace (hd (decimal n))"
      by (fastforce simp: is_whitespace_def)
    ultimately show ?thesis by blast
  qed
  then show ?thesis by (auto simp: public_pem_ok_def numbered_def read_number_def)
qed

text \<open>A 64 bit target with memory to spare.\<close>

definition target64 :: platform where
  "target64 = \<lparr> usize_max = 2 ^ 64 - 1, can_reserve = (\<lambda>n. True) \<rparr>"

lemma ample_target64: "ample target64"
  by (simp add: ample_def target64_def)

end
