(* ===== verification/Wire.thy ===== *)
theory Wire
  imports Environment
begin

text \<open>
  The OWID itself (the struct of src/src/owid.rs) and the write helpers of the binary
  format (src/src/io.rs). A writer appends to the buffer it is given and answers with its
  result together with the buffer, because a failure part way leaves what was already
  appended in place.
\<close>

section \<open>The OWID\<close>

record 't owid =
  owid_version :: version
  owid_domain :: str
  owid_date :: 't
  owid_payload :: bytes
  owid_signature :: bytes

definition from_parts :: "version \<Rightarrow> str \<Rightarrow> 't \<Rightarrow> bytes \<Rightarrow> bytes \<Rightarrow> 't owid" where
  "from_parts v d t p s =
     \<lparr> owid_version = v, owid_domain = d, owid_date = t, owid_payload = p, owid_signature = s \<rparr>"

definition set_signature :: "'t owid \<Rightarrow> bytes \<Rightarrow> 't owid" where
  "set_signature w s = w\<lparr> owid_signature := s \<rparr>"

lemma from_parts_simps [simp]:
  "owid_version (from_parts v d t p s) = v" "owid_domain (from_parts v d t p s) = d"
  "owid_date (from_parts v d t p s) = t" "owid_payload (from_parts v d t p s) = p"
  "owid_signature (from_parts v d t p s) = s"
  "set_signature (from_parts v d t p s) s' = from_parts v d t p s'"
  by (simp_all add: from_parts_def set_signature_def)

section \<open>Counting the date\<close>

text \<open>\<open>u32::try_from\<close> and \<open>u16::try_from\<close> of an \<open>i64\<close>.\<close>

definition u32_try_from :: "int \<Rightarrow> u32 option" where
  "u32_try_from i = (if 0 \<le> i \<and> i < 2 ^ 32 then Some (of_int i) else None)"

definition u16_try_from :: "int \<Rightarrow> u16 option" where
  "u16_try_from i = (if 0 \<le> i \<and> i < 2 ^ 16 then Some (of_int i) else None)"

definition minutes_since_base :: "'t chrono \<Rightarrow> 't \<Rightarrow> u32 option" where
  "minutes_since_base C d = u32_try_from (num_minutes C d (base_date C))"

lemma u32_try_from_Some: "u32_try_from i = Some v \<longleftrightarrow> i = uint v"
  by (auto simp: u32_try_from_def of_int_uint uint_lt2p [of v, simplified]
      intro!: word_of_int_inverse [symmetric] dest: sym)

section \<open>Writers\<close>

text \<open>The \<open>?\<close> operator between two writes to one buffer.\<close>

fun then_write ::
    "(unit, error) res \<times> bytes \<Rightarrow> (bytes \<Rightarrow> (unit, error) res \<times> bytes)
     \<Rightarrow> (unit, error) res \<times> bytes" where
  "then_write (Ok (), b) f = f b"
| "then_write (Err e, b) f = (Err e, b)"
| "then_write (Panic, b) f = (Panic, b)"

definition write_byte :: "bytes \<Rightarrow> u8 \<Rightarrow> bytes" where
  "write_byte buffer v = buffer @ [v]"

definition write_domain :: "bytes \<Rightarrow> str \<Rightarrow> (unit, error) res \<times> bytes" where
  "write_domain buffer v =
     (if 0 \<in> set (as_bytes v) then (Err (InvalidDomain v), buffer)
      else if length (as_bytes v) > MAXIMUM_DOMAIN_LENGTH then (Err DomainTooLong, buffer)
      else (Ok (), buffer @ as_bytes v @ [0]))"

definition write_u32 :: "bytes \<Rightarrow> u32 \<Rightarrow> bytes" where
  "write_u32 buffer v = buffer @ to_le_bytes v"

definition write_byte_array :: "bytes \<Rightarrow> bytes \<Rightarrow> (unit, error) res \<times> bytes" where
  "write_byte_array buffer v =
     (if length v < 2 ^ 32
      then (Ok (), write_u32 buffer (of_nat (length v)) @ v)
      else (Err (PayloadTooLarge (length v)), buffer))"

definition write_signature :: "bytes \<Rightarrow> bytes \<Rightarrow> (unit, error) res \<times> bytes" where
  "write_signature buffer v =
     (if length v \<noteq> SIGNATURE_LENGTH then (Err (InvalidSignatureLength (length v)), buffer)
      else (Ok (), buffer @ v))"

fun write_date :: "'t chrono \<Rightarrow> bytes \<Rightarrow> 't \<Rightarrow> version \<Rightarrow> (unit, error) res \<times> bytes" where
  "write_date C buffer date Version1 =
     (case u16_try_from (num_hours C date (base_date C)) of
        None \<Rightarrow> (Err DateOutOfRange, buffer)
      | Some hours \<Rightarrow> (Ok (), buffer @ [ucast (drop_bit 8 hours)] @ [ucast (hours AND 0x00FF)]))"
| "write_date C buffer date Version2 =
     (case minutes_since_base C date of
        None \<Rightarrow> (Err DateOutOfRange, buffer)
      | Some minutes \<Rightarrow> (Ok (), write_u32 buffer minutes))"
| "write_date C buffer date Version3 =
     (case minutes_since_base C date of
        None \<Rightarrow> (Err DateOutOfRange, buffer)
      | Some minutes \<Rightarrow> (Ok (), write_u32 buffer minutes))"
| "write_date C buffer date Empty = (Err (error.UnsupportedVersion (as_byte Empty)), buffer)"

text \<open>Every writer only appends, and a refusal appends nothing.\<close>

lemma write_domain_appends: "\<exists>z. snd (write_domain buffer v) = buffer @ z"
  by (simp add: write_domain_def)

lemma write_refused:
  "fst (write_domain buffer v) = Err e \<Longrightarrow> snd (write_domain buffer v) = buffer"
  "fst (write_byte_array buffer p) = Err e \<Longrightarrow> snd (write_byte_array buffer p) = buffer"
  "fst (write_signature buffer s) = Err e \<Longrightarrow> snd (write_signature buffer s) = buffer"
  "fst (write_date C buffer d ver) = Err e \<Longrightarrow> snd (write_date C buffer d ver) = buffer"
  by (auto simp: write_domain_def write_byte_array_def write_signature_def split: if_splits)
    (cases ver; auto split: option.splits)

end
