(* ===== verification/KeyCache.thy ===== *)
theory KeyCache
  imports Wire
begin

text \<open>
  The keys a verifier holds (src/src/fetch.rs, from \<open>MAXIMUM_CACHED_KEYS\<close> to \<open>clear_cache\<close>):
  the spans of minutes each key is known to cover, lookup, recording an answer, and the
  bound on what is held. Minutes are 32 bit words. \<open>Utc::now()\<close> enters as the minute it is
  counted as, and \<open>HashMap\<close> is a partial map. The fetches under way are numbered here and
  given their state in Fetching.
\<close>

section \<open>Held keys and answers\<close>

definition MAXIMUM_CACHED_KEYS :: nat where
  "MAXIMUM_CACHED_KEYS = 1024"

definition CLOCK_DRIFT_ALLOWANCE_MINUTES :: u32 where
  "CLOCK_DRIFT_ALLOWANCE_MINUTES = 15"

text \<open>\<open>u32::MAX\<close>, \<open>saturating_sub\<close> and \<open>abs_diff\<close>.\<close>

definition u32_max :: u32 where
  "u32_max = - 1"

definition saturating_sub :: "u32 \<Rightarrow> u32 \<Rightarrow> u32" where
  "saturating_sub a b = (if a < b then 0 else a - b)"

definition abs_diff :: "u32 \<Rightarrow> u32 \<Rightarrow> u32" where
  "abs_diff a b = (if a < b then b - a else a - b)"

record held_key =
  held_pem :: str
  first_minute :: u32
  last_minute :: u32
  explicit :: bool
  open_ended :: bool

record key_answer =
  answer_pem :: str
  answer_first :: u32
  answer_last :: u32
  known :: bool

definition key_answer_known :: "str \<Rightarrow> u32 \<Rightarrow> u32 \<Rightarrow> key_answer" where
  "key_answer_known pem f l =
     \<lparr> answer_pem = pem, answer_first = f, answer_last = l, known = True \<rparr>"

definition key_answer_unknown :: "str \<Rightarrow> key_answer" where
  "key_answer_unknown pem =
     \<lparr> answer_pem = pem, answer_first = 0, answer_last = 0, known = False \<rparr>"

text \<open>\<open>KeyAnswer::stated\<close>, from the moments in the creator's answer.\<close>

definition key_answer_stated :: "str \<Rightarrow> u32 option \<Rightarrow> u32 option \<Rightarrow> key_answer" where
  "key_answer_stated pem start finish =
     (case (start, finish) of
        (None, _) \<Rightarrow> key_answer_unknown pem
      | (Some start, Some finish) \<Rightarrow>
          if finish > start then key_answer_known pem start (finish - 1)
          else key_answer_known pem start u32_max
      | (Some start, None) \<Rightarrow> key_answer_known pem start u32_max)"

definition answer_covers :: "key_answer \<Rightarrow> u32 \<Rightarrow> bool" where
  "answer_covers a minute \<longleftrightarrow> known a \<and> answer_first a \<le> minute \<and> minute \<le> answer_last a"

definition near_edge :: "u32 \<Rightarrow> u32 \<Rightarrow> bool" where
  "near_edge minute edge \<longleftrightarrow> abs_diff minute edge \<le> CLOCK_DRIFT_ALLOWANCE_MINUTES"

definition held_covers :: "held_key \<Rightarrow> u32 \<Rightarrow> bool" where
  "held_covers k minute \<longleftrightarrow> first_minute k \<le> minute \<and> minute \<le> last_minute k"

definition held_stated :: "held_key \<Rightarrow> key_answer" where
  "held_stated k =
     (if explicit k then key_answer_known (held_pem k) (first_minute k) (last_minute k)
      else if open_ended k then key_answer_known (held_pem k) (first_minute k) u32_max
      else key_answer_unknown (held_pem k))"

section \<open>The cache\<close>

record cache =
  cache_keys :: "str \<rightharpoonup> held_key list"
  cache_held :: nat
  in_flight :: "str \<rightharpoonup> nat"

definition empty_cache :: cache where
  "empty_cache = \<lparr> cache_keys = Map.empty, cache_held = 0, in_flight = Map.empty \<rparr>"

definition held_for :: "cache \<Rightarrow> str \<Rightarrow> u32 \<Rightarrow> bool \<Rightarrow> key_answer option" where
  "held_for c end_point minute recent =
     (case cache_keys c end_point of
        None \<Rightarrow> None
      | Some ks \<Rightarrow>
          map_option held_stated
            (List.find (\<lambda>k. held_covers k minute \<and> (explicit k \<or> \<not> recent)) ks))"

definition widen ::
    "held_key list \<Rightarrow> nat \<Rightarrow> u32 \<Rightarrow> u32 \<Rightarrow> (bool \<times> held_key list, error) res" where
  "widen ks i f l =
     bind_res (index ks i) (\<lambda>k.
     let f = min f (first_minute k); l = max l (last_minute k) in
     if \<exists>j \<in> set [0..<length ks]. j \<noteq> i \<and> last_minute (ks ! j) \<ge> f \<and> first_minute (ks ! j) \<le> l
     then Ok (False, ks)
     else Ok (True, ks[i := k\<lparr> first_minute := f, last_minute := l \<rparr>]))"

text \<open>
  The span an answer is to be held for, with whether the creator stated all of it and
  whether it stated the start alone: the match at the head of \<open>hold\<close>. \<open>now\<close> is
  \<open>minutes_since_base(&Utc::now()).unwrap_or(u32::MAX)\<close>.
\<close>

definition span_to_hold ::
    "u32 \<Rightarrow> u32 option \<Rightarrow> bool \<Rightarrow> u32 option \<Rightarrow> u32 option \<Rightarrow> (u32 \<times> u32 \<times> bool \<times> bool) option" where
  "span_to_hold now minute recent start finish =
     (case start of
        Some start \<Rightarrow>
          (case finish of
             Some finish \<Rightarrow>
               if finish > start then Some (start, finish - 1, True, False)
               else Some (start, max start (saturating_sub now CLOCK_DRIFT_ALLOWANCE_MINUTES), False, True)
           | None \<Rightarrow>
               Some (start, max start (saturating_sub now CLOCK_DRIFT_ALLOWANCE_MINUTES), False, True))
      | None \<Rightarrow>
          (case minute of
             Some minute \<Rightarrow> if \<not> recent then Some (minute, minute, False, False) else None
           | None \<Rightarrow> None))"

text \<open>The end of \<open>hold\<close>: a key not held before is added, the cache emptied first when full.\<close>

definition hold_new :: "cache \<Rightarrow> str \<Rightarrow> held_key \<Rightarrow> cache" where
  "hold_new c end_point k =
     (let c = (if cache_held c \<ge> MAXIMUM_CACHED_KEYS
               then c\<lparr> cache_keys := Map.empty, cache_held := 0 \<rparr> else c);
          ks = (case cache_keys c end_point of None \<Rightarrow> [] | Some ks \<Rightarrow> ks)
      in c\<lparr> cache_keys := (cache_keys c)(end_point \<mapsto> ks @ [k]), cache_held := cache_held c + 1 \<rparr>)"

definition hold ::
    "u32 \<Rightarrow> cache \<Rightarrow> str \<Rightarrow> u32 option \<Rightarrow> bool \<Rightarrow> str \<Rightarrow> u32 option \<Rightarrow> u32 option
     \<Rightarrow> (key_answer \<times> cache, error) res" where
  "hold now c end_point minute recent pem start finish =
     (let stated = key_answer_stated pem start finish in
      case span_to_hold now minute recent start finish of
        None \<Rightarrow> Ok (stated, c)
      | Some (f, l, expl, opn) \<Rightarrow>
          let new = \<lparr> held_pem = pem, first_minute = f, last_minute = l,
                      explicit = expl, open_ended = opn \<rparr> in
          (case cache_keys c end_point of
             None \<Rightarrow> Ok (stated, hold_new c end_point new)
           | Some ks \<Rightarrow>
               (case position (\<lambda>k. held_pem k = pem) ks of
                  Some i \<Rightarrow>
                    bind_res (widen ks i f l) (\<lambda>(widened, ks).
                    if widened
                    then bind_res (index ks i) (\<lambda>k.
                         let e = (explicit k \<or> expl);
                             k = k\<lparr> explicit := e, open_ended := (\<not> e \<and> (open_ended k \<or> opn)) \<rparr> in
                         Ok (stated, c\<lparr> cache_keys := (cache_keys c)(end_point \<mapsto> ks[i := k]) \<rparr>))
                    else Ok (stated, c))
                | None \<Rightarrow>
                    if \<exists>other \<in> set ks. last_minute other \<ge> f \<and> first_minute other \<le> l
                    then Ok (stated, c)
                    else Ok (stated, hold_new c end_point new))))"

definition clear_cache :: "cache \<Rightarrow> cache" where
  "clear_cache c = c\<lparr> cache_keys := Map.empty, cache_held := 0, in_flight := Map.empty \<rparr>"

section \<open>The invariant\<close>

definition disjoint_spans :: "held_key \<Rightarrow> held_key \<Rightarrow> bool" where
  "disjoint_spans a b \<longleftrightarrow> last_minute a < first_minute b \<or> last_minute b < first_minute a"

definition keys_inv :: "held_key list \<Rightarrow> bool" where
  "keys_inv ks \<longleftrightarrow>
     ks \<noteq> [] \<and> distinct (map held_pem ks)
     \<and> (\<forall>k \<in> set ks. first_minute k \<le> last_minute k \<and> \<not> (explicit k \<and> open_ended k))
     \<and> (\<forall>i < length ks. \<forall>j < length ks. i \<noteq> j \<longrightarrow> disjoint_spans (ks ! i) (ks ! j))"

definition cache_inv :: "cache \<Rightarrow> bool" where
  "cache_inv c \<longleftrightarrow>
     finite (dom (cache_keys c))
     \<and> (\<forall>ks \<in> ran (cache_keys c). keys_inv ks)
     \<and> cache_held c = (\<Sum>e \<in> dom (cache_keys c). length (the (cache_keys c e)))
     \<and> cache_held c \<le> MAXIMUM_CACHED_KEYS"

lemma cache_inv_empty: "cache_inv empty_cache"
  by (simp add: cache_inv_def empty_cache_def)

lemma cache_inv_clear: "cache_inv (clear_cache c)"
  by (simp add: cache_inv_def clear_cache_def)

lemma pred_lt: "start < finish \<Longrightarrow> start \<le> finish - (1 :: u32)"
  by unat_arith

lemma disjoint_sym: "disjoint_spans a b \<longleftrightarrow> disjoint_spans b a"
  by (auto simp: disjoint_spans_def)

lemma overlap_iff:
  "\<not> (last_minute a \<ge> f \<and> first_minute a \<le> l) \<longleftrightarrow>
     disjoint_spans a (b\<lparr> first_minute := f, last_minute := l \<rparr>)"
  by (auto simp: disjoint_spans_def not_le)

text \<open>The number of keys held, when the keys of one end point change.\<close>

lemma total_update:
  assumes "finite (dom m)"
  shows "(\<Sum>e \<in> dom (m(p \<mapsto> ks)). length (the ((m(p \<mapsto> ks)) e)))
    = (\<Sum>e \<in> dom m - {p}. length (the (m e))) + length ks"
proof -
  have "(\<Sum>e \<in> dom (m(p \<mapsto> ks)). length (the ((m(p \<mapsto> ks)) e)))
      = (\<Sum>e \<in> insert p (dom m - {p}). length (the ((m(p \<mapsto> ks)) e)))"
    by (rule sum.cong) auto
  also have "\<dots> = length ks + (\<Sum>e \<in> dom m - {p}. length (the ((m(p \<mapsto> ks)) e)))"
    using assms by (subst sum.insert) auto
  also have "(\<Sum>e \<in> dom m - {p}. length (the ((m(p \<mapsto> ks)) e)))
      = (\<Sum>e \<in> dom m - {p}. length (the (m e)))"
    by (rule sum.cong) auto
  finally show ?thesis by (simp only: add.commute)
qed

lemma total_split:
  assumes "finite (dom m)"
  shows "(\<Sum>e \<in> dom m. length (the (m e)))
    = (\<Sum>e \<in> dom m - {p}. length (the (m e)))
      + length (case m p of None \<Rightarrow> [] | Some ks \<Rightarrow> ks)"
proof (cases "m p")
  case None
  then have "dom m - {p} = dom m" by auto
  with None show ?thesis by simp
next
  case (Some ks)
  then have "p \<in> dom m" by auto
  with assms Some show ?thesis by (simp add: sum.remove [of "dom m" p])
qed

lemma cache_inv_update:
  assumes "cache_inv c" "cache_keys c p = Some ks" "length ks' = length ks" "keys_inv ks'"
  shows "cache_inv (c\<lparr> cache_keys := (cache_keys c)(p \<mapsto> ks') \<rparr>)"
  using assms total_update [of "cache_keys c" p ks'] total_split [of "cache_keys c" p]
  by (auto simp: cache_inv_def ran_def split: if_splits)

lemma hold_new_inv:
  assumes inv: "cache_inv c" and k: "first_minute k \<le> last_minute k" "\<not> (explicit k \<and> open_ended k)"
    and new: "\<And>ks. cache_keys c p = Some ks \<Longrightarrow>
      held_pem k \<notin> held_pem ` set ks \<and> (\<forall>other \<in> set ks. disjoint_spans other k)"
  shows "cache_inv (hold_new c p k)"
proof -
  have one: "keys_inv [k]" using k by (simp add: keys_inv_def)
  have app: "keys_inv (ks @ [k])" if "cache_keys c p = Some ks" for ks
  proof -
    have "keys_inv ks" using inv that by (auto simp: cache_inv_def ran_def)
    then have old: "distinct (map held_pem ks)"
        "\<forall>k \<in> set ks. first_minute k \<le> last_minute k \<and> \<not> (explicit k \<and> open_ended k)"
        "\<And>i j. i < length ks \<Longrightarrow> j < length ks \<Longrightarrow> i \<noteq> j \<Longrightarrow> disjoint_spans (ks ! i) (ks ! j)"
      by (auto simp: keys_inv_def)
    have "disjoint_spans (ks ! i) k" "disjoint_spans k (ks ! i)" if "i < length ks" for i
      using new [OF \<open>cache_keys c p = Some ks\<close>] that disjoint_sym [of k "ks ! i"] by auto
    with old(3) have "disjoint_spans ((ks @ [k]) ! i) ((ks @ [k]) ! j)"
      if "i < Suc (length ks)" "j < Suc (length ks)" "i \<noteq> j" for i j
      using that by (cases "i = length ks"; cases "j = length ks") (simp_all add: nth_append)
    with old(1,2) new [OF that] k show ?thesis
      by (simp add: keys_inv_def)
  qed
  show ?thesis
  proof (cases "cache_held c \<ge> MAXIMUM_CACHED_KEYS")
    case True
    then show ?thesis
      using one by (simp add: hold_new_def cache_inv_def MAXIMUM_CACHED_KEYS_def)
  next
    case False
    let ?ks = "case cache_keys c p of None \<Rightarrow> [] | Some ks \<Rightarrow> ks"
    have "keys_inv (?ks @ [k])" using one app by (auto split: option.splits)
    moreover have "finite (dom (cache_keys c))" "\<forall>ks \<in> ran (cache_keys c). keys_inv ks"
      using inv by (simp_all add: cache_inv_def)
    moreover have "ran ((cache_keys c)(p \<mapsto> ?ks @ [k])) \<subseteq> insert (?ks @ [k]) (ran (cache_keys c))"
      by (auto simp: ran_def)
    moreover have "(\<Sum>e \<in> dom ((cache_keys c)(p \<mapsto> ?ks @ [k])).
        length (the (((cache_keys c)(p \<mapsto> ?ks @ [k])) e))) = cache_held c + 1"
      using inv total_update [of "cache_keys c" p "?ks @ [k]"] total_split [of "cache_keys c" p]
      by (simp add: cache_inv_def del: fun_upd_apply)
    moreover have "hold_new c p k
        = c\<lparr> cache_keys := (cache_keys c)(p \<mapsto> ?ks @ [k]), cache_held := cache_held c + 1 \<rparr>"
      using False by (simp add: hold_new_def Let_def)
    ultimately show ?thesis
      using False unfolding cache_inv_def
      by (simp del: fun_upd_apply) blast
  qed
qed

lemma widen_result:
  assumes "i < length ks"
  shows "widen ks i f l =
    (let k = ks ! i; k' = k\<lparr> first_minute := min f (first_minute k), last_minute := max l (last_minute k) \<rparr> in
     if \<forall>j < length ks. j \<noteq> i \<longrightarrow> disjoint_spans (ks ! j) k' then Ok (True, ks[i := k'])
     else Ok (False, ks))"
  using assms
  by (auto simp: widen_def Let_def overlap_iff [where b = "ks ! i", symmetric])

lemma keys_inv_widened:
  assumes inv: "keys_inv ks" and i: "i < length ks"
    and k': "held_pem k' = held_pem (ks ! i)" "first_minute k' \<le> last_minute k'"
      "\<not> (explicit k' \<and> open_ended k')"
    and disj: "\<forall>j < length ks. j \<noteq> i \<longrightarrow> disjoint_spans (ks ! j) k'"
  shows "keys_inv (ks[i := k'])"
proof -
  have "map held_pem (ks[i := k']) = map held_pem ks"
    using i k'(1) list_update_id [of "map held_pem ks" i] by (simp add: map_update)
  moreover have "first_minute k \<le> last_minute k \<and> \<not> (explicit k \<and> open_ended k)"
    if "k \<in> set (ks[i := k'])" for k
    using that set_update_subset_insert [of ks i k'] inv k'(2,3) by (auto simp: keys_inv_def)
  moreover have "disjoint_spans (ks[i := k'] ! a) (ks[i := k'] ! b)"
    if "a < length ks" "b < length ks" "a \<noteq> b" for a b
    using that inv disj disjoint_sym [of k'] i
    by (cases "a = i"; cases "b = i") (auto simp: keys_inv_def)
  ultimately show ?thesis using inv by (auto simp: keys_inv_def)
qed

lemma span_to_hold_ordered:
  "span_to_hold now minute recent start finish = Some (f, l, expl, opn)
   \<Longrightarrow> f \<le> l \<and> \<not> (expl \<and> opn)"
  by (auto simp: span_to_hold_def pred_lt split: option.splits if_splits)

text \<open>
  What recording an answer does, on every branch: nothing, where no span is to be held or
  another key is in its way; a key added; or the span of a key already held widened.
\<close>

definition widened :: "held_key \<Rightarrow> u32 \<Rightarrow> u32 \<Rightarrow> bool \<Rightarrow> bool \<Rightarrow> held_key" where
  "widened k f l expl opn = k\<lparr> first_minute := min f (first_minute k), last_minute := max l (last_minute k),
     explicit := explicit k \<or> expl, open_ended := \<not> (explicit k \<or> expl) \<and> (open_ended k \<or> opn) \<rparr>"

lemma widened_simps [simp]:
  "held_pem (widened k f l expl opn) = held_pem k"
  "first_minute (widened k f l expl opn) = min f (first_minute k)"
  "last_minute (widened k f l expl opn) = max l (last_minute k)"
  "explicit (widened k f l expl opn) \<longleftrightarrow> explicit k \<or> expl"
  "open_ended (widened k f l expl opn) \<longleftrightarrow> \<not> (explicit k \<or> expl) \<and> (open_ended k \<or> opn)"
  by (simp_all add: widened_def)

lemma hold_cases:
  fixes now c p minute recent pem start finish
  defines "held \<equiv> hold now c p minute recent pem start finish"
    and "stated \<equiv> key_answer_stated pem start finish"
    and "span \<equiv> span_to_hold now minute recent start finish"
  obtains (same) "held = Ok (stated, c)"
  | (fresh) f l expl opn where "span = Some (f, l, expl, opn)"
      "\<And>ks k. cache_keys c p = Some ks \<Longrightarrow> k \<in> set ks \<Longrightarrow>
         held_pem k \<noteq> pem \<and> (last_minute k < f \<or> l < first_minute k)"
      "held = Ok (stated, hold_new c p \<lparr> held_pem = pem, first_minute = f, last_minute = l,
                      explicit = expl, open_ended = opn \<rparr>)"
  | (wider) f l expl opn ks i where "span = Some (f, l, expl, opn)" "cache_keys c p = Some ks"
      "i < length ks" "held_pem (ks ! i) = pem"
      "\<And>j. j < length ks \<Longrightarrow> j \<noteq> i \<Longrightarrow> disjoint_spans (ks ! j) (widened (ks ! i) f l expl opn)"
      "held = Ok (stated, c\<lparr> cache_keys := (cache_keys c)(p \<mapsto> ks[i := widened (ks ! i) f l expl opn]) \<rparr>)"
proof (cases "span_to_hold now minute recent start finish")
  case None
  then show thesis by (intro same) (simp add: held_def stated_def hold_def)
next
  case (Some s)
  obtain f l expl opn where s: "s = (f, l, expl, opn)" by (cases s)
  note span = Some [unfolded s]
  note def = held_def stated_def hold_def Let_def span option.case prod.case
  show thesis
  proof (cases "cache_keys c p")
    case None
    then show thesis by (intro fresh) (simp_all add: def span_def)
  next
    case (Some ks)
    show thesis
    proof (cases "position (\<lambda>k. held_pem k = pem) ks")
      case None
      show thesis
      proof (cases "\<exists>other \<in> set ks. last_minute other \<ge> f \<and> first_minute other \<le> l")
        case True
        then show thesis using Some None by (intro same) (simp add: def)
      next
        case False
        have held: "held = Ok (stated, hold_new c p \<lparr> held_pem = pem, first_minute = f,
            last_minute = l, explicit = expl, open_ended = opn \<rparr>)"
          using Some None by (simp add: def False del: bex_simps)
        have "\<forall>k \<in> set ks. held_pem k \<noteq> pem" using None by (simp add: position_None_iff)
        with False Some held show thesis
          by (intro fresh [of f l expl opn]) (auto simp: span_def span not_le)
      qed
    next
      case pos: (Some i)
      then have i: "i < length ks" "held_pem (ks ! i) = pem" by (auto simp: position_Some_iff)
      have w: "(\<forall>j < length ks. j \<noteq> i \<longrightarrow> disjoint_spans (ks ! j) ((ks ! i)\<lparr> first_minute :=
            min f (first_minute (ks ! i)), last_minute := max l (last_minute (ks ! i)) \<rparr>))
        \<longleftrightarrow> (\<forall>j < length ks. j \<noteq> i \<longrightarrow> disjoint_spans (ks ! j) (widened (ks ! i) f l expl opn))"
        by (simp add: disjoint_spans_def)
      show thesis
      proof (cases "\<forall>j < length ks. j \<noteq> i \<longrightarrow> disjoint_spans (ks ! j) (widened (ks ! i) f l expl opn)")
        case True
        then show thesis
          using Some pos i by (intro wider [of f l expl opn ks i])
            (simp_all add: def span_def widen_result w [unfolded True], simp add: widened_def)
      next
        case False
        then show thesis
          using Some pos i by (intro same) (simp add: def widen_result w False)
      qed
    qed
  qed
qed

lemma hold_inv:
  assumes "cache_inv c"
  shows "\<exists>c'. hold now c p minute recent pem start finish = Ok (key_answer_stated pem start finish, c')
    \<and> cache_inv c' \<and> in_flight c' = in_flight c"
proof (rule hold_cases [of now c p minute recent pem start finish])
  fix f l expl opn
  let ?new = "\<lparr> held_pem = pem, first_minute = f, last_minute = l, explicit = expl, open_ended = opn \<rparr>"
  assume span: "span_to_hold now minute recent start finish = Some (f, l, expl, opn)"
    and other: "\<And>ks k. cache_keys c p = Some ks \<Longrightarrow> k \<in> set ks \<Longrightarrow>
         held_pem k \<noteq> pem \<and> (last_minute k < f \<or> l < first_minute k)"
    and held: "hold now c p minute recent pem start finish
      = Ok (key_answer_stated pem start finish, hold_new c p ?new)"
  have "cache_inv (hold_new c p ?new)"
    using span_to_hold_ordered [OF span] other
    by (intro hold_new_inv [OF assms]) (auto simp: disjoint_spans_def)
  with held show ?thesis by (simp add: hold_new_def Let_def)
next
  fix f l expl opn ks i
  assume span: "span_to_hold now minute recent start finish = Some (f, l, expl, opn)"
    and ks: "cache_keys c p = Some ks" "i < length ks" "held_pem (ks ! i) = pem"
    and disj: "\<And>j. j < length ks \<Longrightarrow> j \<noteq> i \<Longrightarrow> disjoint_spans (ks ! j) (widened (ks ! i) f l expl opn)"
    and held: "hold now c p minute recent pem start finish = Ok (key_answer_stated pem start finish,
      c\<lparr> cache_keys := (cache_keys c)(p \<mapsto> ks[i := widened (ks ! i) f l expl opn]) \<rparr>)"
  have inv: "keys_inv ks" using assms ks by (auto simp: cache_inv_def ran_def)
  then have "first_minute (ks ! i) \<le> last_minute (ks ! i)" using ks(2) by (simp add: keys_inv_def)
  then have "keys_inv (ks[i := widened (ks ! i) f l expl opn])"
    using span_to_hold_ordered [OF span] disj
    by (intro keys_inv_widened [OF inv ks(2)]) (auto simp: min_le_iff_disj le_max_iff_disj)
  then show ?thesis using held cache_inv_update [OF assms ks(1)] by simp
qed (use assms in simp)

end
