(* ===== verification/Codec.thy ===== *)
theory Codec
  imports Wire
begin

text \<open>
  The contract between what src/src/io.rs writes and what src/src/parse.rs reads back,
  stated once for a field: a valid value is appended as its encoding, the encoding followed
  by anything is read back as the value and its length, and a value that is read is valid
  and is the value its bytes encode. The laws a codec has follow inside the locale. The
  domain, the dates of each version and whole envelopes are its interpretations.
\<close>

locale wire_field =
  fixes emit :: "bytes \<Rightarrow> 'v \<Rightarrow> (unit, error) res \<times> bytes"
    and read :: "bytes \<Rightarrow> ('v \<times> nat, parse_error) res"
    and valid :: "'v \<Rightarrow> bool"
    and enc :: "'v \<Rightarrow> bytes"
  assumes emit_valid: "valid v \<Longrightarrow> emit buffer v = (Ok (), buffer @ enc v)"
    and read_enc: "valid v \<Longrightarrow> read (enc v @ rest) = Ok (v, length (enc v))"
    and read_sound: "read bs = Ok (v, n) \<Longrightarrow> valid v \<and> n \<le> length bs \<and> enc v = take n bs"
    and read_total: "read bs \<noteq> Panic"
begin

text \<open>What is written is read back, whatever follows it.\<close>

lemma roundtrip:
  "valid v \<Longrightarrow> emit [] v = (r, bs) \<Longrightarrow> r = Ok () \<and> read (bs @ rest) = Ok (v, length bs)"
  using emit_valid [of v "[]"] read_enc [of v rest] by simp

text \<open>What is read is written back as the bytes it was read from.\<close>

lemma rewrite: "read bs = Ok (v, n) \<Longrightarrow> emit [] v = (Ok (), take n bs)"
  using read_sound [of bs v n] emit_valid [of v "[]"] by simp

text \<open>The bytes after a value are not looked at.\<close>

lemma read_prefix_only:
  assumes "read bs = Ok (v, n)"
  shows "read (take n bs @ rest) = Ok (v, n)"
  using read_sound [OF assms] read_enc [of v rest] by simp

lemma read_local: "read bs = Ok (v, n) \<Longrightarrow> n \<le> length bs"
  using read_sound by blast

text \<open>No encoding is the front of another, so a run of them is read one way only.\<close>

lemma prefix_free:
  assumes "valid v" "valid w" "enc v @ r = enc w @ s"
  shows "v = w \<and> r = s"
proof -
  have "read (enc v @ r) = Ok (v, length (enc v))" "read (enc w @ s) = Ok (w, length (enc w))"
    using assms(1,2) by (simp_all add: read_enc)
  with assms(3) have "v = w" by simp
  with assms(3) show ?thesis by simp
qed

lemma enc_inject: "valid v \<Longrightarrow> valid w \<Longrightarrow> enc v = enc w \<longleftrightarrow> v = w"
  using prefix_free [of v w "[]" "[]"] by auto

end

text \<open>
  A codec whose every encoding has at least one byte can be read in a run: the values are
  recovered in their order, and reading ends where the bytes do.
\<close>

locale wire_frame = wire_field +
  assumes enc_nonempty: "valid v \<Longrightarrow> enc v \<noteq> []"
begin

lemma read_progress: "read bs = Ok (v, n) \<Longrightarrow> 0 < n"
  using read_sound [of bs v n] enc_nonempty [of v] by (cases n) auto

lemma read_Nil: "read [] \<noteq> Ok (v, n)"
  using read_sound [of "[]" v n] enc_nonempty [of v] by auto

end

end
