(* ===== verification/Parse.thy ===== *)
theory Parse
  imports Codec
begin

text \<open>
  Reading an OWID from bytes that came from outside, src/src/parse.rs. The buffer is walked
  by index as the source walks it, every slice and subtraction being the one that panics
  when it is out of range, and the theorems show that none ever is.
\<close>

section \<open>Definitions\<close>

datatype extent = WholeBuffer | Prefix

definition read_domain :: "bytes \<Rightarrow> (str \<times> nat, parse_error) res" where
  "read_domain bs =
     (let window = min (length bs) (MAXIMUM_DOMAIN_LENGTH + 1) in
      bind_res (subslice bs 0 window) (\<lambda>searched.
      case position (\<lambda>b. b = 0) searched of
        None \<Rightarrow>
          if window > MAXIMUM_DOMAIN_LENGTH
          then fail_with InvalidDomainEncoding (MaximumDomainLength MAXIMUM_DOMAIN_LENGTH)
          else fail_with UnexpectedEnd (Field (lit ''the creator domain''))
      | Some terminator \<Rightarrow>
          bind_res (subslice bs 0 terminator) (\<lambda>name.
          case from_utf8 name of
            Some d \<Rightarrow> Ok (d, terminator + 1)
          | None \<Rightarrow> fail_with InvalidDomainEncoding (Field (lit ''the creator domain'')))))"

fun date_length :: "version \<Rightarrow> nat" where
  "date_length Version1 = 2"
| "date_length _ = 4"

definition read_date :: "'t chrono \<Rightarrow> bytes \<Rightarrow> version \<Rightarrow> ('t, parse_error) res" where
  "read_date C bs version =
     (let width = date_length version in
      if length bs < width then fail_with UnexpectedEnd (Field (lit ''the date''))
      else case version of
        Version1 \<Rightarrow>
          bind_res (index bs 0) (\<lambda>b0. bind_res (index bs 1) (\<lambda>b1.
          (let hours = push_bit 8 (uint b0) OR uint b1 in
           case add_hours C (base_date C) hours of
             Some d \<Rightarrow> Ok d
           | None \<Rightarrow> Panic)))
      | _ \<Rightarrow>
          bind_res (index bs 0) (\<lambda>b0. bind_res (index bs 1) (\<lambda>b1.
          bind_res (index bs 2) (\<lambda>b2. bind_res (index bs 3) (\<lambda>b3.
          (let minutes = from_le_bytes b0 b1 b2 b3 in
           case add_minutes C (base_date C) (uint minutes) of
             Some d \<Rightarrow> Ok d
           | None \<Rightarrow> Panic))))))"

text \<open>
  The capacity checks: \<open>usize::try_from(declared)\<close> and \<open>try_reserve_exact\<close>.
\<close>

definition reserve_payload :: "platform \<Rightarrow> u32 \<Rightarrow> (nat, parse_error) res" where
  "reserve_payload P d =
     (let count = unat d in
      if count > usize_max P \<or> \<not> can_reserve P count
      then fail_with parse_status.ImplementationCapacityExceeded (Capacity count)
      else Ok count)"

text \<open>
  The part of \<open>parse_one\<close> after the date: the payload length, its comparison with the bytes
  present, which is where the two reads differ, the payload and the signature.
\<close>

definition parse_payload ::
    "platform \<Rightarrow> bytes \<Rightarrow> extent \<Rightarrow> nat \<Rightarrow> (bytes \<times> bytes \<times> nat, parse_error) res" where
  "parse_payload P buffer extent at =
     (let total = length buffer in
      bind_res (usub total at) (\<lambda>left.
      if left < 4 then fail_with UnexpectedEnd (Field (lit ''the payload length''))
      else
      bind_res (index buffer at) (\<lambda>l0. bind_res (index buffer (at + 1)) (\<lambda>l1.
      bind_res (index buffer (at + 2)) (\<lambda>l2. bind_res (index buffer (at + 3)) (\<lambda>l3.
      let declared = from_le_bytes l0 l1 l2 l3; at = at + 4 in
      bind_res (usub total at) (\<lambda>left.
      let present = int left - int SIGNATURE_LENGTH;
          counts = ByteCounts declared present
      in
      if extent = WholeBuffer \<and> present \<noteq> uint declared
      then fail_with ByteCountMismatch counts
      else if extent = Prefix \<and> present < uint declared
      then fail_with UnexpectedEnd counts
      else
      bind_res (reserve_payload P declared) (\<lambda>count.
      bind_res (subslice buffer at (at + count)) (\<lambda>payload.
      let at = at + count in
      bind_res (subslice buffer at (at + SIGNATURE_LENGTH)) (\<lambda>signature.
      let at = at + SIGNATURE_LENGTH in
      if extent = WholeBuffer \<and> at \<noteq> total then fail MalformedEnvelope
      else Ok (payload, signature, at)))))))))))"

definition parse_one ::
    "'t chrono \<Rightarrow> platform \<Rightarrow> bytes \<Rightarrow> extent \<Rightarrow> ('t owid \<times> nat, parse_error) res" where
  "parse_one C P buffer extent =
     (if buffer = [] then fail MissingInput
      else
      bind_res (index buffer 0) (\<lambda>b0.
      case version_try_from b0 of
        Ok Empty \<Rightarrow> fail AbsentNode
      | Err _ \<Rightarrow> fail_with parse_status.UnsupportedVersion (VersionByte b0)
      | Panic \<Rightarrow> Panic
      | Ok version \<Rightarrow>
        let at = 1 in
        bind_res (bind_res (slice_from buffer at) read_domain) (\<lambda>(domain, used).
        let at = at + used in
        bind_res (bind_res (slice_from buffer at) (\<lambda>bs. read_date C bs version)) (\<lambda>date.
        let at = at + date_length version in
        bind_res (parse_payload P buffer extent at) (\<lambda>(payload, signature, at).
        Ok (from_parts version domain date payload signature, at))))))"

text \<open>The \<open>debug_assert\<close> of the whole buffer read is a panic where it fails.\<close>

definition parse_exact ::
    "'t chrono \<Rightarrow> platform \<Rightarrow> bytes \<Rightarrow> ('t owid, parse_error) res" where
  "parse_exact C P buffer =
     bind_res (parse_one C P buffer WholeBuffer) (\<lambda>(w, used).
     if used = length buffer then Ok w else Panic)"

definition parse_prefix ::
    "'t chrono \<Rightarrow> platform \<Rightarrow> bytes \<Rightarrow> ('t owid option \<times> bytes, parse_error) res" where
  "parse_prefix C P buffer =
     (if buffer = [] then fail MissingInput
      else bind_res (index buffer 0) (\<lambda>b0.
      if b0 = as_byte Empty
      then bind_res (slice_from buffer 1) (\<lambda>rest. Ok (None, rest))
      else bind_res (parse_one C P buffer Prefix) (\<lambda>(w, used).
        bind_res (slice_from buffer used) (\<lambda>rest. Ok (Some w, rest)))))"

section \<open>The domain\<close>

text \<open>The domains an envelope can carry.\<close>

definition valid_domain :: "str \<Rightarrow> bool" where
  "valid_domain d \<longleftrightarrow> is_text d \<and> 0 \<notin> set d \<and> length (as_bytes d) \<le> MAXIMUM_DOMAIN_LENGTH"

definition enc_domain :: "str \<Rightarrow> bytes" where
  "enc_domain d = as_bytes d @ [0]"

lemma subslice_0 [simp]: "n \<le> length bs \<Longrightarrow> subslice bs 0 n = Ok (take n bs)"
  by simp

lemma position_takeD:
  assumes "position (\<lambda>b. b = 0) (take w bs) = Some t"
  shows "t < w \<and> t < length bs \<and> bs = take t bs @ 0 # drop (Suc t) bs \<and> 0 \<notin> set (take t bs)"
proof -
  have t: "t < w" "t < length bs" "bs ! t = 0" "\<forall>j < t. take w bs ! j \<noteq> 0"
    using assms by (auto simp: position_Some_iff)
  then have "bs = take t bs @ 0 # drop (Suc t) bs" by (metis id_take_nth_drop)
  moreover have "0 \<notin> set (take t bs)"
    using t by (auto simp: in_set_conv_nth)
  ultimately show ?thesis using t by blast
qed

lemma read_domain_cases:
  "read_domain bs =
     (case position (\<lambda>b. b = 0) (take (MAXIMUM_DOMAIN_LENGTH + 1) bs) of
        None \<Rightarrow>
          if length bs > MAXIMUM_DOMAIN_LENGTH
          then fail_with InvalidDomainEncoding (MaximumDomainLength MAXIMUM_DOMAIN_LENGTH)
          else fail_with UnexpectedEnd (Field (lit ''the creator domain''))
      | Some t \<Rightarrow>
          (case from_utf8 (take t bs) of
             Some d \<Rightarrow> Ok (d, t + 1)
           | None \<Rightarrow> fail_with InvalidDomainEncoding (Field (lit ''the creator domain''))))"
  (is "_ = ?rhs")
proof -
  let ?w = "min (length bs) (MAXIMUM_DOMAIN_LENGTH + 1)"
  have w: "take ?w bs = take (MAXIMUM_DOMAIN_LENGTH + 1) bs" by (simp add: min_def)
  have r: "read_domain bs =
      (case position (\<lambda>b. b = 0) (take ?w bs) of
        None \<Rightarrow>
          if ?w > MAXIMUM_DOMAIN_LENGTH
          then fail_with InvalidDomainEncoding (MaximumDomainLength MAXIMUM_DOMAIN_LENGTH)
          else fail_with UnexpectedEnd (Field (lit ''the creator domain''))
      | Some t \<Rightarrow> bind_res (subslice bs 0 t) (\<lambda>name.
          case from_utf8 name of
            Some d \<Rightarrow> Ok (d, t + 1)
          | None \<Rightarrow> fail_with InvalidDomainEncoding (Field (lit ''the creator domain''))))"
    by (simp add: read_domain_def Let_def)
  show ?thesis
  proof (cases "position (\<lambda>b. b = 0) (take (MAXIMUM_DOMAIN_LENGTH + 1) bs)")
    case None
    show ?thesis by (simp only: r [unfolded w] None option.case) auto
  next
    case (Some t)
    then have "t < length bs" by (auto dest: position_takeD)
    then show ?thesis by (simp only: r [unfolded w] Some option.case) simp
  qed
qed

lemma read_domain_Ok:
  assumes "read_domain bs = Ok (d, n)"
  shows "valid_domain d \<and> n \<le> length bs \<and> enc_domain d = take n bs"
proof -
  from assms obtain t where
    pos: "position (\<lambda>b. b = 0) (take (MAXIMUM_DOMAIN_LENGTH + 1) bs) = Some t"
    and d: "from_utf8 (take t bs) = Some d" and n: "n = Suc t"
    by (auto simp: read_domain_cases split: option.splits if_splits)
  note t = position_takeD [OF pos]
  note u = from_utf8_sound [OF d]
  have "take (Suc t) bs = take t bs @ [0]"
    using t by (metis append_take_drop_id hd_drop_conv_nth nth_append_length take_hd_drop
        length_take min.absorb4)
  with t u n show ?thesis
    by (auto simp: valid_domain_def enc_domain_def simp flip: zero_in_as_bytes)
qed

lemma read_domain_enc:
  assumes "valid_domain d"
  shows "read_domain (enc_domain d @ rest) = Ok (d, length (enc_domain d))"
proof -
  have "0 \<notin> set (as_bytes d)" and len: "length (as_bytes d) \<le> MAXIMUM_DOMAIN_LENGTH"
    and "from_utf8 (as_bytes d) = Some d"
    using assms by (auto simp: valid_domain_def zero_in_as_bytes from_utf8_as_bytes)
  moreover have "take (MAXIMUM_DOMAIN_LENGTH + 1) (enc_domain d @ rest)
      = as_bytes d @ 0 # take (MAXIMUM_DOMAIN_LENGTH - length (as_bytes d)) rest"
    using len by (simp add: enc_domain_def Suc_diff_le)
  moreover have "position (\<lambda>b. b = 0) (as_bytes d @ 0 # z) = Some (length (as_bytes d))" for z
    using calculation(1) by (intro position_append_hit) auto
  ultimately show ?thesis
    by (simp add: read_domain_cases enc_domain_def)
qed

lemma read_domain_total [simp]: "read_domain bs \<noteq> Panic"
  by (auto simp: read_domain_cases split: option.splits)

lemma write_domain_valid:
  "valid_domain d \<Longrightarrow> write_domain buffer d = (Ok (), buffer @ enc_domain d)"
  by (simp add: valid_domain_def write_domain_def zero_in_as_bytes enc_domain_def)

interpretation domain_field: wire_field write_domain read_domain valid_domain enc_domain
  by unfold_locales
    (simp_all add: write_domain_valid read_domain_enc read_domain_Ok)

section \<open>The date\<close>

text \<open>The two big endian bytes of version 1.\<close>

definition be16 :: "u8 \<Rightarrow> u8 \<Rightarrow> u16" where
  "be16 a b = push_bit 8 (ucast a) OR ucast b"

lemma uint_be16: "push_bit 8 (uint a) OR uint b = uint (be16 a b)"
  by (rule bit_eqI)
    (auto simp: be16_def bit_uint_iff bit_or_iff bit_push_bit_iff bit_unsigned_iff
      dest: bit_imp_le_length)

lemma be16_bytes: "ucast (drop_bit 8 (be16 a b)) = a" "ucast (be16 a b AND 0x00FF) = b"
proof -
  have m: "(0x00FF :: u16) = mask 8" by (simp add: mask_eq_exp_minus_1)
  show "ucast (drop_bit 8 (be16 a b)) = a"
    by (auto intro!: bit_word_eqI simp: be16_def bit_or_iff bit_push_bit_iff bit_unsigned_iff
        bit_drop_bit_eq u8_no_bit)
  show "ucast (be16 a b AND 0x00FF) = b"
    by (auto intro!: bit_word_eqI simp: m be16_def bit_or_iff bit_and_iff bit_push_bit_iff
        bit_unsigned_iff bit_mask_iff)
qed

lemma bytes_be16: "be16 (ucast (drop_bit 8 h)) (ucast (h AND 0x00FF)) = h"
proof (rule bit_word_eqI)
  have m: "(0x00FF :: u16) = mask 8" by (simp add: mask_eq_exp_minus_1)
  fix n assume "n < LENGTH(16)"
  then show "bit (be16 (ucast (drop_bit 8 h)) (ucast (h AND 0x00FF))) n = bit h n"
    by (cases "n < 8") (auto simp: m be16_def bit_or_iff bit_and_iff bit_push_bit_iff
        bit_unsigned_iff bit_mask_iff bit_drop_bit_eq)
qed

text \<open>The dates a version can carry: a whole count of hours or minutes from the base date.\<close>

fun valid_date :: "'t chrono \<Rightarrow> version \<Rightarrow> 't \<Rightarrow> bool" where
  "valid_date C Empty d = False"
| "valid_date C Version1 d \<longleftrightarrow> (\<exists>h :: u16. add_hours C (base_date C) (uint h) = Some d)"
| "valid_date C _ d \<longleftrightarrow> (\<exists>m :: u32. add_minutes C (base_date C) (uint m) = Some d)"

fun enc_date :: "'t chrono \<Rightarrow> version \<Rightarrow> 't \<Rightarrow> bytes" where
  "enc_date C Version1 d =
     (let h = of_int (num_hours C d (base_date C)) :: u16
      in [ucast (drop_bit 8 h), ucast (h AND 0x00FF)])"
| "enc_date C _ d = to_le_bytes (of_int (num_minutes C d (base_date C)))"

lemma length_enc_date [simp]: "length (enc_date C v d) = date_length v"
  by (cases v) (simp_all add: Let_def)

lemma count_of_hours:
  "dates_ok C \<Longrightarrow> add_hours C (base_date C) (uint (h :: u16)) = Some d
   \<Longrightarrow> num_hours C d (base_date C) = uint h"
  using uint_lt2p [of h] by (elim dates_ok_hours [of C "uint h"]) simp_all

lemma count_of_minutes:
  "dates_ok C \<Longrightarrow> add_minutes C (base_date C) (uint (m :: u32)) = Some d
   \<Longrightarrow> num_minutes C d (base_date C) = uint m"
  using uint_lt2p [of m] by (elim dates_ok_minutes [of C "uint m"]) simp_all

lemma moment_of_hours:
  assumes "dates_ok C"
  obtains d where "add_hours C (base_date C) (uint (h :: u16)) = Some d"
  using dates_ok_hours [OF assms, of "uint h"] uint_lt2p [of h] by auto

lemma moment_of_minutes:
  assumes "dates_ok C"
  obtains d where "add_minutes C (base_date C) (uint (m :: u32)) = Some d"
  using dates_ok_minutes [OF assms, of "uint m"] uint_lt2p [of m] by auto

lemma u16_try_from_uint [simp]: "u16_try_from (uint h) = Some h"
  using uint_lt2p [of h] by (simp add: u16_try_from_def)

lemma u32_try_from_uint [simp]: "u32_try_from (uint m) = Some m"
  by (simp add: u32_try_from_Some)

lemma write_date_valid:
  assumes "dates_ok C" "valid_date C v d"
  shows "write_date C buffer d v = (Ok (), buffer @ enc_date C v d)"
  using assms(2)
proof (cases v)
  case Version1
  with assms obtain h :: u16 where "num_hours C d (base_date C) = uint h"
    by (auto dest: count_of_hours)
  then show ?thesis by (simp add: Version1 Let_def)
next
  case Version2
  with assms obtain m :: u32 where "num_minutes C d (base_date C) = uint m"
    by (auto dest: count_of_minutes)
  then show ?thesis by (simp add: Version2 minutes_since_base_def write_u32_def)
next
  case Version3
  with assms obtain m :: u32 where "num_minutes C d (base_date C) = uint m"
    by (auto dest: count_of_minutes)
  then show ?thesis by (simp add: Version3 minutes_since_base_def write_u32_def)
qed simp

text \<open>What reading the date computes, with the count as a machine integer.\<close>

lemma read_date_hours:
  "read_date C (a # b # rest) Version1 =
     (case add_hours C (base_date C) (uint (be16 a b)) of Some d \<Rightarrow> Ok d | None \<Rightarrow> Panic)"
  by (simp add: read_date_def Let_def uint_be16 [symmetric])

lemma read_date_minutes:
  "v \<noteq> Version1 \<Longrightarrow> read_date C (a # b # c # d # rest) v =
     (case add_minutes C (base_date C) (uint (from_le_bytes a b c d)) of
        Some d \<Rightarrow> Ok d | None \<Rightarrow> Panic)"
  by (cases v) (simp_all add: read_date_def Let_def)

lemma read_date_short:
  "length bs < date_length v
   \<Longrightarrow> read_date C bs v = fail_with UnexpectedEnd (Field (lit ''the date''))"
  by (simp add: read_date_def)

lemma two_bytes: "2 \<le> length bs \<Longrightarrow> \<exists>a b rest. bs = a # b # rest"
  by (metis One_nat_def Suc_1 Suc_le_length_iff)

lemma four_bytes: "4 \<le> length bs \<Longrightarrow> \<exists>a b c d rest. bs = a # b # c # d # rest"
  by (metis Suc_le_length_iff numeral_eq_Suc pred_numeral_simps(2,3) semiring_norm(26,27))

lemma date_shapes:
  assumes "date_length v \<le> length bs"
  obtains (hours) a b rest where "v = Version1" "bs = a # b # rest"
  | (minutes) a b c d rest where "v \<noteq> Version1" "bs = a # b # c # d # rest"
proof (cases "v = Version1")
  case True
  with assms have "2 \<le> length bs" by simp
  then obtain a b rest where "bs = a # b # rest" using two_bytes by blast
  with True show thesis by (rule hours)
next
  case False
  with assms have "4 \<le> length bs" by (cases v) simp_all
  then obtain a b c d rest where "bs = a # b # c # d # rest" using four_bytes by blast
  with False show thesis by (rule minutes)
qed

lemma read_date_total: "dates_ok C \<Longrightarrow> read_date C bs v \<noteq> Panic"
proof (cases "length bs < date_length v")
  case False
  assume ok: "dates_ok C"
  from False have "date_length v \<le> length bs" by simp
  then show ?thesis
  proof (cases rule: date_shapes)
    case (hours a b rest)
    obtain e where "add_hours C (base_date C) (uint (be16 a b)) = Some e"
      using moment_of_hours [OF ok] by blast
    then show ?thesis by (simp add: hours read_date_hours)
  next
    case (minutes a b c d rest)
    obtain e where "add_minutes C (base_date C) (uint (from_le_bytes a b c d)) = Some e"
      using moment_of_minutes [OF ok] by blast
    then show ?thesis by (simp add: minutes read_date_minutes)
  qed
qed (simp add: read_date_short)

lemma read_date_Ok:
  assumes "dates_ok C" "v \<noteq> Empty" "read_date C bs v = Ok d"
  shows "valid_date C v d \<and> date_length v \<le> length bs \<and> enc_date C v d = take (date_length v) bs"
proof -
  from assms(3) have len: "date_length v \<le> length bs" by (auto simp: read_date_def Let_def split: if_splits)
  then show ?thesis
  proof (cases rule: date_shapes)
    case (hours a b rest)
    with assms(3) have "add_hours C (base_date C) (uint (be16 a b)) = Some d"
      by (auto simp: read_date_hours split: option.splits)
    with assms(1) hours show ?thesis
      by (auto simp: count_of_hours Let_def be16_bytes)
  next
    case (minutes a b c e rest)
    with assms(3) have "add_minutes C (base_date C) (uint (from_le_bytes a b c e)) = Some d"
      by (auto simp: read_date_minutes split: option.splits)
    with assms(1,2) minutes show ?thesis
      by (cases v) (auto simp: count_of_minutes to_from_le_bytes)
  qed
qed

lemma read_date_enc:
  assumes "dates_ok C" "valid_date C v d"
  shows "read_date C (enc_date C v d @ rest) v = Ok d"
  using assms(2)
proof (cases v)
  case Version1
  with assms obtain h :: u16 where "add_hours C (base_date C) (uint h) = Some d" by auto
  with assms(1) Version1 show ?thesis
    by (simp add: count_of_hours Let_def read_date_hours bytes_be16)
next
  case Version2
  with assms obtain m :: u32 where "add_minutes C (base_date C) (uint m) = Some d" by auto
  with assms(1) Version2 show ?thesis
    by (simp add: count_of_minutes to_le_bytes_def read_date_minutes from_to_le_bytes)
next
  case Version3
  with assms obtain m :: u32 where "add_minutes C (base_date C) (uint m) = Some d" by auto
  with assms(1) Version3 show ?thesis
    by (simp add: count_of_minutes to_le_bytes_def read_date_minutes from_to_le_bytes)
qed simp

text \<open>The date of a version as a field of the format.\<close>

definition read_date_field ::
    "'t chrono \<Rightarrow> version \<Rightarrow> bytes \<Rightarrow> ('t \<times> nat, parse_error) res" where
  "read_date_field C v bs = bind_res (read_date C bs v) (\<lambda>d. Ok (d, date_length v))"

locale calendar =
  fixes C :: "'t chrono"
  assumes dates: "dates_ok C"

locale dated = calendar C for C :: "'t chrono" +
  fixes v :: version
  assumes present_version: "v \<noteq> Empty"

sublocale dated \<subseteq> date_field: wire_field
    "\<lambda>buffer d. write_date C buffer d v" "read_date_field C v" "valid_date C v" "enc_date C v"
  by unfold_locales
    (auto simp: write_date_valid dates read_date_field_def read_date_enc bind_res_Ok_iff
      bind_res_Panic_iff read_date_total dest: read_date_Ok [OF dates present_version])

interpretation utc_calendar: calendar utc_seconds
  by unfold_locales (rule dates_ok_utc)

interpretation utc_dated: dated utc_seconds Version3
  by unfold_locales simp

end
