(* ===== verification/Envelope.thy ===== *)
theory Envelope
  imports Parse
begin

text \<open>
  What reading an envelope computes: the payload step on each branch, the envelopes that
  are read, that no slice is ever out of range, and what the two reads, the whole buffer
  and the front of one, answer for the same bytes.
\<close>

section \<open>The payload\<close>

text \<open>The payload step as a function of the bytes left after the date.\<close>

fun payload_of :: "platform \<Rightarrow> extent \<Rightarrow> bytes \<Rightarrow> (bytes \<times> bytes \<times> nat, parse_error) res" where
  "payload_of P ext (l0 # l1 # l2 # l3 # r) =
     (let declared = from_le_bytes l0 l1 l2 l3; n = unat declared;
          present = int (length r) - int SIGNATURE_LENGTH
      in if ext = WholeBuffer \<and> present \<noteq> int n
         then fail_with ByteCountMismatch (ByteCounts declared present)
         else if ext = Prefix \<and> present < int n
         then fail_with UnexpectedEnd (ByteCounts declared present)
         else if n > usize_max P \<or> \<not> can_reserve P n
         then fail_with parse_status.ImplementationCapacityExceeded (Capacity n)
         else Ok (take n r, take SIGNATURE_LENGTH (drop n r), 4 + n + SIGNATURE_LENGTH))"
| "payload_of P ext _ = fail_with UnexpectedEnd (Field (lit ''the payload length''))"

lemma payload_of_short:
  "length bs < 4 \<Longrightarrow>
     payload_of P ext bs = fail_with UnexpectedEnd (Field (lit ''the payload length''))"
  by (cases "(P, ext, bs)" rule: payload_of.cases) auto

lemma drop_four:
  assumes "drop at buffer = l0 # l1 # l2 # l3 # r"
  shows "at + 4 \<le> length buffer" "buffer ! at = l0" "buffer ! (at + 1) = l1"
    "buffer ! (at + 2) = l2" "buffer ! (at + 3) = l3" "drop (at + 4) buffer = r"
    "length buffer - (at + 4) = length r"
proof -
  have len: "length buffer - at = length r + 4"
    using arg_cong [OF assms, of length] by simp
  then show l: "at + 4 \<le> length buffer" by simp
  have "drop at buffer ! i = (l0 # l1 # l2 # l3 # r) ! i" for i by (simp add: assms)
  from this [of 0] this [of 1] this [of 2] this [of 3] l
  show "buffer ! at = l0" "buffer ! (at + 1) = l1" "buffer ! (at + 2) = l2" "buffer ! (at + 3) = l3"
    by (simp_all add: nth_drop)
  show "drop (at + 4) buffer = r"
    using arg_cong [OF assms, of "drop 4"] by (simp add: add.commute)
  show "length buffer - (at + 4) = length r" using len by simp
qed

lemma parse_payload_eq:
  assumes "at \<le> length buffer"
  shows "parse_payload P buffer ext at =
    bind_res (payload_of P ext (drop at buffer)) (\<lambda>(p, s, n). Ok (p, s, at + n))"
proof (cases "length buffer - at < 4")
  case True
  then show ?thesis using assms
    by (simp add: parse_payload_def Let_def payload_of_short)
next
  case False
  then have "4 \<le> length (drop at buffer)" by simp
  then obtain l0 l1 l2 l3 r where d: "drop at buffer = l0 # l1 # l2 # l3 # r"
    using four_bytes by blast
  note f = drop_four [OF d]
  define n where "n = unat (from_le_bytes l0 l1 l2 l3)"
  have u: "uint (from_le_bytes l0 l1 l2 l3) = int n" by (simp add: n_def)
  have pre: "parse_payload P buffer ext at =
    (let declared = from_le_bytes l0 l1 l2 l3;
         present = int (length r) - int SIGNATURE_LENGTH
     in if ext = WholeBuffer \<and> present \<noteq> int n
        then fail_with ByteCountMismatch (ByteCounts declared present)
        else if ext = Prefix \<and> present < int n
        then fail_with UnexpectedEnd (ByteCounts declared present)
        else bind_res (reserve_payload P declared) (\<lambda>count.
          bind_res (subslice buffer (at + 4) (at + 4 + count)) (\<lambda>payload.
          bind_res (subslice buffer (at + 4 + count) (at + 4 + count + SIGNATURE_LENGTH)) (\<lambda>signature.
          if ext = WholeBuffer \<and> at + 4 + count + SIGNATURE_LENGTH \<noteq> length buffer
          then fail MalformedEnvelope
          else Ok (payload, signature, at + 4 + count + SIGNATURE_LENGTH)))))"
    using False f assms by (simp add: parse_payload_def Let_def u)
  show ?thesis
  proof (cases "ext = WholeBuffer \<and> int (length r) - int SIGNATURE_LENGTH \<noteq> int n
      \<or> ext = Prefix \<and> int (length r) - int SIGNATURE_LENGTH < int n")
    case True
    then show ?thesis unfolding pre d by (auto simp: Let_def n_def [symmetric] u)
  next
    case fine: False
    then have len: "n + SIGNATURE_LENGTH \<le> length r" by (cases ext) auto
    have whole: "ext = WholeBuffer \<Longrightarrow> n + SIGNATURE_LENGTH = length r" using fine by auto
    have total: "length buffer = at + 4 + length r" using f(1,7) by simp
    show ?thesis
    proof (cases "n > usize_max P \<or> \<not> can_reserve P n")
      case True
      with fine show ?thesis
        unfolding pre d by (auto simp: Let_def n_def [symmetric] u reserve_payload_def)
    next
      case False
      then have "reserve_payload P (from_le_bytes l0 l1 l2 l3) = Ok n"
        by (simp add: reserve_payload_def n_def [symmetric])
      moreover have "subslice buffer (at + 4) (at + 4 + n) = Ok (take n r)"
        using total len f(6) by simp
      moreover have "subslice buffer (at + 4 + n) (at + 4 + n + SIGNATURE_LENGTH)
          = Ok (take SIGNATURE_LENGTH (drop n r))"
        using total len f(6) by (simp add: drop_drop [symmetric] add.commute del: drop_drop)
      ultimately show ?thesis
        using fine False whole total unfolding pre d
        by (cases ext) (auto simp: Let_def n_def [symmetric] u)
    qed
  qed
qed

lemma payload_of_total [simp]: "payload_of P ext bs \<noteq> Panic"
  by (cases "(P, ext, bs)" rule: payload_of.cases) (auto simp: Let_def)

section \<open>Valid envelopes\<close>

text \<open>The OWIDs the binary format can carry, and those this target can hold.\<close>

definition valid_owid :: "'t chrono \<Rightarrow> 't owid \<Rightarrow> bool" where
  "valid_owid C w \<longleftrightarrow>
     owid_version w \<noteq> Empty
     \<and> valid_domain (owid_domain w)
     \<and> valid_date C (owid_version w) (owid_date w)
     \<and> length (owid_payload w) < 2 ^ 32
     \<and> length (owid_signature w) = SIGNATURE_LENGTH"

definition fits :: "platform \<Rightarrow> 't owid \<Rightarrow> bool" where
  "fits P w \<longleftrightarrow> length (owid_payload w) \<le> usize_max P \<and> can_reserve P (length (owid_payload w))"

definition enc_fields :: "'t chrono \<Rightarrow> 't owid \<Rightarrow> bytes" where
  "enc_fields C w =
     as_byte (owid_version w) # enc_domain (owid_domain w)
     @ enc_date C (owid_version w) (owid_date w)
     @ to_le_bytes (of_nat (length (owid_payload w))) @ owid_payload w"

definition enc_owid :: "'t chrono \<Rightarrow> 't owid \<Rightarrow> bytes" where
  "enc_owid C w = enc_fields C w @ owid_signature w"

lemma enc_nonempty [simp]: "enc_fields C w \<noteq> []" "enc_owid C w \<noteq> []"
  by (simp_all add: enc_owid_def enc_fields_def)

lemma payload_of_enc:
  assumes "length p < 2 ^ 32" "length s = SIGNATURE_LENGTH"
    "length p \<le> usize_max P" "can_reserve P (length p)" "ext = WholeBuffer \<longrightarrow> rest = []"
  shows "payload_of P ext (to_le_bytes (of_nat (length p)) @ p @ s @ rest)
    = Ok (p, s, 4 + length p + SIGNATURE_LENGTH)"
proof -
  have n: "unat (of_nat (length p) :: u32) = length p"
    using assms(1) by (simp add: unat_of_nat)
  have i: "uint (of_nat (length p) :: u32) = int (length p)"
    by (simp only: uint_nat n)
  show ?thesis
    unfolding to_le_bytes_def using assms by (auto simp: Let_def from_to_le_bytes n i)
qed

text \<open>The reader on the encoding of an OWID followed by anything, or by nothing at all.\<close>

lemma parse_one_enc:
  assumes ok: "dates_ok C" and v: "valid_owid C w" and f: "fits P w"
    and whole: "ext = WholeBuffer \<longrightarrow> rest = []"
  shows "parse_one C P (enc_owid C w @ rest) ext = Ok (w, length (enc_owid C w))"
proof -
  let ?v = "owid_version w" and ?d = "enc_domain (owid_domain w)"
  let ?t = "enc_date C ?v (owid_date w)" and ?p = "owid_payload w"
  let ?tail = "to_le_bytes (of_nat (length ?p)) @ ?p @ owid_signature w @ rest"
  let ?b = "enc_owid C w @ rest"
  have b: "?b = as_byte ?v # ?d @ ?t @ ?tail"
    by (simp add: enc_owid_def enc_fields_def)
  have ver: "version_try_from (?b ! 0) = Ok ?v" "?v \<noteq> Empty"
    using v by (simp_all add: b valid_owid_def)
  have dom: "read_domain (drop 1 ?b) = Ok (owid_domain w, length ?d)"
    using v by (simp add: b valid_owid_def domain_field.read_enc)
  have dat: "read_date C (drop (1 + length ?d) ?b) ?v = Ok (owid_date w)"
    using v ok by (simp add: b valid_owid_def read_date_enc)
  have pay: "payload_of P ext (drop (1 + length ?d + date_length ?v) ?b)
      = Ok (?p, owid_signature w, 4 + length ?p + SIGNATURE_LENGTH)"
  proof -
    have "drop (1 + length ?d + date_length ?v) ?b = ?tail"
      using drop_append [of "length ?d + date_length ?v" "?d @ ?t" ?tail] by (simp add: b)
    then show ?thesis
      using v f whole payload_of_enc [of ?p "owid_signature w" P ext rest]
      by (simp add: valid_owid_def fits_def)
  qed
  have len: "1 + length ?d + date_length ?v \<le> length ?b" by (simp add: b)
  have "parse_one C P ?b ext =
      Ok (from_parts ?v (owid_domain w) (owid_date w) ?p (owid_signature w),
        1 + length ?d + date_length ?v + (4 + length ?p + SIGNATURE_LENGTH))"
    using ver dom dat pay len
    by (cases ?v) (simp_all add: parse_one_def Let_def parse_payload_eq b)
  moreover have "from_parts ?v (owid_domain w) (owid_date w) ?p (owid_signature w) = w"
    by (simp add: from_parts_def)
  moreover have "length (enc_owid C w)
      = 1 + length ?d + date_length ?v + (4 + length ?p + SIGNATURE_LENGTH)"
    using v by (simp add: enc_owid_def enc_fields_def valid_owid_def)
  ultimately show ?thesis by simp
qed

section \<open>One step at a time\<close>

text \<open>
  The reader without its indices: each step takes the bytes the step before it left. This
  is where every slice and subtraction of the reader is shown to be in range.
\<close>

lemma read_date_length: "read_date C bs v = Ok d \<Longrightarrow> date_length v \<le> length bs"
  by (auto simp: read_date_def Let_def split: if_splits)

lemma parse_one_Nil: "parse_one C P [] ext = fail MissingInput"
  by (simp add: parse_one_def)

lemma parse_one_Empty: "parse_one C P (0 # bs) ext = fail AbsentNode"
  by (simp add: parse_one_def version_try_from_def)

lemma parse_one_unsupported:
  "version_try_from b = Err e \<Longrightarrow>
     parse_one C P (b # bs) ext = fail_with parse_status.UnsupportedVersion (VersionByte b)"
  by (simp add: parse_one_def)

lemma parse_one_steps:
  assumes "v \<noteq> Empty"
  shows "parse_one C P (as_byte v # bs) ext =
    bind_res (read_domain bs) (\<lambda>(d, u).
    bind_res (read_date C (drop u bs) v) (\<lambda>t.
    bind_res (payload_of P ext (drop (u + date_length v) bs)) (\<lambda>(p, s, n).
    Ok (from_parts v d t p s, Suc (u + date_length v + n)))))"
proof -
  have inner: "bind_res (parse_payload P (b # bs) ext (Suc (u + date_length v))) f =
      bind_res (payload_of P ext (drop (u + date_length v) bs))
        (\<lambda>(p, s, n). f (p, s, Suc (u + date_length v + n)))"
    if "u + date_length v \<le> length bs" for u b and f :: "bytes \<times> bytes \<times> nat \<Rightarrow> ('t owid \<times> nat, parse_error) res"
    using that
    by (cases "payload_of P ext (drop (u + date_length v) bs)") (auto simp: parse_payload_eq)
  have body: "parse_one C P (as_byte v # bs) ext =
      bind_res (read_domain bs) (\<lambda>(d, u).
      bind_res (bind_res (slice_from (as_byte v # bs) (Suc u)) (\<lambda>r. read_date C r v)) (\<lambda>t.
      bind_res (parse_payload P (as_byte v # bs) ext (Suc (u + date_length v))) (\<lambda>(p, s, n).
      Ok (from_parts v d t p s, n))))"
    using assms by (cases v) (simp_all add: parse_one_def version_try_from_def Let_def)
  show ?thesis
  proof (cases "read_domain bs")
    case (Ok du)
    obtain d u where du: "du = (d, u)" by (cases du)
    with Ok have u: "u \<le> length bs" using domain_field.read_local by blast
    show ?thesis
    proof (cases "read_date C (drop u bs) v")
      case t: (Ok t)
      then have "u + date_length v \<le> length bs" using read_date_length [OF t] u by simp
      then show ?thesis using Ok du u t by (simp add: body inner)
    qed (simp_all add: body Ok du u)
  qed (simp_all add: body)
qed

text \<open>The ways the first byte can go, for case analysis on a buffer.\<close>

lemma buffer_cases:
  obtains (missing) "buffer = []"
  | (absent) bs where "buffer = 0 # bs"
  | (unsupported) b bs e where "buffer = b # bs" "version_try_from b = Err e" "b \<noteq> 0"
  | (envelope) v bs where "buffer = as_byte v # bs" "v \<noteq> Empty"
proof (cases buffer)
  case (Cons b bs)
  show thesis
  proof (cases "version_try_from b")
    case (Ok v)
    then have "b = as_byte v" by (simp add: version_try_from_Ok)
    with Cons show thesis by (cases "v = Empty") (auto intro: absent envelope)
  next
    case (Err e)
    moreover have "b \<noteq> 0" using Err by (auto simp: version_try_from_def)
    ultimately show thesis using Cons by (intro unsupported)
  qed simp
qed (rule missing)

section \<open>Soundness and totality\<close>

lemma payload_of_Ok:
  assumes "payload_of P ext bs = Ok (p, s, n)"
  shows "length p < 2 ^ 32 \<and> length s = SIGNATURE_LENGTH \<and> length p \<le> usize_max P
    \<and> can_reserve P (length p) \<and> n \<le> length bs
    \<and> to_le_bytes (of_nat (length p)) @ p @ s = take n bs
    \<and> (ext = WholeBuffer \<longrightarrow> n = length bs)"
proof -
  obtain l0 l1 l2 l3 r where bs: "bs = l0 # l1 # l2 # l3 # r"
    using assms payload_of_short [of bs P ext] four_bytes [of bs] by (cases "length bs < 4") auto
  define k where "k = unat (from_le_bytes l0 l1 l2 l3)"
  have i: "uint (from_le_bytes l0 l1 l2 l3) = int k" by (simp add: k_def)
  have k: "k < 2 ^ 32" using unsigned_less [of "from_le_bytes l0 l1 l2 l3"] by (simp add: k_def)
  from assms have p: "p = take k r" and s: "s = take SIGNATURE_LENGTH (drop k r)"
    and n: "n = 4 + k + SIGNATURE_LENGTH" and cap: "k \<le> usize_max P" "can_reserve P k"
    and fine: "\<not> (ext = WholeBuffer \<and> int (length r) - int SIGNATURE_LENGTH \<noteq> int k)"
      "\<not> (ext = Prefix \<and> int (length r) - int SIGNATURE_LENGTH < int k)"
    by (auto simp: bs Let_def k_def [symmetric] i split: if_splits)
  have len: "k + SIGNATURE_LENGTH \<le> length r" using fine by (cases ext) auto
  have le: "to_le_bytes (of_nat k) = [l0, l1, l2, l3]"
    by (simp add: k_def to_from_le_bytes)
  have "take (k + SIGNATURE_LENGTH) r = p @ s" by (simp add: p s take_add)
  then have "to_le_bytes (of_nat k) @ p @ s = take n bs"
    by (simp add: le bs n numeral_eq_Suc)
  moreover have "ext = WholeBuffer \<longrightarrow> n = length bs" using fine(1) by (auto simp: bs n)
  ultimately show ?thesis using len k cap by (simp add: p s n bs)
qed

lemma parse_one_Ok:
  assumes ok: "dates_ok C" and r: "parse_one C P buffer ext = Ok (w, n)"
  shows "valid_owid C w \<and> fits P w \<and> n \<le> length buffer \<and> enc_owid C w = take n buffer
    \<and> (ext = WholeBuffer \<longrightarrow> n = length buffer)"
proof (cases buffer rule: buffer_cases)
  case (envelope v bs)
  with r obtain d u t p s k where
    d: "read_domain bs = Ok (d, u)" and t: "read_date C (drop u bs) v = Ok t"
    and p: "payload_of P ext (drop (u + date_length v) bs) = Ok (p, s, k)"
    and w: "w = from_parts v d t p s" and n: "n = Suc (u + date_length v + k)"
    by (auto simp: parse_one_steps bind_res_Ok_iff)
  note dd = read_domain_Ok [OF d]
  note tt = read_date_Ok [OF ok envelope(2) t]
  note pp = payload_of_Ok [OF p]
  have "take (u + (date_length v + k)) bs = enc_domain d @ enc_date C v t @ to_le_bytes (of_nat (length p)) @ p @ s"
    using dd tt pp by (simp only: take_add drop_drop) (simp add: add.commute)
  then have "enc_owid C w = take n buffer"
    by (simp add: envelope w n enc_owid_def enc_fields_def add.assoc)
  moreover have "n \<le> length buffer" using dd tt pp by (auto simp: envelope n)
  moreover have "ext = WholeBuffer \<longrightarrow> n = length buffer" using dd tt pp by (auto simp: envelope n)
  moreover have "valid_owid C w" "fits P w"
    using dd tt pp envelope(2) by (simp_all add: w valid_owid_def fits_def)
  ultimately show ?thesis by blast
qed (use r in \<open>simp_all add: parse_one_Nil parse_one_Empty parse_one_unsupported\<close>)

lemma parse_one_total: "dates_ok C \<Longrightarrow> parse_one C P buffer ext \<noteq> Panic"
  by (cases buffer rule: buffer_cases)
    (auto simp: parse_one_Nil parse_one_Empty parse_one_unsupported parse_one_steps
      bind_res_Panic_iff read_date_total)

section \<open>The two reads\<close>

lemma parse_exact_Ok_iff:
  assumes "dates_ok C"
  shows "parse_exact C P buffer = Ok w \<longleftrightarrow> valid_owid C w \<and> fits P w \<and> buffer = enc_owid C w"
proof
  assume "parse_exact C P buffer = Ok w"
  then obtain n where "parse_one C P buffer WholeBuffer = Ok (w, n)"
    by (auto simp: parse_exact_def bind_res_Ok_iff split: if_splits)
  from parse_one_Ok [OF assms this]
  show "valid_owid C w \<and> fits P w \<and> buffer = enc_owid C w" by simp
next
  assume "valid_owid C w \<and> fits P w \<and> buffer = enc_owid C w"
  with parse_one_enc [OF assms, of w P WholeBuffer "[]"] show "parse_exact C P buffer = Ok w"
    by (simp add: parse_exact_def)
qed

lemma parse_exact_Err_iff:
  assumes "dates_ok C"
  shows "parse_exact C P buffer = Err e \<longleftrightarrow> parse_one C P buffer WholeBuffer = Err e"
  using parse_one_Ok [OF assms, of P buffer WholeBuffer]
  by (fastforce simp: parse_exact_def bind_res_Err_iff split: if_splits)

lemma parse_exact_total: "dates_ok C \<Longrightarrow> parse_exact C P buffer \<noteq> Panic"
  using parse_one_Ok [of C P buffer WholeBuffer] parse_one_total [of C P buffer WholeBuffer]
  by (auto simp: parse_exact_def bind_res_Panic_iff)

lemma parse_prefix_envelope:
  "dates_ok C \<Longrightarrow> v \<noteq> Empty \<Longrightarrow> parse_prefix C P (as_byte v # bs) =
     bind_res (parse_one C P (as_byte v # bs) Prefix)
       (\<lambda>(w, n). Ok (Some w, drop n (as_byte v # bs)))"
  using parse_one_Ok [of C P "as_byte v # bs" Prefix]
  by (cases "parse_one C P (as_byte v # bs) Prefix") (auto simp: parse_prefix_def)

lemma parse_prefix_marker: "parse_prefix C P (0 # bs) = Ok (None, bs)"
  by (simp add: parse_prefix_def)

lemma parse_prefix_Nil: "parse_prefix C P [] = fail MissingInput"
  by (simp add: parse_prefix_def)

lemma parse_prefix_unsupported:
  "version_try_from b = Err e \<Longrightarrow>
     parse_prefix C P (b # bs) = fail_with parse_status.UnsupportedVersion (VersionByte b)"
  by (auto simp: parse_prefix_def parse_one_unsupported version_try_from_def split: if_splits)

lemma parse_prefix_Ok:
  assumes ok: "dates_ok C" and r: "parse_prefix C P buffer = Ok (z, rest)"
  shows "case z of
      None \<Rightarrow> buffer = 0 # rest
    | Some w \<Rightarrow> valid_owid C w \<and> fits P w \<and> buffer = enc_owid C w @ rest"
proof (cases buffer rule: buffer_cases)
  case (envelope v bs)
  with r obtain w n where w: "parse_one C P buffer Prefix = Ok (w, n)" "z = Some w"
    and rest: "rest = drop n buffer"
    by (auto simp: parse_prefix_envelope [OF ok] bind_res_Ok_iff)
  from parse_one_Ok [OF ok w(1)] have "enc_owid C w = take n buffer" "valid_owid C w" "fits P w"
    by simp_all
  then show ?thesis by (simp add: w(2) rest)
qed (use r in \<open>auto simp: parse_prefix_Nil parse_prefix_marker parse_prefix_unsupported\<close>)

lemma parse_prefix_enc:
  assumes "dates_ok C" "valid_owid C w" "fits P w"
  shows "parse_prefix C P (enc_owid C w @ rest) = Ok (Some w, rest)"
proof -
  obtain bs where bs: "enc_owid C w @ rest = as_byte (owid_version w) # bs"
    by (simp add: enc_owid_def enc_fields_def)
  have "owid_version w \<noteq> Empty" using assms(2) by (simp add: valid_owid_def)
  then show ?thesis
    using parse_one_enc [OF assms, of Prefix rest] assms(1)
    by (simp add: bs parse_prefix_envelope) (simp flip: bs)
qed

lemma parse_prefix_total: "dates_ok C \<Longrightarrow> parse_prefix C P buffer \<noteq> Panic"
  by (cases buffer rule: buffer_cases)
    (auto simp: parse_prefix_Nil parse_prefix_marker parse_prefix_unsupported
      parse_prefix_envelope bind_res_Panic_iff parse_one_total)

text \<open>
  The two reads answer the same error except about the bytes after the length field: there
  a whole buffer that disagrees with its declaration is a mismatch, and a frame that falls
  short is an unexpected end.
\<close>

lemma payload_of_extents:
  assumes "payload_of P Prefix bs = Err e" "pe_status e \<noteq> UnexpectedEnd"
  shows "payload_of P WholeBuffer bs = Err e \<or>
    (\<exists>d. payload_of P WholeBuffer bs = fail_with ByteCountMismatch d)"
  using assms by (cases "(P, Prefix, bs)" rule: payload_of.cases) (auto simp: Let_def split: if_splits)

end
