(* ===== verification/Owid.thy ===== *)
theory Owid
  imports Envelope
begin

text \<open>
  The operations of \<open>Owid\<close> in src/src/owid.rs other than verification: reading, writing,
  the exact length of what is written, the views of the payload, and the marker of an
  absent node.
\<close>

section \<open>Writing\<close>

definition to_buffer_no_signature ::
    "'t chrono \<Rightarrow> 't owid \<Rightarrow> bytes \<Rightarrow> (unit, error) res \<times> bytes" where
  "to_buffer_no_signature C w buffer =
     (let buffer = write_byte buffer (as_byte (owid_version w)) in
      then_write (write_domain buffer (owid_domain w)) (\<lambda>buffer.
      then_write (write_date C buffer (owid_date w) (owid_version w)) (\<lambda>buffer.
      write_byte_array buffer (owid_payload w))))"

definition to_buffer :: "'t chrono \<Rightarrow> 't owid \<Rightarrow> bytes \<Rightarrow> (unit, error) res \<times> bytes" where
  "to_buffer C w buffer =
     then_write (to_buffer_no_signature C w buffer) (\<lambda>buffer.
     write_signature buffer (owid_signature w))"

definition empty_to_buffer :: "bytes \<Rightarrow> bytes" where
  "empty_to_buffer buffer = write_byte buffer (as_byte Empty)"

text \<open>\<open>checked_add\<close> on \<open>usize\<close>, folded over the lengths of the fields.\<close>

fun try_fold_add :: "platform \<Rightarrow> nat \<Rightarrow> nat list \<Rightarrow> (nat, error) res" where
  "try_fold_add P acc [] = Ok acc"
| "try_fold_add P acc (l # ls) =
     (if acc + l \<le> usize_max P then try_fold_add P (acc + l) ls
      else Err (error.ImplementationCapacityExceeded (usize_max P)))"

definition encoded_len :: "platform \<Rightarrow> 't owid \<Rightarrow> bool \<Rightarrow> (nat, error) res" where
  "encoded_len P w include_signature =
     (if length (owid_payload w) > 2 ^ 32 - 1
      then Err (PayloadTooLarge (length (owid_payload w)))
      else if include_signature \<and> length (owid_signature w) \<noteq> SIGNATURE_LENGTH
      then Err (error.InvalidSignatureLength (length (owid_signature w)))
      else bind_res
        (case owid_version w of
           Version1 \<Rightarrow> Ok 2
         | Version2 \<Rightarrow> Ok 4
         | Version3 \<Rightarrow> Ok 4
         | other \<Rightarrow> Err (error.UnsupportedVersion (as_byte other)))
        (\<lambda>date_len. try_fold_add P 0
          [1, length (as_bytes (owid_domain w)), 1, date_len, 4, length (owid_payload w),
           if include_signature then SIGNATURE_LENGTH else 0]))"

text \<open>
  A vector of the capacity computed is reserved and then filled: \<open>as_byte_array\<close> with the
  signature and \<open>signed_bytes\<close> without.
\<close>

definition fill :: "platform \<Rightarrow> (nat, error) res \<Rightarrow> (unit, error) res \<times> bytes
    \<Rightarrow> (bytes, error) res" where
  "fill P capacity written =
     bind_res capacity (\<lambda>n.
     if \<not> can_reserve P n then Err (error.ImplementationCapacityExceeded n)
     else bind_res (fst written) (\<lambda>_. Ok (snd written)))"

definition as_byte_array :: "'t chrono \<Rightarrow> platform \<Rightarrow> 't owid \<Rightarrow> (bytes, error) res" where
  "as_byte_array C P w = fill P (encoded_len P w True) (to_buffer C w [])"

definition signed_bytes :: "'t chrono \<Rightarrow> platform \<Rightarrow> 't owid \<Rightarrow> (bytes, error) res" where
  "signed_bytes C P w = fill P (encoded_len P w False) (to_buffer_no_signature C w [])"

definition as_base64 ::
    "'t chrono \<Rightarrow> platform \<Rightarrow> base64 \<Rightarrow> 't owid \<Rightarrow> (str, error) res" where
  "as_base64 C P B w = bind_res (as_byte_array C P w) (\<lambda>bs. Ok (b64_encode B bs))"

text \<open>\<open>Display\<close>.\<close>

definition owid_to_string ::
    "'t chrono \<Rightarrow> platform \<Rightarrow> base64 \<Rightarrow> 't owid \<Rightarrow> (str, error) res" where
  "owid_to_string C P B w =
     (case as_base64 C P B w of
        Ok value \<Rightarrow> Ok value
      | Err e \<Rightarrow> Ok (error_to_string e)
      | Panic \<Rightarrow> Panic)"

section \<open>Reading\<close>

definition from_byte_array ::
    "'t chrono \<Rightarrow> platform \<Rightarrow> bytes \<Rightarrow> ('t owid, parse_error) res" where
  "from_byte_array C P buffer = parse_exact C P buffer"

definition read_from_prefix ::
    "'t chrono \<Rightarrow> platform \<Rightarrow> bytes \<Rightarrow> ('t owid option \<times> bytes, parse_error) res" where
  "read_from_prefix C P buffer = parse_prefix C P buffer"

definition from_base64 ::
    "'t chrono \<Rightarrow> platform \<Rightarrow> base64 \<Rightarrow> str \<Rightarrow> ('t owid, parse_error) res" where
  "from_base64 C P B value =
     (if value = [] then Err (ParseError MissingInput None)
      else case b64_decode B value of
        None \<Rightarrow> Err (ParseError InvalidBase64 None)
      | Some buffer \<Rightarrow> from_byte_array C P buffer)"

text \<open>\<open>FromStr\<close> and \<open>TryFrom<&[u8]>\<close>.\<close>

definition from_str ::
    "'t chrono \<Rightarrow> platform \<Rightarrow> base64 \<Rightarrow> str \<Rightarrow> ('t owid, parse_error) res" where
  "from_str C P B s = from_base64 C P B s"

definition owid_try_from ::
    "'t chrono \<Rightarrow> platform \<Rightarrow> bytes \<Rightarrow> ('t owid, parse_error) res" where
  "owid_try_from C P value = from_byte_array C P value"

section \<open>Views of the payload and the age\<close>

definition payload_as_string :: "'t owid \<Rightarrow> str" where
  "payload_as_string w = from_utf8_lossy (owid_payload w)"

definition payload_as_printable :: "'t owid \<Rightarrow> str" where
  "payload_as_printable w = concat (map (\<lambda>b. hex_padded 2 (unat b)) (owid_payload w))"

definition payload_as_base64 :: "base64 \<Rightarrow> 't owid \<Rightarrow> str" where
  "payload_as_base64 B w = b64_encode B (owid_payload w)"

definition age_minutes :: "'t chrono \<Rightarrow> 't \<Rightarrow> 't owid \<Rightarrow> int" where
  "age_minutes C now w = num_minutes C now (owid_date w)"

section \<open>What is written\<close>

text \<open>
  A date is written as its whole count of hours or minutes, so the moment read back is the
  start of that hour or minute.
\<close>

fun date_in_range :: "'t chrono \<Rightarrow> version \<Rightarrow> 't \<Rightarrow> bool" where
  "date_in_range C Empty d \<longleftrightarrow> False"
| "date_in_range C Version1 d \<longleftrightarrow>
     0 \<le> num_hours C d (base_date C) \<and> num_hours C d (base_date C) < 2 ^ 16"
| "date_in_range C _ d \<longleftrightarrow>
     0 \<le> num_minutes C d (base_date C) \<and> num_minutes C d (base_date C) < 2 ^ 32"

fun wire_date :: "'t chrono \<Rightarrow> version \<Rightarrow> 't \<Rightarrow> 't" where
  "wire_date C Version1 d = the (add_hours C (base_date C) (num_hours C d (base_date C)))"
| "wire_date C _ d = the (add_minutes C (base_date C) (num_minutes C d (base_date C)))"

definition wire_form :: "'t chrono \<Rightarrow> 't owid \<Rightarrow> 't owid" where
  "wire_form C w = w\<lparr> owid_date := wire_date C (owid_version w) (owid_date w) \<rparr>"

text \<open>The fields that can be written, whatever the signature.\<close>

definition writable :: "'t chrono \<Rightarrow> 't owid \<Rightarrow> bool" where
  "writable C w \<longleftrightarrow>
     owid_version w \<noteq> Empty
     \<and> valid_domain (owid_domain w)
     \<and> date_in_range C (owid_version w) (owid_date w)
     \<and> length (owid_payload w) < 2 ^ 32"

lemma u16_of_range: "0 \<le> i \<Longrightarrow> i < 2 ^ 16 \<Longrightarrow> uint (of_int i :: u16) = i"
  by (simp add: uint_word_of_int)

lemma u32_of_range: "0 \<le> i \<Longrightarrow> i < 2 ^ 32 \<Longrightarrow> uint (of_int i :: u32) = i"
  by (simp add: uint_word_of_int)

lemma write_date_result:
  "write_date C buffer d v =
     (if v = Empty then (Err (error.UnsupportedVersion 0), buffer)
      else if date_in_range C v d then (Ok (), buffer @ enc_date C v d)
      else (Err DateOutOfRange, buffer))"
  by (cases v) (auto simp: u16_try_from_def u32_try_from_def minutes_since_base_def Let_def
      write_u32_def)

lemma valid_date_in_range:
  assumes "dates_ok C" "valid_date C v d"
  shows "date_in_range C v d \<and> wire_date C v d = d"
proof (cases v)
  case Version1
  with assms obtain h :: u16 where "add_hours C (base_date C) (uint h) = Some d" by auto
  with assms(1) Version1 show ?thesis using uint_lt2p [of h] by (simp add: count_of_hours)
next
  case Version2
  with assms obtain m :: u32 where "add_minutes C (base_date C) (uint m) = Some d" by auto
  with assms(1) Version2 show ?thesis using uint_lt2p [of m] by (simp add: count_of_minutes)
next
  case Version3
  with assms obtain m :: u32 where "add_minutes C (base_date C) (uint m) = Some d" by auto
  with assms(1) Version3 show ?thesis using uint_lt2p [of m] by (simp add: count_of_minutes)
qed (use assms in simp)

lemma wire_date_valid:
  assumes "dates_ok C" "date_in_range C v d"
  shows "valid_date C v (wire_date C v d) \<and> enc_date C v (wire_date C v d) = enc_date C v d"
proof (cases v)
  case Version1
  let ?i = "num_hours C d (base_date C)"
  have r: "uint (of_int ?i :: u16) = ?i" using assms(2) Version1 by (intro u16_of_range) simp_all
  obtain e where e: "add_hours C (base_date C) (uint (of_int ?i :: u16)) = Some e"
    by (rule moment_of_hours [OF assms(1)])
  moreover have "num_hours C e (base_date C) = ?i" using count_of_hours [OF assms(1) e] r by simp
  moreover have "wire_date C v d = e" using e r by (simp add: Version1)
  ultimately show ?thesis by (auto simp: Version1 simp del: wire_date.simps)
next
  case Version2
  let ?i = "num_minutes C d (base_date C)"
  have r: "uint (of_int ?i :: u32) = ?i" using assms(2) Version2 by (intro u32_of_range) simp_all
  obtain e where e: "add_minutes C (base_date C) (uint (of_int ?i :: u32)) = Some e"
    by (rule moment_of_minutes [OF assms(1)])
  moreover have "num_minutes C e (base_date C) = ?i" using count_of_minutes [OF assms(1) e] r by simp
  moreover have "wire_date C v d = e" using e r by (simp add: Version2)
  ultimately show ?thesis by (auto simp: Version2 simp del: wire_date.simps)
next
  case Version3
  let ?i = "num_minutes C d (base_date C)"
  have r: "uint (of_int ?i :: u32) = ?i" using assms(2) Version3 by (intro u32_of_range) simp_all
  obtain e where e: "add_minutes C (base_date C) (uint (of_int ?i :: u32)) = Some e"
    by (rule moment_of_minutes [OF assms(1)])
  moreover have "num_minutes C e (base_date C) = ?i" using count_of_minutes [OF assms(1) e] r by simp
  moreover have "wire_date C v d = e" using e r by (simp add: Version3)
  ultimately show ?thesis by (auto simp: Version3 simp del: wire_date.simps)
qed (use assms in simp)

lemma valid_owid_writable:
  "dates_ok C \<Longrightarrow> valid_owid C w \<Longrightarrow> writable C w \<and> wire_form C w = w"
  using valid_date_in_range [of C "owid_version w" "owid_date w"]
  by (simp add: valid_owid_def writable_def wire_form_def)

lemma wire_form_valid:
  "dates_ok C \<Longrightarrow> writable C w \<Longrightarrow> length (owid_signature w) = SIGNATURE_LENGTH
   \<Longrightarrow> valid_owid C (wire_form C w)"
  using wire_date_valid [of C "owid_version w" "owid_date w"]
  by (simp add: valid_owid_def writable_def wire_form_def)

lemma enc_wire_form:
  assumes "dates_ok C" "writable C w"
  shows "enc_fields C (wire_form C w) = enc_fields C w" "enc_owid C (wire_form C w) = enc_owid C w"
  using wire_date_valid [of C "owid_version w" "owid_date w"] assms
  by (simp_all add: enc_owid_def enc_fields_def writable_def wire_form_def)

lemma fits_wire_form [simp]: "fits P (wire_form C w) = fits P w"
  by (simp add: fits_def wire_form_def)

lemma wire_form_simps [simp]:
  "owid_version (wire_form C w) = owid_version w" "owid_domain (wire_form C w) = owid_domain w"
  "owid_payload (wire_form C w) = owid_payload w"
  "owid_signature (wire_form C w) = owid_signature w"
  "owid_date (wire_form C w) = wire_date C (owid_version w) (owid_date w)"
  by (simp_all add: wire_form_def)

text \<open>
  Which check refuses, in the order of the fields. Text is assumed to be what a \<open>String\<close>
  can hold.
\<close>

lemma write_domain_result:
  "is_text d \<Longrightarrow> write_domain buffer d =
     (if 0 \<in> set d then (Err (InvalidDomain d), buffer)
      else if \<not> valid_domain d then (Err DomainTooLong, buffer)
      else (Ok (), buffer @ enc_domain d))"
  by (auto simp: write_domain_def valid_domain_def zero_in_as_bytes enc_domain_def)

lemma to_buffer_no_signature_result:
  assumes "is_text (owid_domain w)"
  shows "to_buffer_no_signature C w buffer =
    (let v = owid_version w; d = owid_domain w; b1 = buffer @ [as_byte v];
         b2 = b1 @ enc_domain d; b3 = b2 @ enc_date C v (owid_date w) in
     if 0 \<in> set d then (Err (InvalidDomain d), b1)
     else if \<not> valid_domain d then (Err DomainTooLong, b1)
     else if v = Empty then (Err (error.UnsupportedVersion 0), b2)
     else if \<not> date_in_range C v (owid_date w) then (Err DateOutOfRange, b2)
     else if \<not> length (owid_payload w) < 2 ^ 32
       then (Err (PayloadTooLarge (length (owid_payload w))), b3)
     else (Ok (), buffer @ enc_fields C w))"
  using assms
  by (simp add: to_buffer_no_signature_def Let_def write_byte_def write_domain_result
      write_date_result write_byte_array_def write_u32_def enc_fields_def)

lemma valid_domain_text: "valid_domain d \<Longrightarrow> is_text d"
  and valid_domain_no_null: "valid_domain d \<Longrightarrow> 0 \<notin> set d"
  by (simp_all add: valid_domain_def)

lemma to_buffer_no_signature_writable:
  "writable C w \<Longrightarrow> to_buffer_no_signature C w buffer = (Ok (), buffer @ enc_fields C w)"
  by (simp add: writable_def to_buffer_no_signature_result valid_domain_text
      valid_domain_no_null Let_def)

lemma to_buffer_writable:
  "writable C w \<Longrightarrow> length (owid_signature w) = SIGNATURE_LENGTH
   \<Longrightarrow> to_buffer C w buffer = (Ok (), buffer @ enc_owid C w)"
  by (simp add: to_buffer_def to_buffer_no_signature_writable write_signature_def enc_owid_def)

lemma to_buffer_no_signature_Ok:
  "is_text (owid_domain w) \<Longrightarrow> fst (to_buffer_no_signature C w buffer) = Ok () \<Longrightarrow> writable C w"
  by (auto simp: to_buffer_no_signature_result Let_def writable_def split: if_splits)

section \<open>The exact length\<close>

lemma try_fold_add_Ok:
  "try_fold_add P acc ls = Ok n \<Longrightarrow> n = acc + sum_list ls"
  by (induction ls arbitrary: acc) (fastforce simp: add.assoc split: if_splits)+

lemma try_fold_add_fits:
  "acc + sum_list ls \<le> usize_max P \<Longrightarrow> try_fold_add P acc ls = Ok (acc + sum_list ls)"
  by (induction ls arbitrary: acc) (auto simp: add.assoc)

lemma try_fold_add_over:
  "acc \<le> usize_max P \<Longrightarrow> acc + sum_list ls > usize_max P \<Longrightarrow>
     try_fold_add P acc ls = Err (error.ImplementationCapacityExceeded (usize_max P))"
  by (induction ls arbitrary: acc) (auto simp: add.assoc)

lemma try_fold_add_total [simp]: "try_fold_add P acc ls \<noteq> Panic"
  by (induction ls arbitrary: acc) auto

lemma encoded_len_total [simp]: "encoded_len P w sig \<noteq> Panic"
  by (auto simp: encoded_len_def bind_res_Panic_iff split: version.splits)

text \<open>The length of the fields, as the sum the code folds.\<close>

definition fields_length :: "'t owid \<Rightarrow> nat" where
  "fields_length w =
     1 + length (as_bytes (owid_domain w)) + 1 + date_length (owid_version w) + 4
     + length (owid_payload w)"

lemma length_enc_fields [simp]: "length (enc_fields C w) = fields_length w"
  by (simp add: enc_fields_def enc_domain_def fields_length_def)

lemma encoded_len_result:
  assumes "owid_version w \<noteq> Empty" "length (owid_payload w) < 2 ^ 32"
    and "sig \<longrightarrow> length (owid_signature w) = SIGNATURE_LENGTH"
  shows "encoded_len P w sig =
    (let n = fields_length w + (if sig then SIGNATURE_LENGTH else 0) in
     if n \<le> usize_max P then Ok n
     else Err (error.ImplementationCapacityExceeded (usize_max P)))"
proof -
  let ?ls = "[1, length (as_bytes (owid_domain w)), 1, date_length (owid_version w), 4,
      length (owid_payload w), if sig then SIGNATURE_LENGTH else 0]"
  have s: "sum_list ?ls = fields_length w + (if sig then SIGNATURE_LENGTH else 0)"
    by (simp add: fields_length_def)
  have "encoded_len P w sig = try_fold_add P 0 ?ls"
    using assms by (cases "owid_version w") (auto simp: encoded_len_def simp del: try_fold_add.simps)
  then show ?thesis
    using try_fold_add_fits [of 0 ?ls P] try_fold_add_over [of 0 P ?ls]
    unfolding s Let_def by (simp del: try_fold_add.simps)
qed

lemma as_byte_array_result:
  assumes "writable C w" "length (owid_signature w) = SIGNATURE_LENGTH"
  shows "as_byte_array C P w =
    (let n = length (enc_owid C w) in
     if n > usize_max P then Err (error.ImplementationCapacityExceeded (usize_max P))
     else if \<not> can_reserve P n then Err (error.ImplementationCapacityExceeded n)
     else Ok (enc_owid C w))"
  using assms
  by (simp add: as_byte_array_def fill_def to_buffer_writable encoded_len_result writable_def
      enc_owid_def Let_def)

lemma signed_bytes_result:
  assumes "writable C w"
  shows "signed_bytes C P w =
    (let n = fields_length w in
     if n > usize_max P then Err (error.ImplementationCapacityExceeded (usize_max P))
     else if \<not> can_reserve P n then Err (error.ImplementationCapacityExceeded n)
     else Ok (enc_fields C w))"
  using assms
  by (simp add: signed_bytes_def fill_def to_buffer_no_signature_writable encoded_len_result
      writable_def Let_def)

lemma bind_unit_write: "bind_res (fst z) (\<lambda>_. Ok (snd z)) = Ok bs \<longleftrightarrow> z = (Ok (), bs)"
  by (cases z) (auto simp: bind_res_Ok_iff)

lemma signed_bytes_Ok:
  assumes "is_text (owid_domain w)" "signed_bytes C P w = Ok bs"
  shows "writable C w \<and> bs = enc_fields C w"
proof -
  from assms(2) have z: "to_buffer_no_signature C w [] = (Ok (), bs)"
    by (auto simp: signed_bytes_def fill_def bind_res_Ok_iff [of "encoded_len P w False"]
        bind_unit_write split: if_splits)
  with to_buffer_no_signature_Ok [OF assms(1), of C "[]"] have "writable C w" by simp
  with z show ?thesis by (simp add: to_buffer_no_signature_writable)
qed

lemma as_byte_array_Ok:
  assumes "is_text (owid_domain w)" "as_byte_array C P w = Ok bs"
  shows "writable C w \<and> length (owid_signature w) = SIGNATURE_LENGTH \<and> bs = enc_owid C w"
proof -
  from assms(2) have z: "to_buffer C w [] = (Ok (), bs)"
    by (auto simp: as_byte_array_def fill_def bind_res_Ok_iff [of "encoded_len P w True"]
        bind_unit_write split: if_splits)
  obtain r b where n: "to_buffer_no_signature C w [] = (r, b)" by fastforce
  with z have r: "r = Ok ()" by (cases r) (auto simp: to_buffer_def)
  with n to_buffer_no_signature_Ok [OF assms(1), of C "[]"] have w: "writable C w" by simp
  with z have "length (owid_signature w) = SIGNATURE_LENGTH"
    by (auto simp: to_buffer_def to_buffer_no_signature_writable write_signature_def split: if_splits)
  with w z show ?thesis by (simp add: to_buffer_writable)
qed

text \<open>The signature covers every field but itself: it is fixed by the version, domain, count and payload.\<close>

lemma signed_bytes_signature [simp]: "signed_bytes C P (w\<lparr>owid_signature := s\<rparr>) = signed_bytes C P w"
  by (simp add: signed_bytes_def encoded_len_def to_buffer_no_signature_def)

lemma enc_fields_signature [simp]: "enc_fields C (w\<lparr>owid_signature := s\<rparr>) = enc_fields C w"
  by (simp add: enc_fields_def)

section \<open>Envelopes and runs of frames\<close>

locale envelopes = calendar C for C :: "'t chrono" +
  fixes P :: platform

sublocale envelopes \<subseteq> frame: wire_frame
    "\<lambda>buffer w. to_buffer C w buffer" "\<lambda>bs. parse_one C P bs Prefix"
    "\<lambda>w. valid_owid C w \<and> fits P w" "enc_owid C"
proof unfold_locales
  fix w :: "'t owid" and buffer
  assume "valid_owid C w \<and> fits P w"
  then show "to_buffer C w buffer = (Ok (), buffer @ enc_owid C w)"
    using valid_owid_writable [OF dates, of w] by (simp add: to_buffer_writable valid_owid_def)
next
  fix w :: "'t owid" and rest
  assume "valid_owid C w \<and> fits P w"
  then show "parse_one C P (enc_owid C w @ rest) Prefix = Ok (w, length (enc_owid C w))"
    using parse_one_enc [OF dates] by simp
next
  fix bs n and w :: "'t owid"
  assume "parse_one C P bs Prefix = Ok (w, n)"
  from parse_one_Ok [OF dates this]
  show "(valid_owid C w \<and> fits P w) \<and> n \<le> length bs \<and> enc_owid C w = take n bs" by simp
qed (simp_all add: parse_one_total dates)

interpretation utc_envelopes: envelopes utc_seconds target64
  by unfold_locales

text \<open>The contract of one frame, for any calendar that satisfies the laws.\<close>

context envelopes
begin

lemma frame_prefix_free:
  "valid_owid C w \<Longrightarrow> fits P w \<Longrightarrow> valid_owid C w' \<Longrightarrow> fits P w'
   \<Longrightarrow> enc_owid C w @ r = enc_owid C w' @ s \<Longrightarrow> w = w' \<and> r = s"
  using frame.prefix_free by blast

end

text \<open>The encoding is one to one, on every target, by the contract on one that holds any frame.\<close>

lemma fits_target64: "length (owid_payload w) < 2 ^ 32 \<Longrightarrow> fits target64 w"
  by (simp add: fits_def target64_def)

lemma enc_owid_prefix_free:
  assumes "dates_ok C" "valid_owid C w" "valid_owid C w'" "enc_owid C w @ r = enc_owid C w' @ s"
  shows "w = w' \<and> r = s"
proof -
  have "envelopes C" using assms(1) by unfold_locales
  from envelopes.frame_prefix_free [OF this assms(2) _ assms(3) _ assms(4), of target64]
  show ?thesis using assms(2,3) by (simp add: fits_target64 valid_owid_def)
qed

lemma enc_owid_inject:
  "dates_ok C \<Longrightarrow> valid_owid C w \<Longrightarrow> valid_owid C w' \<Longrightarrow> enc_owid C w = enc_owid C w' \<longleftrightarrow> w = w'"
  using enc_owid_prefix_free [of C w w' "[]" "[]"] by auto

end
