(* ===== verification/Frames.thy ===== *)
theory Frames
  imports Owid
begin

text \<open>
  A run of frames in one buffer, as the documentation of \<open>Owid::read_from_prefix\<close> in
  src/src/owid.rs walks it: each frame is an envelope or the one byte marker of an absent
  node, and reading goes on with the bytes each frame leaves until none are left.
\<close>

section \<open>Definitions\<close>

text \<open>\<open>to_buffer\<close> and \<open>empty_to_buffer\<close> called in turn on one buffer.\<close>

fun write_run ::
    "'t chrono \<Rightarrow> 't owid option list \<Rightarrow> bytes \<Rightarrow> (unit, error) res \<times> bytes" where
  "write_run C [] buffer = (Ok (), buffer)"
| "write_run C (None # zs) buffer = write_run C zs (empty_to_buffer buffer)"
| "write_run C (Some w # zs) buffer = then_write (to_buffer C w buffer) (write_run C zs)"

lemma read_from_prefix_shorter:
  assumes "read_from_prefix C P buffer = Ok (z, rest)"
  shows "length rest < length buffer"
proof (cases buffer rule: buffer_cases)
  case (envelope v bs)
  from assms obtain w n where n: "parse_one C P buffer Prefix = Ok (w, n)" "rest = drop n buffer"
    using envelope
    by (auto simp: read_from_prefix_def parse_prefix_def bind_res_Ok_iff slice_from_def
        split: if_splits)
  then have "0 < n" by (auto simp: envelope parse_one_steps bind_res_Ok_iff)
  with n(2) show ?thesis by (simp add: envelope)
qed (use assms in \<open>auto simp: read_from_prefix_def parse_prefix_Nil parse_prefix_marker
    parse_prefix_unsupported\<close>)

function read_run ::
    "'t chrono \<Rightarrow> platform \<Rightarrow> bytes \<Rightarrow> ('t owid option list, parse_error) res" where
  "read_run C P rest =
     (if rest = [] then Ok []
      else case read_from_prefix C P rest of
        Err e \<Rightarrow> Err e
      | Panic \<Rightarrow> Panic
      | Ok (z, remainder) \<Rightarrow> bind_res (read_run C P remainder) (\<lambda>zs. Ok (z # zs)))"
  by pat_completeness auto
termination
  by (relation "measure (\<lambda>(C, P, rest). length rest)") (auto dest: read_from_prefix_shorter)

declare read_run.simps [simp del]

lemma read_run_Nil [simp]: "read_run C P [] = Ok []"
  by (simp add: read_run.simps)

section \<open>Lemmas\<close>

text \<open>The frames that this target can read back.\<close>

definition valid_frame :: "'t chrono \<Rightarrow> platform \<Rightarrow> 't owid option \<Rightarrow> bool" where
  "valid_frame C P z \<longleftrightarrow> (case z of None \<Rightarrow> True | Some w \<Rightarrow> valid_owid C w \<and> fits P w)"

definition enc_frame :: "'t chrono \<Rightarrow> 't owid option \<Rightarrow> bytes" where
  "enc_frame C z = (case z of None \<Rightarrow> [0] | Some w \<Rightarrow> enc_owid C w)"

lemma read_frame_enc:
  "dates_ok C \<Longrightarrow> valid_frame C P z \<Longrightarrow> read_from_prefix C P (enc_frame C z @ rest) = Ok (z, rest)"
  by (cases z)
    (simp_all add: read_from_prefix_def enc_frame_def valid_frame_def parse_prefix_marker
      parse_prefix_enc)

lemma read_frame_Ok:
  "dates_ok C \<Longrightarrow> read_from_prefix C P buffer = Ok (z, rest)
   \<Longrightarrow> valid_frame C P z \<and> buffer = enc_frame C z @ rest"
  using parse_prefix_Ok [of C P buffer z rest]
  by (cases z) (simp_all add: read_from_prefix_def valid_frame_def enc_frame_def)

lemma enc_frame_nonempty [simp]: "enc_frame C z \<noteq> []"
  by (simp add: enc_frame_def split: option.splits)

lemma write_run_valid:
  "dates_ok C \<Longrightarrow> \<forall>z \<in> set zs. valid_frame C P z
   \<Longrightarrow> write_run C zs buffer = (Ok (), buffer @ concat (map (enc_frame C) zs))"
proof (induction zs arbitrary: buffer)
  case (Cons z zs)
  show ?case
  proof (cases z)
    case None
    with Cons show ?thesis by (simp add: empty_to_buffer_def write_byte_def enc_frame_def)
  next
    case (Some w)
    with Cons.prems have "valid_owid C w" by (simp add: valid_frame_def)
    with Cons.prems(1) have "to_buffer C w buffer = (Ok (), buffer @ enc_owid C w)"
      using valid_owid_writable [of C w] by (simp add: to_buffer_writable valid_owid_def)
    with Cons Some show ?thesis by (simp add: enc_frame_def)
  qed
qed simp

lemma read_run_frame:
  "dates_ok C \<Longrightarrow> valid_frame C P z \<Longrightarrow>
     read_run C P (enc_frame C z @ rest) = bind_res (read_run C P rest) (\<lambda>zs. Ok (z # zs))"
  by (simp add: read_run.simps [of C P "enc_frame C z @ rest"] read_frame_enc)

lemma read_run_enc:
  "dates_ok C \<Longrightarrow> \<forall>z \<in> set zs. valid_frame C P z
   \<Longrightarrow> read_run C P (concat (map (enc_frame C) zs)) = Ok zs"
  by (induction zs) (simp_all add: read_run_frame)

lemma read_run_Ok:
  assumes ok: "dates_ok C"
  shows "read_run C P bs = Ok zs
    \<Longrightarrow> (\<forall>z \<in> set zs. valid_frame C P z) \<and> bs = concat (map (enc_frame C) zs)"
proof (induction bs arbitrary: zs rule: measure_induct_rule [of length])
  case (less bs)
  show ?case
  proof (cases "bs = []")
    case False
    with less.prems obtain z r ws where z: "read_from_prefix C P bs = Ok (z, r)"
      and ws: "read_run C P r = Ok ws" and zs: "zs = z # ws"
      by (auto simp: read_run.simps [of C P bs] bind_res_Ok_iff split: res.splits)
    from less.IH [OF read_from_prefix_shorter [OF z] ws] read_frame_Ok [OF ok z]
    show ?thesis by (simp add: zs)
  qed (use less.prems in simp)
qed

lemma read_run_total: "dates_ok C \<Longrightarrow> read_run C P bs \<noteq> Panic"
proof (induction bs rule: measure_induct_rule [of length])
  case (less bs)
  then show ?case
    using parse_prefix_total [of C P bs] read_from_prefix_shorter [of C P bs]
    by (subst read_run.simps)
      (auto simp: bind_res_Panic_iff read_from_prefix_def split: res.splits)
qed

end
