(* ===== verification/Crypto.thy ===== *)
theory Crypto
  imports Owid
begin

text \<open>
  Signing and verification: the \<open>Crypto\<close> struct and its methods (src/src/crypto.rs) over
  the functions of the \<open>p256\<close> crate, and the signature check of an OWID (the \<open>verify\<close>
  methods of src/src/owid.rs) with the status that names its outcome (\<open>SignatureStatus\<close>
  and \<open>ParseStatus::of\<close> of src/src/status.rs).
\<close>

section \<open>Keys\<close>

record ('sk, 'vk) crypto =
  signing_key :: "'sk option"
  verifying_key :: "'vk option"

text \<open>\<open>Crypto::new\<close>, for the key the random generator yields, and the two conversions.\<close>

definition from_signing_key :: "('sk, 'vk, 'sg) p256 \<Rightarrow> 'sk \<Rightarrow> ('sk, 'vk) crypto" where
  "from_signing_key E k =
     \<lparr> signing_key = Some k, verifying_key = Some (verifying_key_of E k) \<rparr>"

definition from_verifying_key :: "'vk \<Rightarrow> ('sk, 'vk) crypto" where
  "from_verifying_key v = \<lparr> signing_key = None, verifying_key = Some v \<rparr>"

definition crypto_new :: "('sk, 'vk, 'sg) p256 \<Rightarrow> 'sk \<Rightarrow> ('sk, 'vk) crypto" where
  "crypto_new E random_key =
     \<lparr> signing_key = Some random_key, verifying_key = Some (verifying_key_of E random_key) \<rparr>"

text \<open>\<open>Default\<close>.\<close>

definition crypto_default :: "('sk, 'vk, 'sg) p256 \<Rightarrow> 'sk \<Rightarrow> ('sk, 'vk) crypto" where
  "crypto_default E random_key = crypto_new E random_key"

definition new_sign_only ::
    "('sk, 'vk, 'sg) p256 \<Rightarrow> str \<Rightarrow> (('sk, 'vk) crypto, error) res" where
  "new_sign_only E private_pem =
     (if trim private_pem = [] then Err (Key (lit ''private key PEM is empty''))
      else bind_res
        (map_err Key (of_sum
          (case from_pkcs8_pem E private_pem of
             Inr k \<Rightarrow> Inr k
           | Inl _ \<Rightarrow> from_sec1_pem E private_pem)))
        (\<lambda>k. Ok \<lparr> signing_key = Some k, verifying_key = Some (verifying_key_of E k) \<rparr>))"

definition new_verify_only ::
    "('sk, 'vk, 'sg) p256 \<Rightarrow> str \<Rightarrow> (('sk, 'vk) crypto, error) res" where
  "new_verify_only E public_pem =
     (if trim public_pem = [] then Err (Key (lit ''public key PEM is empty''))
      else bind_res (map_err Key (of_sum (from_public_key_pem E public_pem)))
        (\<lambda>v. Ok \<lparr> signing_key = None, verifying_key = Some v \<rparr>))"

definition sign_byte_array ::
    "('sk, 'vk, 'sg) p256 \<Rightarrow> ('sk, 'vk) crypto \<Rightarrow> bytes \<Rightarrow> (bytes, error) res" where
  "sign_byte_array E c data =
     bind_res (ok_or (signing_key c) (KeyMissing (lit ''generate a signature''))) (\<lambda>k.
     let bs = sig_to_bytes E (ecdsa_sign E k data) in
     if length bs \<noteq> SIGNATURE_LENGTH then Err (error.InvalidSignatureLength (length bs))
     else Ok bs)"

definition verify_byte_array ::
    "('sk, 'vk, 'sg) p256 \<Rightarrow> ('sk, 'vk) crypto \<Rightarrow> bytes \<Rightarrow> bytes \<Rightarrow> (bool, error) res" where
  "verify_byte_array E c data signature =
     bind_res (ok_or (verifying_key c) (KeyMissing (lit ''verify a signature''))) (\<lambda>v.
     if length signature \<noteq> SIGNATURE_LENGTH
     then Err (error.InvalidSignatureLength (length signature))
     else case sig_from_slice E signature of
       Some s \<Rightarrow> Ok (ecdsa_verify E v data s)
     | None \<Rightarrow> Ok False)"

definition subject_public_key_info ::
    "('sk, 'vk, 'sg) p256 \<Rightarrow> ('sk, 'vk) crypto \<Rightarrow> (str, error) res" where
  "subject_public_key_info E c =
     bind_res (ok_or (verifying_key c) (KeyMissing (lit ''export a public key''))) (\<lambda>v.
     map_err Key (of_sum (to_public_key_pem E v)))"

definition public_key_pem ::
    "('sk, 'vk, 'sg) p256 \<Rightarrow> ('sk, 'vk) crypto \<Rightarrow> (str, error) res" where
  "public_key_pem E c = subject_public_key_info E c"

definition private_key_pem ::
    "('sk, 'vk, 'sg) p256 \<Rightarrow> ('sk, 'vk) crypto \<Rightarrow> (str, error) res" where
  "private_key_pem E c =
     bind_res (ok_or (signing_key c) (KeyMissing (lit ''export a private key''))) (\<lambda>k.
     map_err Key (of_sum (to_pkcs8_pem E k)))"

definition can_sign :: "('sk, 'vk) crypto \<Rightarrow> bool" where
  "can_sign c \<longleftrightarrow> signing_key c \<noteq> None"

definition can_verify :: "('sk, 'vk) crypto \<Rightarrow> bool" where
  "can_verify c \<longleftrightarrow> verifying_key c \<noteq> None"

section \<open>Checking an OWID\<close>

definition verify_with_crypto ::
    "'t chrono \<Rightarrow> platform \<Rightarrow> ('sk, 'vk, 'sg) p256 \<Rightarrow> 't owid \<Rightarrow> ('sk, 'vk) crypto
     \<Rightarrow> (bool, error) res" where
  "verify_with_crypto C P E w c =
     bind_res (signed_bytes C P w) (\<lambda>data. verify_byte_array E c data (owid_signature w))"

definition verify_with_public_key ::
    "'t chrono \<Rightarrow> platform \<Rightarrow> ('sk, 'vk, 'sg) p256 \<Rightarrow> 't owid \<Rightarrow> str \<Rightarrow> (bool, error) res" where
  "verify_with_public_key C P E w public_pem =
     bind_res (new_verify_only E public_pem) (\<lambda>c. verify_with_crypto C P E w c)"

section \<open>Statuses\<close>

definition parse_status_of :: "('t owid, parse_error) res \<Rightarrow> parse_status option" where
  "parse_status_of result =
     (case result of Ok _ \<Rightarrow> Some Parsed | Err e \<Rightarrow> Some (pe_status e) | Panic \<Rightarrow> None)"

definition of_frame :: "('t owid option \<times> bytes, parse_error) res \<Rightarrow> parse_status option" where
  "of_frame result =
     (case result of
        Ok (Some _, _) \<Rightarrow> Some Parsed
      | Ok (None, _) \<Rightarrow> Some AbsentNode
      | Err e \<Rightarrow> Some (pe_status e)
      | Panic \<Rightarrow> None)"

datatype signature_status =
    Valid
  | Invalid
  | InvalidSignatureLength
  | KeyUnavailable
  | InvalidKey
  | ImplementationCapacityExceeded
  | VerificationError

text \<open>A panic yields no status.\<close>

fun signature_status_of :: "(bool, error) res \<Rightarrow> signature_status option" where
  "signature_status_of (Ok True) = Some Valid"
| "signature_status_of (Ok False) = Some Invalid"
| "signature_status_of (Err (error.InvalidSignatureLength _)) =
     Some signature_status.InvalidSignatureLength"
| "signature_status_of (Err (KeyMissing _)) = Some KeyUnavailable"
| "signature_status_of (Err (Http _)) = Some KeyUnavailable"
| "signature_status_of (Err (Key _)) = Some InvalidKey"
| "signature_status_of (Err (InvalidKeyFormat _)) = Some InvalidKey"
| "signature_status_of (Err (error.ImplementationCapacityExceeded _)) =
     Some signature_status.ImplementationCapacityExceeded"
| "signature_status_of (Err _) = Some VerificationError"
| "signature_status_of Panic = None"

fun signature_status_as_str :: "signature_status \<Rightarrow> str" where
  "signature_status_as_str Valid = lit ''SignatureValid''"
| "signature_status_as_str Invalid = lit ''SignatureInvalid''"
| "signature_status_as_str signature_status.InvalidSignatureLength = lit ''InvalidSignatureLength''"
| "signature_status_as_str KeyUnavailable = lit ''KeyUnavailable''"
| "signature_status_as_str InvalidKey = lit ''InvalidKey''"
| "signature_status_as_str signature_status.ImplementationCapacityExceeded =
     lit ''ImplementationCapacityExceeded''"
| "signature_status_as_str VerificationError = lit ''VerificationError''"

definition verify_status_with_crypto ::
    "'t chrono \<Rightarrow> platform \<Rightarrow> ('sk, 'vk, 'sg) p256 \<Rightarrow> 't owid \<Rightarrow> ('sk, 'vk) crypto
     \<Rightarrow> signature_status option" where
  "verify_status_with_crypto C P E w c = signature_status_of (verify_with_crypto C P E w c)"

definition verify_status_with_public_key ::
    "'t chrono \<Rightarrow> platform \<Rightarrow> ('sk, 'vk, 'sg) p256 \<Rightarrow> 't owid \<Rightarrow> str
     \<Rightarrow> signature_status option" where
  "verify_status_with_public_key C P E w public_pem =
     signature_status_of (verify_with_public_key C P E w public_pem)"

end
