(* ===== verification/Creator.thy ===== *)
theory Creator
  imports Crypto
begin

text \<open>
  The creator of OWIDs, src/src/creator.rs: what it refuses when it is built, and creating
  and signing in one step. The moment \<open>Utc::now()\<close> answers is an argument.
\<close>

section \<open>Definitions\<close>

record configuration =
  conf_domain :: str
  conf_private_key :: str
  conf_public_key :: "str option"

record ('sk, 'vk) creator =
  creator_domain :: str
  creator_crypto :: "('sk, 'vk) crypto"

definition creator_new ::
    "str \<Rightarrow> ('sk, 'vk) crypto \<Rightarrow> (('sk, 'vk) creator, error) res" where
  "creator_new domain c =
     (if trim domain = [] then Err (InvalidDomain domain)
      else if length (as_bytes domain) > MAXIMUM_DOMAIN_LENGTH then Err DomainTooLong
      else if \<not> can_sign c then Err (KeyMissing (lit ''generate a signature''))
      else Ok \<lparr> creator_domain = domain, creator_crypto = c \<rparr>)"

definition from_configuration ::
    "('sk, 'vk, 'sg) p256 \<Rightarrow> configuration \<Rightarrow> (('sk, 'vk) creator, error) res" where
  "from_configuration E configuration =
     bind_res (new_sign_only E (conf_private_key configuration)) (\<lambda>c.
     creator_new (conf_domain configuration) c)"

definition create_version ::
    "'t chrono \<Rightarrow> platform \<Rightarrow> ('sk, 'vk, 'sg) p256 \<Rightarrow> 't \<Rightarrow> ('sk, 'vk) creator
     \<Rightarrow> version \<Rightarrow> bytes \<Rightarrow> ('t owid, error) res" where
  "create_version C P E now cr version payload =
     (let w = from_parts version (creator_domain cr) now payload [] in
      bind_res (signed_bytes C P w) (\<lambda>data.
      bind_res (sign_byte_array E (creator_crypto cr) data) (\<lambda>signature.
      if length signature \<noteq> SIGNATURE_LENGTH
      then Err (error.InvalidSignatureLength (length signature))
      else Ok (set_signature w signature))))"

definition create ::
    "'t chrono \<Rightarrow> platform \<Rightarrow> ('sk, 'vk, 'sg) p256 \<Rightarrow> 't \<Rightarrow> ('sk, 'vk) creator
     \<Rightarrow> bytes \<Rightarrow> ('t owid, error) res" where
  "create C P E now cr payload = create_version C P E now cr version_default payload"

section \<open>Lemmas\<close>

text \<open>What is known of a creator that exists.\<close>

definition creator_inv :: "('sk, 'vk) creator \<Rightarrow> bool" where
  "creator_inv cr \<longleftrightarrow>
     trim (creator_domain cr) \<noteq> []
     \<and> length (as_bytes (creator_domain cr)) \<le> MAXIMUM_DOMAIN_LENGTH
     \<and> can_sign (creator_crypto cr)"

lemma creator_new_Ok:
  "creator_new d c = Ok cr \<longleftrightarrow>
     cr = \<lparr> creator_domain = d, creator_crypto = c \<rparr> \<and> creator_inv cr"
  by (auto simp: creator_new_def creator_inv_def)

text \<open>An OWID whose signature is the creator's, over its own fields.\<close>

definition signed_by :: "'t chrono \<Rightarrow> ('sk, 'vk, 'sg) p256 \<Rightarrow> 'sk \<Rightarrow> 't owid \<Rightarrow> bool" where
  "signed_by C E k w \<longleftrightarrow>
     owid_signature w = sig_to_bytes E (ecdsa_sign E k (enc_fields C w))"

lemma create_version_Ok:
  assumes "is_text (creator_domain cr)" "create_version C P E now cr v p = Ok w"
  shows "writable C w \<and> length (owid_signature w) = SIGNATURE_LENGTH
    \<and> owid_version w = v \<and> owid_domain w = creator_domain cr \<and> owid_date w = now
    \<and> owid_payload w = p
    \<and> (\<exists>k. signing_key (creator_crypto cr) = Some k \<and> signed_by C E k w)"
proof -
  let ?u = "from_parts v (creator_domain cr) now p []"
  from assms(2) obtain data s k where
    data: "signed_bytes C P ?u = Ok data" and k: "signing_key (creator_crypto cr) = Some k"
    and s: "s = sig_to_bytes E (ecdsa_sign E k data)" "length s = SIGNATURE_LENGTH"
    and w: "w = set_signature ?u s"
    by (auto simp: create_version_def sign_byte_array_def bind_res_Ok_iff Let_def split: if_splits)
  have "writable C ?u \<and> data = enc_fields C ?u"
    using signed_bytes_Ok [of ?u C P data] assms(1) data by simp
  moreover have "enc_fields C w = enc_fields C ?u" "writable C w = writable C ?u"
    by (simp_all add: w set_signature_def enc_fields_def writable_def)
  ultimately show ?thesis using s k by (simp add: w signed_by_def)
qed

text \<open>A key in hand verifies what its private half signed.\<close>

lemma verify_byte_array_signed:
  assumes "signatures_ok E"
  shows "verify_byte_array E \<lparr> signing_key = sk, verifying_key = Some (verifying_key_of E k) \<rparr>
    data (sig_to_bytes E (ecdsa_sign E k data)) = Ok True"
  using assms by (simp add: verify_byte_array_def signatures_ok_def SIGNATURE_LENGTH_def)

end
