(* ===== verification/Samples.thy ===== *)
theory Samples
  imports Frames Creator
begin

text \<open>
  Concrete values on the instances of Environment: an OWID of version 3 and its bytes, a
  creator, and the facts about them that the worked examples of the properties use.
\<close>

section \<open>An OWID and its bytes\<close>

definition sample :: "int owid" where
  "sample = from_parts Version3 (lit ''a.b'') (1577836800 + 60 * 5 + 30) [1, 2] (replicate 64 7)"

definition sample_bytes :: bytes where
  "sample_bytes = [3, 97, 46, 98, 0, 5, 0, 0, 0, 2, 0, 0, 0, 1, 2] @ replicate 64 7"

text \<open>The sample as it is read back, its date without the thirty seconds.\<close>

definition sample_read :: "int owid" where
  "sample_read = from_parts Version3 (lit ''a.b'') (1577836800 + 60 * 5) [1, 2] (replicate 64 7)"

lemma sample_domain [simp]: "as_bytes (lit ''a.b'') = [97, 46, 98]" "is_text (lit ''a.b'')"
  by (simp_all add: lit_def as_bytes_def encode_char_def byte_def is_text_def scalar_def)

lemma sample_no_null [simp]: "0 \<notin> set (lit ''a.b'')"
  by (simp add: lit_def)

lemma sample_valid_domain [simp]: "valid_domain (lit ''a.b'')"
  by (simp add: valid_domain_def MAXIMUM_DOMAIN_LENGTH_def)

lemma sample_writable: "writable utc_seconds sample"
  by (simp add: sample_def from_parts_def writable_def utc_seconds_def base_date_def quot_def)

lemma sample_signature: "length (owid_signature sample) = SIGNATURE_LENGTH"
  by (simp add: sample_def from_parts_def SIGNATURE_LENGTH_def)

lemma sample_text: "is_text (owid_domain sample)"
  by (simp add: sample_def from_parts_def)

lemma sample_enc: "enc_owid utc_seconds sample = sample_bytes"
  by (simp add: sample_def sample_bytes_def from_parts_def enc_owid_def enc_fields_def
      enc_domain_def to_le_bytes_def utc_seconds_def base_date_def quot_def)

lemma sample_wire: "wire_form utc_seconds sample = sample_read"
  by (simp add: wire_form_def sample_def sample_read_def from_parts_def utc_seconds_def
      base_date_def quot_def)

lemma sample_serializes: "as_byte_array utc_seconds target64 sample = Ok sample_bytes"
  using sample_writable sample_signature
  by (simp add: as_byte_array_result sample_enc sample_bytes_def target64_def)

lemma sample_read_valid: "valid_owid utc_seconds sample_read"
  using wire_form_valid [OF dates_ok_utc sample_writable sample_signature] by (simp add: sample_wire)

lemma sample_read_enc: "enc_owid utc_seconds sample_read = sample_bytes"
  using enc_wire_form(2) [OF dates_ok_utc sample_writable] by (simp add: sample_wire sample_enc)

lemma sample_fits: "fits target64 sample_read"
  by (simp add: fits_target64 sample_read_def from_parts_def)

lemma length_sample_bytes [simp]: "length sample_bytes = 79"
  by (simp add: sample_bytes_def)

lemma sample_parses: "from_byte_array utc_seconds target64 sample_bytes = Ok sample_read"
  using sample_read_valid sample_fits sample_read_enc
  by (simp add: from_byte_array_def parse_exact_Ok_iff [OF dates_ok_utc])

lemma sample_read_sel [simp]:
  "fields_length sample_read = 15" "owid_payload sample_read = [1, 2]"
  "owid_domain sample_read = lit ''a.b''" "owid_version sample_read = Version3"
  by (simp_all add: sample_read_def from_parts_def fields_length_def)

lemma sample_read_text: "is_text (owid_domain sample_read)"
  by simp

lemma sample_signed: "signed_bytes utc_seconds target64 sample = Ok (take 15 sample_bytes)"
proof -
  have "fields_length sample = 15" by (simp add: sample_def from_parts_def fields_length_def)
  moreover from this have "take 15 (enc_owid utc_seconds sample) = enc_fields utc_seconds sample"
    by (simp add: enc_owid_def)
  ultimately show ?thesis
    using sample_writable by (simp add: signed_bytes_result sample_enc target64_def)
qed

lemma sample_read_signed: "signed_bytes utc_seconds target64 sample_read = Ok (take 15 sample_bytes)"
proof -
  have "take 15 (enc_owid utc_seconds sample_read) = enc_fields utc_seconds sample_read"
    by (simp add: enc_owid_def)
  moreover have "writable utc_seconds sample_read"
    using valid_owid_writable [OF dates_ok_utc sample_read_valid] by simp
  ultimately show ?thesis by (simp add: signed_bytes_result sample_read_enc target64_def)
qed

section \<open>A creator\<close>

definition sample_creator :: "(u32, u32) creator" where
  "sample_creator = \<lparr> creator_domain = lit ''a.b'', creator_crypto = crypto_new numbered 9 \<rparr>"

lemma sample_creator_new: "creator_new (lit ''a.b'') (crypto_new numbered 9) = Ok sample_creator"
proof -
  have "trim (lit ''a.b'') \<noteq> []" by (simp add: trim_eq_Nil lit_def is_whitespace_def)
  then show ?thesis
    by (simp add: creator_new_def can_sign_def crypto_new_def sample_creator_def MAXIMUM_DOMAIN_LENGTH_def)
qed

text \<open>The OWID that creator makes at the base date, and the text it is sent as.\<close>

definition sample_unsigned :: "int owid" where
  "sample_unsigned = from_parts Version3 (lit ''a.b'') 1577836800 [1, 2] []"

definition sample_created :: "int owid" where
  "sample_created = set_signature sample_unsigned
     (numbered_sign 9 (enc_fields utc_seconds sample_unsigned))"

lemma sample_unsigned_writable: "writable utc_seconds sample_unsigned"
  by (simp add: sample_unsigned_def from_parts_def writable_def utc_seconds_def base_date_def quot_def)

lemma sample_creates:
  "create utc_seconds target64 numbered 1577836800 sample_creator [1, 2] = Ok sample_created"
proof -
  have "fields_length sample_unsigned = 15"
    by (simp add: sample_unsigned_def from_parts_def fields_length_def)
  then have "signed_bytes utc_seconds target64 sample_unsigned
      = Ok (enc_fields utc_seconds sample_unsigned)"
    using sample_unsigned_writable by (simp add: signed_bytes_result target64_def)
  then show ?thesis
    by (simp add: create_def create_version_def version_default_def sample_creator_def
        crypto_new_def sign_byte_array_def numbered_def sample_created_def numbered_sign_def
        SIGNATURE_LENGTH_def Let_def flip: sample_unsigned_def)
qed

lemma sample_created_serializes:
  "as_base64 utc_seconds target64 plain64 sample_created
   = Ok (b64_encode plain64 (enc_owid utc_seconds sample_created))"
proof -
  have "writable utc_seconds sample_created"
    using sample_unsigned_writable by (simp add: sample_created_def set_signature_def writable_def)
  moreover have "length (owid_signature sample_created) = SIGNATURE_LENGTH"
    by (simp add: sample_created_def set_signature_def numbered_sign_def SIGNATURE_LENGTH_def)
  moreover have "length (enc_owid utc_seconds sample_created) = 79"
    by (simp add: enc_owid_def sample_created_def set_signature_def sample_unsigned_def
        from_parts_def fields_length_def numbered_sign_def)
  ultimately show ?thesis
    by (simp add: as_base64_def as_byte_array_result target64_def)
qed

lemma sample_public_pem: "public_key_pem numbered (crypto_new numbered 9) = Ok (lit ''9'')"
  by (simp add: public_key_pem_def subject_public_key_info_def crypto_new_def numbered_def
      lit_def decimal.simps)

end
