(* ===== verification/KeyUrl.thy ===== *)
theory KeyUrl
  imports KeyCache Samples
begin

text \<open>
  The URLs a verifier asks (src/src/fetch.rs): how the key URL of an OWID is built, and how
  the end point and the minute are read back from a URL to find what is held. 63 is the
  question mark and 38 the ampersand.
\<close>

section \<open>Definitions\<close>

definition FORMAT_QUERY :: str where
  "FORMAT_QUERY = lit ''format=spki''"

definition key_url_at :: "str \<Rightarrow> u32 \<Rightarrow> str" where
  "key_url_at end_point minute =
     end_point @ lit ''?date='' @ decimal (unat minute) @ lit ''&'' @ FORMAT_QUERY"

definition key_end_point :: "'t owid \<Rightarrow> str \<Rightarrow> str" where
  "key_end_point w scheme =
     scheme @ lit ''://'' @ owid_domain w @ lit ''/owid/api/v''
     @ decimal (unat (as_byte (owid_version w))) @ lit ''/public-key''"

definition public_key_url :: "'t chrono \<Rightarrow> 't owid \<Rightarrow> str \<Rightarrow> str" where
  "public_key_url C w scheme =
     (case minutes_since_base C (owid_date w) of
        Some minutes \<Rightarrow> key_url_at (key_end_point w scheme) minutes
      | None \<Rightarrow> key_end_point w scheme @ lit ''?'' @ FORMAT_QUERY)"

definition end_point_of :: "str \<Rightarrow> str" where
  "end_point_of url = (case split_once 63 url of None \<Rightarrow> url | Some (end_point, _) \<Rightarrow> end_point)"

definition minute_of :: "str \<Rightarrow> u32 option" where
  "minute_of url =
     (case split_once 63 url of
        None \<Rightarrow> None
      | Some (_, query) \<Rightarrow>
          (case find_map (strip_prefix (lit ''date='')) (split_at 38 query) of
             None \<Rightarrow> None
           | Some date \<Rightarrow> parse_u32 date))"

text \<open>The minute of \<open>Utc::now()\<close>, as the cache counts it.\<close>

definition now_minute :: "'t chrono \<Rightarrow> 't \<Rightarrow> u32" where
  "now_minute C now = (case minutes_since_base C now of Some m \<Rightarrow> m | None \<Rightarrow> u32_max)"

definition recent :: "'t chrono \<Rightarrow> 't \<Rightarrow> u32 \<Rightarrow> bool" where
  "recent C now minute \<longleftrightarrow>
     minute > saturating_sub (now_minute C now) CLOCK_DRIFT_ALLOWANCE_MINUTES"

section \<open>Lemmas\<close>

lemma split_once_url: "63 \<notin> set p \<Longrightarrow> split_once 63 (p @ 63 # q) = Some (p, q)"
  by (rule split_once_hit)

lemma decimal_no_char: "c < 48 \<or> 57 < c \<Longrightarrow> c \<notin> set (decimal n)"
  using decimal_digits [of n] by auto

lemma find_date:
  assumes "38 \<notin> set q"
  shows "find_map (strip_prefix (lit ''date='')) (split_at 38 (lit ''date='' @ q @ 38 # r)) = Some q"
proof -
  have "split_at 38 ((lit ''date='' @ q) @ 38 # r) = (lit ''date='' @ q) # split_at 38 r"
    using assms by (intro split_at_hit) (simp add: lit_def)
  then show ?thesis by simp
qed

lemma minute_of_date_query:
  assumes "63 \<notin> set p"
  shows "minute_of (p @ 63 # lit ''date='' @ decimal (unat m) @ 38 # r) = Some m"
  using split_once_url [OF assms] find_date [of "decimal (unat m)" r]
  by (simp add: minute_of_def decimal_no_char)

lemma end_point_of_query: "63 \<notin> set p \<Longrightarrow> end_point_of (p @ 63 # q) = p"
  by (simp add: end_point_of_def split_once_url)

lemma key_url_at_shape:
  "key_url_at p m = p @ 63 # lit ''date='' @ decimal (unat m) @ 38 # FORMAT_QUERY"
  by (simp add: key_url_at_def lit_def)

lemma key_url_at_read_back:
  assumes "63 \<notin> set p"
  shows "end_point_of (key_url_at p m) = p" "minute_of (key_url_at p m) = Some m"
  using assms by (simp_all add: key_url_at_shape end_point_of_query minute_of_date_query)

lemma key_end_point_no_query:
  "63 \<notin> set scheme \<Longrightarrow> 63 \<notin> set (owid_domain w) \<Longrightarrow> 63 \<notin> set (key_end_point w scheme)"
  by (simp add: key_end_point_def decimal_no_char) (simp add: lit_def)

section \<open>Properties\<close>



text \<open>Where the domain of an OWID holds a question mark and a date of its own, the end point
  and the minute the cache uses are the domain's own choice and not those of the OWID's
  version and date.\<close>

theorem domain_query_names_the_minute:
  assumes "63 \<notin> set scheme" "63 \<notin> set host"
    and "owid_domain w = host @ 63 # lit ''date='' @ decimal (unat m) @ 38 # rest"
  shows "end_point_of (public_key_url C w scheme) = scheme @ lit ''://'' @ host
    \<and> minute_of (public_key_url C w scheme) = Some m"
proof -
  let ?p = "scheme @ lit ''://'' @ host"
  have p: "63 \<notin> set ?p" using assms(1,2) by (simp add: lit_def)
  obtain tail where "public_key_url C w scheme
      = ?p @ 63 # lit ''date='' @ decimal (unat m) @ 38 # tail"
    using assms(3) that by (cases "minutes_since_base C (owid_date w)")
      (simp_all add: public_key_url_def key_url_at_def key_end_point_def)
  then show ?thesis
    using end_point_of_query [OF p] minute_of_date_query [OF p, of m tail] by simp
qed

theorem domain_query_names_the_minute_witness:
  "\<exists>w :: int owid. valid_owid utc_seconds w \<and> minutes_since_base utc_seconds (owid_date w) = Some 5
     \<and> minute_of (public_key_url utc_seconds w (lit ''https'')) = Some 1"
proof -
  let ?d = "lit ''a'' @ 63 # lit ''date='' @ decimal (unat (1 :: u32)) @ 38 # []"
  let ?w = "sample_read\<lparr> owid_domain := ?d \<rparr>"
  have d: "?d = [97, 63, 100, 97, 116, 101, 61, 49, 38]" by (simp add: lit_def decimal.simps)
  have "valid_domain ?d"
    unfolding d by (simp add: valid_domain_def as_bytes_def encode_char_def is_text_def scalar_def
        MAXIMUM_DOMAIN_LENGTH_def)
  then have "valid_owid utc_seconds ?w" using sample_read_valid by (simp add: valid_owid_def)
  moreover have "minutes_since_base utc_seconds (owid_date ?w) = Some 5"
    by (simp add: sample_read_def from_parts_def minutes_since_base_def utc_seconds_def
        base_date_def quot_def u32_try_from_def)
  moreover have "minute_of (public_key_url utc_seconds ?w (lit ''https'')) = Some 1"
    using domain_query_names_the_minute [of "lit ''https''" "lit ''a''" ?w 1 "[]"]
    by (simp add: lit_def)
  ultimately show ?thesis by blast
qed

end
