(* ===== verification/KeyHistory.thy ===== *)
theory KeyHistory
  imports KeyCache
begin

text \<open>
  What the key cache of src/src/fetch.rs can hold after any sequence of answers and
  clearings: a step relation whose ghost state is the list of what the creators claimed,
  and the properties of lookup over the reachable caches.
\<close>

section \<open>Claims and runs\<close>

text \<open>One answer, as the span it was to be held for.\<close>

record claim =
  claim_end_point :: str
  claim_pem :: str
  claim_first :: u32
  claim_last :: u32
  claim_explicit :: bool

definition claims_of ::
    "u32 \<Rightarrow> str \<Rightarrow> u32 option \<Rightarrow> bool \<Rightarrow> str \<Rightarrow> u32 option \<Rightarrow> u32 option \<Rightarrow> claim list" where
  "claims_of now p minute recent pem start finish =
     (case span_to_hold now minute recent start finish of
        None \<Rightarrow> []
      | Some (f, l, expl, opn) \<Rightarrow>
          [\<lparr> claim_end_point = p, claim_pem = pem, claim_first = f, claim_last = l,
             claim_explicit = expl \<rparr>])"

inductive cache_run :: "cache \<Rightarrow> claim list \<Rightarrow> bool" where
  start: "cache_run empty_cache []"
| answer: "cache_run c log \<Longrightarrow> hold now c p minute recent pem s e = Ok (a, c')
    \<Longrightarrow> cache_run c' (claims_of now p minute recent pem s e @ log)"
| clear: "cache_run c log \<Longrightarrow> cache_run (clear_cache c) log"
| fetches: "cache_run c log \<Longrightarrow> cache_run (c\<lparr> in_flight := fs \<rparr>) log"

section \<open>Lemmas\<close>

text \<open>A key is backed by the log where its ends are ends of claims for it.\<close>

definition backed :: "claim list \<Rightarrow> str \<Rightarrow> held_key \<Rightarrow> bool" where
  "backed log p k \<longleftrightarrow>
     (\<exists>e \<in> set log. claim_end_point e = p \<and> claim_pem e = held_pem k \<and> claim_first e = first_minute k)
     \<and> (\<exists>e \<in> set log. claim_end_point e = p \<and> claim_pem e = held_pem k \<and> claim_last e = last_minute k)
     \<and> (explicit k \<longrightarrow> (\<exists>e \<in> set log. claim_end_point e = p \<and> claim_pem e = held_pem k \<and> claim_explicit e))"

definition all_backed :: "claim list \<Rightarrow> cache \<Rightarrow> bool" where
  "all_backed log c \<longleftrightarrow> (\<forall>p ks k. cache_keys c p = Some ks \<longrightarrow> k \<in> set ks \<longrightarrow> backed log p k)"

lemma backed_mono: "backed log p k \<Longrightarrow> set log \<subseteq> set log' \<Longrightarrow> backed log' p k"
  unfolding backed_def by blast

lemma all_backed_new:
  assumes "all_backed log c" "backed log p k"
  shows "all_backed log (hold_new c p k)"
  using assms by (cases "cache_keys c p") (auto simp: all_backed_def hold_new_def Let_def split: if_splits)

lemma all_backed_update:
  assumes "all_backed log c" "cache_keys c p = Some ks" "backed log p k"
  shows "all_backed log (c\<lparr> cache_keys := (cache_keys c)(p \<mapsto> ks[i := k]) \<rparr>)"
  using assms set_update_subset_insert [of ks i k]
  by (fastforce simp: all_backed_def split: if_splits)

lemma all_backed_hold:
  assumes "all_backed log c" "hold now c p minute recent pem s e = Ok (a, c')"
  shows "all_backed (claims_of now p minute recent pem s e @ log) c'"
proof -
  define log' where "log' = claims_of now p minute recent pem s e @ log"
  have "set log \<subseteq> set log'" by (simp add: log'_def)
  then have old: "all_backed log' c"
    using assms(1) backed_mono [of log _ _ log'] unfolding all_backed_def by blast
  have "all_backed log' c'"
  proof (rule hold_cases [of now c p minute recent pem s e])
    fix f l expl opn
    let ?new = "\<lparr> held_pem = pem, first_minute = f, last_minute = l, explicit = expl, open_ended = opn \<rparr>"
    assume span: "span_to_hold now minute recent s e = Some (f, l, expl, opn)"
      and held: "hold now c p minute recent pem s e = Ok (key_answer_stated pem s e, hold_new c p ?new)"
    have "backed log' p ?new" by (simp add: backed_def log'_def claims_of_def span)
    from all_backed_new [OF old this] held assms(2) show ?thesis by simp
  next
    fix f l expl opn ks i
    assume span: "span_to_hold now minute recent s e = Some (f, l, expl, opn)"
      and ks: "cache_keys c p = Some ks" "i < length ks" "held_pem (ks ! i) = pem"
      and held: "hold now c p minute recent pem s e = Ok (key_answer_stated pem s e,
        c\<lparr> cache_keys := (cache_keys c)(p \<mapsto> ks[i := widened (ks ! i) f l expl opn]) \<rparr>)"
    have "backed log' p (ks ! i)" using old ks by (auto simp: all_backed_def)
    then have "backed log' p (widened (ks ! i) f l expl opn)"
      using ks(3) by (auto simp: backed_def log'_def claims_of_def span min_def max_def)
    from all_backed_update [OF old ks(1) this, of i] held assms(2) show ?thesis by simp
  qed (use old assms(2) in simp)
  then show ?thesis by (simp add: log'_def)
qed

lemma cache_run_inv: "cache_run c log \<Longrightarrow> cache_inv c \<and> all_backed log c"
proof (induction rule: cache_run.induct)
  case start
  show ?case by (simp add: cache_inv_empty) (simp add: all_backed_def empty_cache_def)
next
  case (answer c log now p minute recent pem s e a c')
  then show ?case
    using hold_inv [of c now p minute recent pem s e] all_backed_hold by fastforce
next
  case (clear c log)
  show ?case by (simp add: cache_inv_clear) (simp add: all_backed_def clear_cache_def)
next
  case (fetches c log fs)
  then show ?case by (simp add: cache_inv_def all_backed_def)
qed

lemma keys_inv_cover:
  assumes "keys_inv ks" "k \<in> set ks" "k' \<in> set ks" "held_covers k m" "held_covers k' m"
  shows "k = k'"
proof -
  from assms(2,3) obtain i j where "i < length ks" "j < length ks" "k = ks ! i" "k' = ks ! j"
    by (auto simp: in_set_conv_nth)
  with assms(1,4,5) show ?thesis
    by (cases "i = j") (force simp: keys_inv_def disjoint_spans_def held_covers_def)+
qed

lemma held_for_Some:
  assumes "held_for c p m r = Some a"
  obtains ks k where "cache_keys c p = Some ks" "k \<in> set ks" "held_covers k m" "explicit k \<or> \<not> r"
    "a = held_stated k"
proof -
  from assms obtain ks k where "cache_keys c p = Some ks" "a = held_stated k"
    and f: "List.find (\<lambda>k. held_covers k m \<and> (explicit k \<or> \<not> r)) ks = Some k"
    by (auto simp: held_for_def split: option.splits)
  moreover from f have "k \<in> set ks" "held_covers k m" "explicit k \<or> \<not> r"
    by (auto simp: find_Some_iff)
  ultimately show thesis using that by blast
qed

lemma held_stated_pem [simp]: "answer_pem (held_stated k) = held_pem k"
  by (simp add: held_stated_def key_answer_known_def key_answer_unknown_def)

text \<open>What is served is a held key, backed by the log.\<close>

lemma held_for_backed:
  assumes "cache_run c log" "held_for c p m r = Some a"
  obtains k where "backed log p k" "held_covers k m" "explicit k \<or> \<not> r" "a = held_stated k"
proof -
  from held_for_Some [OF assms(2)] obtain ks k where "cache_keys c p = Some ks" "k \<in> set ks"
    "held_covers k m" "explicit k \<or> \<not> r" "a = held_stated k" by blast
  moreover from this have "backed log p k" using cache_run_inv [OF assms(1)] by (auto simp: all_backed_def)
  ultimately show thesis using that by blast
qed

lemma backed_between:
  assumes "backed log p k" "held_covers k m"
  shows "\<exists>e \<in> set log. claim_end_point e = p \<and> claim_pem e = held_pem k \<and> claim_first e \<le> m"
    and "\<exists>e \<in> set log. claim_end_point e = p \<and> claim_pem e = held_pem k \<and> m \<le> claim_last e"
  using assms unfolding backed_def held_covers_def by metis+

section \<open>Properties\<close>

text \<open>C22: After any sequence of answers and clearings, the count is the number of keys held and
  at most 1024, each end point holds a key once, and no minute is covered by two of its keys.\<close>

theorem cache_stays_consistent:
  assumes "cache_run c log"
  shows "cache_held c = (\<Sum>e \<in> dom (cache_keys c). length (the (cache_keys c e)))
    \<and> cache_held c \<le> 1024
    \<and> (\<forall>ks \<in> ran (cache_keys c). distinct (map held_pem ks)
         \<and> (\<forall>k \<in> set ks. \<forall>k' \<in> set ks. \<forall>m. held_covers k m \<longrightarrow> held_covers k' m \<longrightarrow> k = k'))"
proof -
  have inv: "cache_inv c" using cache_run_inv [OF assms] by simp
  have "distinct (map held_pem ks)
      \<and> (\<forall>k \<in> set ks. \<forall>k' \<in> set ks. \<forall>m. held_covers k m \<longrightarrow> held_covers k' m \<longrightarrow> k = k')"
    if "ks \<in> ran (cache_keys c)" for ks
  proof -
    have "keys_inv ks" using inv that by (simp add: cache_inv_def)
    then show ?thesis using keys_inv_cover [of ks] by (auto simp: keys_inv_def [of ks])
  qed
  with inv show ?thesis by (simp add: cache_inv_def MAXIMUM_CACHED_KEYS_def)
qed


text \<open>One answer that states its span serves the whole of it: after the creator answered
  with a new key and a span no held key overlaps, the key is found for every minute of the
  span, near now or not, with the span as stated.\<close>

theorem stated_span_is_served:
  assumes "cache_inv c" "start < finish"
    and "\<forall>ks. cache_keys c p = Some ks \<longrightarrow> (\<forall>k \<in> set ks. held_pem k \<noteq> pem
           \<and> (last_minute k < start \<or> finish \<le> first_minute k))"
    and "hold now c p minute recent pem (Some start) (Some finish) = Ok (a, c')"
    and "start \<le> m" "m < finish"
  shows "held_for c' p m r = Some (key_answer_known pem start (finish - 1))
    \<and> a = key_answer_known pem start (finish - 1)"
proof -
  let ?k = "\<lparr> held_pem = pem, first_minute = start, last_minute = finish - 1, explicit = True,
      open_ended = False \<rparr>"
  have le: "m \<le> finish - 1" using assms(6) by unat_arith
  have no: "\<not> (last_minute k \<ge> start \<and> first_minute k \<le> finish - 1)"
    if "last_minute k < start \<or> finish \<le> first_minute k" for k :: held_key
    using that assms(2) by unat_arith
  have c': "c' = hold_new c p ?k" and a: "a = key_answer_known pem start (finish - 1)"
  proof -
    have "hold now c p minute recent pem (Some start) (Some finish)
        = Ok (key_answer_known pem start (finish - 1), hold_new c p ?k)"
    proof (cases "cache_keys c p")
      case None
      with assms(2) show ?thesis
        by (simp add: hold_def span_to_hold_def key_answer_stated_def)
    next
      case (Some ks)
      with assms(3) have pos: "position (\<lambda>k. held_pem k = pem) ks = None"
        by (simp add: position_None_iff)
      have "\<not> (\<exists>other \<in> set ks. last_minute other \<ge> start \<and> first_minute other \<le> finish - 1)"
        using no assms(3) Some by blast
      then show ?thesis
        using assms(2) Some pos
        by (auto simp: hold_def span_to_hold_def key_answer_stated_def Let_def)
    qed
    with assms(4) show "c' = hold_new c p ?k" "a = key_answer_known pem start (finish - 1)"
      by simp_all
  qed
  obtain ks where ks: "cache_keys (hold_new c p ?k) p = Some (ks @ [?k])"
    and old: "\<forall>k \<in> set ks. \<not> held_covers k m"
  proof (cases "cache_held c \<ge> MAXIMUM_CACHED_KEYS")
    case True
    then show thesis by (intro that [of "[]"]) (simp_all add: hold_new_def)
  next
    case False
    have "\<not> held_covers k m" if "cache_keys c p = Some ks" "k \<in> set ks" for ks k
      using assms(3,5,6) that by (auto simp: held_covers_def not_le)
    with False show thesis
      by (cases "cache_keys c p")
        (auto simp: hold_new_def Let_def intro: that [of "[]"] that [of "the (cache_keys c p)"])
  qed
  from old have "List.find (\<lambda>k. held_covers k m \<and> (explicit k \<or> \<not> r)) (ks @ [?k]) = Some ?k"
    using assms(5) le by (induction ks) (auto simp: held_covers_def)
  with ks show ?thesis by (simp add: c' a held_for_def held_stated_def)
qed

text \<open>Two spans stated for one key are joined across the minutes between them: where no
  other key is held for the end point, a minute the creator said nothing about is served from
  the cache as covered by a stated span, near now or not.\<close>

theorem gap_between_stated_spans_is_served:
  assumes "cache_keys c p = Some [k]" "explicit k" "first_minute k \<le> last_minute k"
    and "last_minute k < start" "start < finish"
    and "hold now c p minute recent (held_pem k) (Some start) (Some finish) = Ok (a, c')"
    and "first_minute k \<le> m" "m < finish"
  shows "held_for c' p m r = Some (key_answer_known (held_pem k) (first_minute k) (finish - 1))"
proof -
  have le: "m \<le> finish - 1" "last_minute k \<le> finish - 1" "first_minute k \<le> start"
    using assms(3,4,5,8) by unat_arith+
  then have "min start (first_minute k) = first_minute k"
    "max (finish - 1) (last_minute k) = finish - 1" by (simp_all add: min_def max_def)
  then have "c' = c\<lparr> cache_keys := (cache_keys c)(p \<mapsto> [k\<lparr> last_minute := finish - 1,
      explicit := True, open_ended := False \<rparr>]) \<rparr>"
    using assms(1,2,5,6)
    by (simp add: hold_def span_to_hold_def widen_result Let_def)
  with assms(7) le(1) show ?thesis
    by (simp add: held_for_def held_covers_def held_stated_def)
qed

section \<open>Worked examples\<close>

definition one_key :: held_key where
  "one_key = \<lparr> held_pem = [1], first_minute = 3, last_minute = 8, explicit = True, open_ended = False \<rparr>"

definition one_cache :: cache where
  "one_cache = \<lparr> cache_keys = [[101] \<mapsto> [one_key]], cache_held = 1, in_flight = Map.empty \<rparr>"

lemma one_cache_held:
  "hold 100 empty_cache [101] (Some 5) False [1] (Some 3) (Some 9) = Ok (key_answer_known [1] 3 8, one_cache)"
  by (simp add: hold_def span_to_hold_def key_answer_stated_def empty_cache_def hold_new_def
      one_cache_def one_key_def MAXIMUM_CACHED_KEYS_def)

lemma one_cache_run:
  "cache_run one_cache (claims_of 100 [101] (Some 5) False [1] (Some 3) (Some 9) @ [])"
  using cache_run.answer [OF cache_run.start one_cache_held] .

theorem cache_stays_consistent_witness: "cache_held one_cache \<le> 1024"
  using cache_stays_consistent [OF one_cache_run] by simp


theorem stated_span_is_served_witness:
  "held_for one_cache [101] 8 True = Some (key_answer_known [1] 3 8)"
  using stated_span_is_served [OF cache_inv_empty _ _ one_cache_held, of 8 True]
  by (simp add: empty_cache_def)

theorem gap_between_stated_spans_is_served_witness:
  "\<exists>a c. hold 100 one_cache [101] (Some 30) False [1] (Some 30) (Some 40) = Ok (a, c)
     \<and> held_for c [101] 20 True = Some (key_answer_known [1] 3 39)"
proof -
  have "cache_inv one_cache" using cache_run_inv [OF one_cache_run] by simp
  then obtain a c where h: "hold 100 one_cache [101] (Some 30) False [1] (Some 30) (Some 40) = Ok (a, c)"
    using hold_inv [of one_cache 100 "[101]" "Some 30" False "[1]" "Some 30" "Some 40"] by auto
  have pem: "held_pem one_key = [1]" by (simp add: one_key_def)
  have "held_for c [101] 20 True = Some (key_answer_known (held_pem one_key) (first_minute one_key) (40 - 1))"
    by (rule gap_between_stated_spans_is_served [OF _ _ _ _ _ h [folded pem]])
      (simp_all add: one_cache_def one_key_def)
  with h show ?thesis by (simp add: one_key_def)
qed

end
