(* ===== verification/Schedule.thy ===== *)
theory Schedule
  imports Errors
begin

text \<open>
  A creator's schedule of dated public keys (src/src/schedule.rs). Moments are any linear
  order, \<open>Utc::now()\<close> is an argument, and an index out of range is \<open>Panic\<close>.
\<close>

section \<open>Definitions\<close>

record 't dated_public_key =
  starts_at :: 't
  dated_pem :: str

definition dated_public_key_new :: "'t \<Rightarrow> str \<Rightarrow> 't dated_public_key" where
  "dated_public_key_new starts pem = \<lparr> starts_at = starts, dated_pem = pem \<rparr>"

record 't public_key_schedule =
  schedule_keys :: "'t dated_public_key list"

text \<open>\<open>sort_by_key\<close> is the stable sort, as \<open>sort_key\<close> is.\<close>

definition schedule_new :: "('t :: linorder) dated_public_key list \<Rightarrow> 't public_key_schedule" where
  "schedule_new keys = \<lparr> schedule_keys = sort_key starts_at keys \<rparr>"

text \<open>\<open>Iterator::rposition\<close> and \<open>Iterator::min\<close>.\<close>

fun rposition :: "('a \<Rightarrow> bool) \<Rightarrow> 'a list \<Rightarrow> nat option" where
  "rposition p [] = None"
| "rposition p (x # xs) =
     (case rposition p xs of
        Some i \<Rightarrow> Some (Suc i)
      | None \<Rightarrow> if p x then Some 0 else None)"

fun iter_min :: "('a :: linorder) list \<Rightarrow> 'a option" where
  "iter_min [] = None"
| "iter_min (x # xs) = Some (fold min xs x)"

text \<open>The loop that goes back to the first of the keys that share a start.\<close>

fun rewind :: "'t dated_public_key list \<Rightarrow> nat \<Rightarrow> (nat, error) res" where
  "rewind keys 0 = Ok 0"
| "rewind keys (Suc i) =
     bind_res (index keys i) (\<lambda>before.
     bind_res (index keys (Suc i)) (\<lambda>here.
     if starts_at before = starts_at here then rewind keys i else Ok (Suc i)))"

definition key_in_force ::
    "('t :: linorder) public_key_schedule \<Rightarrow> 't \<Rightarrow> ('t dated_public_key option, error) res" where
  "key_in_force s at =
     (case rposition (\<lambda>key. starts_at key \<le> at) (schedule_keys s) of
        None \<Rightarrow> Ok None
      | Some i \<Rightarrow>
          bind_res (rewind (schedule_keys s) i) (\<lambda>i.
          bind_res (index (schedule_keys s) i) (\<lambda>key. Ok (Some key))))"

definition next_start_after ::
    "('t :: linorder) public_key_schedule \<Rightarrow> 't dated_public_key \<Rightarrow> 't option" where
  "next_start_after s key =
     iter_min (map starts_at (filter (\<lambda>other. starts_at other > starts_at key) (schedule_keys s)))"

definition current ::
    "('t :: linorder) public_key_schedule \<Rightarrow> 't \<Rightarrow> ('t dated_public_key option, error) res" where
  "current s now = key_in_force s now"

section \<open>What the schedule promises\<close>

text \<open>
  Over the keys in the order they were supplied: among those that had started, the latest
  start, and among the keys with that start, the one supplied first.
\<close>

definition chosen :: "('t :: linorder) dated_public_key list \<Rightarrow> 't \<Rightarrow> 't dated_public_key option" where
  "chosen keys at =
     (let started = filter (\<lambda>k. starts_at k \<le> at) keys in
      if started = [] then None
      else List.find (\<lambda>k. starts_at k = Max (starts_at ` set started)) keys)"

section \<open>Lemmas\<close>

lemma rposition_None: "rposition p xs = None \<longleftrightarrow> (\<forall>x \<in> set xs. \<not> p x)"
  by (induction xs) (auto split: option.splits)

lemma rposition_Some:
  "rposition p xs = Some i \<Longrightarrow>
     i < length xs \<and> p (xs ! i) \<and> (\<forall>j. i < j \<longrightarrow> j < length xs \<longrightarrow> \<not> p (xs ! j))"
proof (induction xs arbitrary: i)
  case (Cons x xs)
  show ?case
  proof (cases "rposition p xs")
    case None
    with Cons.prems have "i = 0" "p x" by (auto split: if_splits)
    with None show ?thesis
      by (auto simp: rposition_None nth_Cons' dest!: bspec [OF _ nth_mem])
  next
    case (Some k)
    with Cons.prems have "i = Suc k" by simp
    with Cons.IH [OF Some] show ?thesis by (auto simp: nth_Cons' gr0_conv_Suc)
  qed
qed simp

lemma iter_min_eq: "iter_min xs = (if xs = [] then None else Some (Min (set xs)))"
  by (cases xs) (simp_all add: Min.set_eq_fold del: list.set)

lemma find_filter: "List.find p xs = (case filter p xs of [] \<Rightarrow> None | x # _ \<Rightarrow> Some x)"
  by (induction xs) auto

lemma find_sort_key: "List.find (\<lambda>x. f x = k) (sort_key f xs) = List.find (\<lambda>x. f x = k) xs"
  by (simp add: find_filter sort_key_stable)

lemma rewind_first:
  "i < length keys \<Longrightarrow> \<exists>j \<le> i. rewind keys i = Ok j \<and> starts_at (keys ! j) = starts_at (keys ! i)
     \<and> (0 < j \<longrightarrow> starts_at (keys ! (j - 1)) \<noteq> starts_at (keys ! j))"
proof (induction i)
  case (Suc i)
  show ?case
  proof (cases "starts_at (keys ! i) = starts_at (keys ! Suc i)")
    case True
    with Suc obtain j where "j \<le> i" "rewind keys i = Ok j"
      "starts_at (keys ! j) = starts_at (keys ! Suc i)"
      "0 < j \<longrightarrow> starts_at (keys ! (j - 1)) \<noteq> starts_at (keys ! j)" by auto
    then show ?thesis using Suc.prems True by (intro exI [of _ j]) simp
  next
    case False
    then show ?thesis using Suc.prems by (intro exI [of _ "Suc i"]) simp
  qed
qed simp

text \<open>In a sorted list, the last key that had started leads back to the first of the latest start.\<close>

lemma key_in_force_sorted:
  assumes "sorted (map starts_at keys)"
  shows "key_in_force \<lparr> schedule_keys = keys \<rparr> at = Ok (chosen keys at)"
proof (cases "rposition (\<lambda>k. starts_at k \<le> at) keys")
  case None
  then have "filter (\<lambda>k. starts_at k \<le> at) keys = []"
    by (simp add: rposition_None filter_empty_conv)
  with None show ?thesis by (simp add: key_in_force_def chosen_def)
next
  case (Some i)
  let ?K = "filter (\<lambda>k. starts_at k \<le> at) keys" and ?s = "\<lambda>i. starts_at (keys ! i)"
  have mono: "?s a \<le> ?s b" if "a \<le> b" "b < length keys" for a b
    using sorted_nth_mono [OF assms that(1)] that by simp
  from rposition_Some [OF Some] have i: "i < length keys" "?s i \<le> at"
    and after: "\<And>j. i < j \<Longrightarrow> j < length keys \<Longrightarrow> \<not> ?s j \<le> at" by auto
  from rewind_first [OF i(1)] obtain j where j: "j \<le> i" "rewind keys i = Ok j" "?s j = ?s i"
    and first: "0 < j \<longrightarrow> ?s (j - 1) \<noteq> ?s j" by auto
  have "keys ! i \<in> set ?K" using i by simp
  moreover have "starts_at k \<le> ?s i" if "k \<in> set ?K" for k
  proof -
    from that obtain l where "l < length keys" "keys ! l = k" "?s l \<le> at"
      by (auto simp: in_set_conv_nth)
    with after [of l] mono [of l i] i(1) show ?thesis by (cases "i < l") auto
  qed
  ultimately have max: "Max (starts_at ` set ?K) = ?s i" and ne: "?K \<noteq> []"
    by (auto intro!: Max_eqI simp del: set_filter)
  have "?s l \<noteq> ?s i" if "l < j" for l
  proof -
    have "?s l \<le> ?s (j - 1)" "?s (j - 1) \<le> ?s j"
      using that j(1) i(1) by (auto intro!: mono)
    with that first j(3) show ?thesis by auto
  qed
  with j(1,3) i(1) have "List.find (\<lambda>k. starts_at k = ?s i) keys = Some (keys ! j)"
    unfolding find_Some_iff by (intro exI [of _ j]) simp
  with Some j i(1) max ne show ?thesis
    by (simp add: key_in_force_def chosen_def Let_def)
qed

lemma chosen_sort: "chosen (sort_key starts_at keys) at = chosen keys at"
  by (simp add: chosen_def Let_def find_sort_key filter_empty_conv)

lemma key_in_force_chosen: "key_in_force (schedule_new keys) at = Ok (chosen keys at)"
  by (simp add: schedule_new_def key_in_force_sorted chosen_sort)

lemma chosen_Some:
  assumes "chosen keys at = Some k"
  shows "k \<in> set keys \<and> starts_at k \<le> at \<and> (\<forall>k' \<in> set keys. starts_at k' \<le> at \<longrightarrow> starts_at k' \<le> starts_at k)
    \<and> List.find (\<lambda>k'. starts_at k' = starts_at k) keys = Some k"
proof -
  let ?K = "filter (\<lambda>k. starts_at k \<le> at) keys"
  from assms have ne: "?K \<noteq> []" and f: "List.find (\<lambda>k'. starts_at k' = Max (starts_at ` set ?K)) keys = Some k"
    by (auto simp: chosen_def Let_def split: if_splits)
  from f have k: "k \<in> set keys" "starts_at k = Max (starts_at ` set ?K)"
    by (auto simp: find_Some_iff)
  have "Max (starts_at ` set ?K) \<in> starts_at ` set ?K"
    using ne by (intro Max_in) (simp_all only: finite_imageI finite_set image_is_empty set_empty simp_thms)
  with k(2) have "starts_at k \<le> at" by auto
  moreover have "starts_at k' \<le> starts_at k" if "k' \<in> set keys" "starts_at k' \<le> at" for k'
    unfolding k(2) using that by (intro Max_ge) auto
  ultimately show ?thesis using k f by simp
qed

lemma chosen_None: "chosen keys at = None \<longleftrightarrow> (\<forall>k \<in> set keys. at < starts_at k)"
proof -
  let ?K = "filter (\<lambda>k. starts_at k \<le> at) keys"
  have found: "List.find (\<lambda>k. starts_at k = Max (starts_at ` set ?K)) keys \<noteq> None" if "?K \<noteq> []"
  proof -
    have "Max (starts_at ` set ?K) \<in> starts_at ` set ?K"
      using that by (intro Max_in) (simp_all only: finite_imageI finite_set image_is_empty set_empty simp_thms)
    then show ?thesis by (auto simp: find_None_iff)
  qed
  show ?thesis
  proof (cases "?K = []")
    case True
    then show ?thesis by (auto simp: chosen_def filter_empty_conv not_le)
  next
    case False
    with found have "chosen keys at \<noteq> None" by (simp add: chosen_def Let_def)
    with False show ?thesis by (auto simp: filter_empty_conv not_le)
  qed
qed

lemma next_start_after_None:
  "next_start_after (schedule_new keys) k = None \<longleftrightarrow> (\<forall>o' \<in> set keys. starts_at o' \<le> starts_at k)"
  by (auto simp: next_start_after_def schedule_new_def iter_min_eq filter_empty_conv not_less)

lemma next_start_after_Some:
  assumes "next_start_after (schedule_new keys) k = Some e"
  shows "starts_at k < e \<and> e \<in> starts_at ` set keys
    \<and> (\<forall>o' \<in> set keys. starts_at k < starts_at o' \<longrightarrow> e \<le> starts_at o')"
proof -
  let ?T = "starts_at ` {o' \<in> set keys. starts_at k < starts_at o'}"
  from assms have e: "e = Min ?T" and ne: "?T \<noteq> {}"
    by (auto simp: next_start_after_def schedule_new_def iter_min_eq filter_empty_conv split: if_splits)
  then have "e \<in> ?T" using Min_in [of ?T] by simp
  moreover have "e \<le> t" if "t \<in> ?T" for t using that by (simp add: e)
  ultimately show ?thesis by auto
qed

text \<open>The moments at which a key is the one chosen are those of its span.\<close>

lemma chosen_span:
  assumes "chosen keys at = Some k"
  shows "chosen keys t = Some k \<longleftrightarrow> starts_at k \<le> t
    \<and> (\<forall>e. next_start_after (schedule_new keys) k = Some e \<longrightarrow> t < e)"
proof (intro iffI conjI allI impI)
  assume t: "chosen keys t = Some k"
  then show "starts_at k \<le> t" using chosen_Some by blast
  fix e assume "next_start_after (schedule_new keys) k = Some e"
  from next_start_after_Some [OF this] chosen_Some [OF t] show "t < e" by (force simp: not_le)
next
  assume t: "starts_at k \<le> t \<and> (\<forall>e. next_start_after (schedule_new keys) k = Some e \<longrightarrow> t < e)"
  note k = chosen_Some [OF assms]
  have "starts_at k' \<le> starts_at k" if "k' \<in> set keys" "starts_at k' \<le> t" for k'
  proof (cases "next_start_after (schedule_new keys) k")
    case None
    with that show ?thesis by (simp add: next_start_after_None)
  next
    case (Some e)
    with t that next_start_after_Some [OF Some] show ?thesis by (meson leD not_less le_less_trans)
  qed
  moreover have "k \<in> set (filter (\<lambda>k. starts_at k \<le> t) keys)" using k t by simp
  ultimately have "Max (starts_at ` set (filter (\<lambda>k. starts_at k \<le> t) keys)) = starts_at k"
    and "filter (\<lambda>k. starts_at k \<le> t) keys \<noteq> []"
    by (auto intro!: Max_eqI simp: filter_empty_conv)
  then show "chosen keys t = Some k" using k by (simp add: chosen_def Let_def)
qed

section \<open>Properties\<close>

lemma chosen_Some_iff:
  "chosen keys at = Some k \<longleftrightarrow>
     (\<exists>i < length keys. keys ! i = k \<and> starts_at k \<le> at
        \<and> (\<forall>j < length keys. starts_at (keys ! j) \<le> at \<longrightarrow>
             starts_at (keys ! j) \<le> starts_at k
             \<and> (starts_at (keys ! j) = starts_at k \<longrightarrow> i \<le> j)))"
proof
  assume "chosen keys at = Some k"
  note k = chosen_Some [OF this]
  then obtain i where "i < length keys" "keys ! i = k" "\<forall>j < i. starts_at (keys ! j) \<noteq> starts_at k"
    by (auto simp: find_Some_iff)
  with k show "\<exists>i < length keys. keys ! i = k \<and> starts_at k \<le> at
        \<and> (\<forall>j < length keys. starts_at (keys ! j) \<le> at \<longrightarrow>
             starts_at (keys ! j) \<le> starts_at k
             \<and> (starts_at (keys ! j) = starts_at k \<longrightarrow> i \<le> j))"
    by (intro exI [of _ i]) (auto simp: not_le [symmetric])
next
  assume "\<exists>i < length keys. keys ! i = k \<and> starts_at k \<le> at
        \<and> (\<forall>j < length keys. starts_at (keys ! j) \<le> at \<longrightarrow>
             starts_at (keys ! j) \<le> starts_at k
             \<and> (starts_at (keys ! j) = starts_at k \<longrightarrow> i \<le> j))"
  then obtain i where i: "i < length keys" "keys ! i = k" "starts_at k \<le> at"
    and le: "\<And>j. j < length keys \<Longrightarrow> starts_at (keys ! j) \<le> at \<Longrightarrow> starts_at (keys ! j) \<le> starts_at k"
    and first: "\<And>j. j < length keys \<Longrightarrow> starts_at (keys ! j) = starts_at k \<Longrightarrow> i \<le> j" by auto
  have k: "k \<in> set (filter (\<lambda>k. starts_at k \<le> at) keys)" using i by auto
  then have "filter (\<lambda>k. starts_at k \<le> at) keys \<noteq> []" by (metis empty_iff list.set(1))
  moreover from k have "Max (starts_at ` set (filter (\<lambda>k. starts_at k \<le> at) keys)) = starts_at k"
    using le by (auto intro!: Max_eqI simp: in_set_conv_nth [where xs = keys])
  moreover have "List.find (\<lambda>k'. starts_at k' = starts_at k) keys = Some k"
    unfolding find_Some_iff using i first by (intro exI [of _ i]) (meson leD less_trans)
  ultimately show "chosen keys at = Some k" by (simp add: chosen_def Let_def)
qed

text \<open>C18: The key in force is the one the schedule's rule names, whatever the order the keys
  were supplied in: of the keys that had started, one of the latest start, and of those the
  one supplied first. There is none exactly when the schedule begins after the moment, and
  no index runs out of range.\<close>

theorem key_in_force_is_first_of_latest:
  "key_in_force (schedule_new keys) at \<noteq> Panic
   \<and> (key_in_force (schedule_new keys) at = Ok None \<longleftrightarrow> (\<forall>k \<in> set keys. at < starts_at k))
   \<and> (key_in_force (schedule_new keys) at = Ok (Some k) \<longleftrightarrow>
        (\<exists>i < length keys. keys ! i = k \<and> starts_at k \<le> at
           \<and> (\<forall>j < length keys. starts_at (keys ! j) \<le> at \<longrightarrow>
                starts_at (keys ! j) \<le> starts_at k
                \<and> (starts_at (keys ! j) = starts_at k \<longrightarrow> i \<le> j))))"
  unfolding key_in_force_chosen res.inject chosen_None chosen_Some_iff by simp

definition tied_keys :: "nat dated_public_key list" where
  "tied_keys = [dated_public_key_new 7 [2], dated_public_key_new 3 [1], dated_public_key_new 3 [4]]"

theorem key_in_force_is_first_of_latest_witness:
  "key_in_force (schedule_new tied_keys) 6 = Ok (Some (dated_public_key_new 3 [1]))
   \<and> key_in_force (schedule_new tied_keys) 2 = Ok None"
proof -
  have "\<exists>i < length tied_keys. tied_keys ! i = dated_public_key_new 3 [1]
     \<and> (\<forall>j < length tied_keys. starts_at (tied_keys ! j) \<le> 6 \<longrightarrow> starts_at (tied_keys ! j) \<le> 3
          \<and> (starts_at (tied_keys ! j) = 3 \<longrightarrow> i \<le> j))"
    by (rule exI [of _ 1]) (auto simp: tied_keys_def dated_public_key_new_def nth_Cons split: nat.splits)
  then show ?thesis
    using key_in_force_is_first_of_latest [of tied_keys 6 "dated_public_key_new 3 [1]"]
      key_in_force_is_first_of_latest [of tied_keys 2]
    by (simp add: dated_public_key_new_def) (simp add: tied_keys_def dated_public_key_new_def)
qed

text \<open>C19: The span stated for a key is exactly when it is in force: from its start up to, and
  not including, the next start in the schedule, and at no other moment.\<close>

theorem key_span_is_exact:
  assumes "key_in_force (schedule_new keys) at = Ok (Some k)"
  shows "key_in_force (schedule_new keys) t = Ok (Some k) \<longleftrightarrow> starts_at k \<le> t
    \<and> (\<forall>e. next_start_after (schedule_new keys) k = Some e \<longrightarrow> t < e)"
  using assms chosen_span [of keys at k t] by (simp add: key_in_force_chosen)

definition sample_keys :: "nat dated_public_key list" where
  "sample_keys = [dated_public_key_new 7 [2], dated_public_key_new 3 [1]]"

theorem key_span_is_exact_witness:
  "key_in_force (schedule_new sample_keys) 6 = Ok (Some (dated_public_key_new 3 [1]))"
proof -
  have "key_in_force (schedule_new sample_keys) 3 = Ok (Some (dated_public_key_new 3 [1]))"
    by (simp add: key_in_force_chosen chosen_def sample_keys_def dated_public_key_new_def)
  from key_span_is_exact [OF this, of 6] show ?thesis
    unfolding next_start_after_def schedule_new_def
    by (simp add: sample_keys_def dated_public_key_new_def)
qed

end
