(* ===== verification/KeyAnswer.thy ===== *)
theory KeyAnswer
  imports Crypto
begin

text \<open>
  The JSON body of the public key end point (src/src/key_answer.rs): the record
  \<open>PublicKeyAnswer\<close>, its checks, its writer, and the reader of a flat JSON object. Characters
  are their code points: 34 is the quote, 92 the backslash, 123 and 125 the braces, 58 the
  colon, 44 the comma. An index or a slice out of range is \<open>Panic\<close>.
\<close>

section \<open>The answer\<close>

record 't published_answer =
  answer_format :: str
  answer_public_key :: str
  valid_from :: "'t option"
  valid_to :: "'t option"

definition SPKI_FORMAT :: str where
  "SPKI_FORMAT = lit ''spki''"

definition published_answer_new ::
    "str \<Rightarrow> 't option \<Rightarrow> 't option \<Rightarrow> 't published_answer" where
  "published_answer_new public_key from to =
     \<lparr> answer_format = SPKI_FORMAT, answer_public_key = public_key,
       valid_from = from, valid_to = to \<rparr>"

definition check_span :: "('t :: linorder) published_answer \<Rightarrow> (unit, error) res" where
  "check_span a =
     (case valid_to a of
        None \<Rightarrow> Ok ()
      | Some to \<Rightarrow>
          (case valid_from a of
             None \<Rightarrow> Err (Key (lit ''the public key answer states when the key ends but not when it started''))
           | Some from \<Rightarrow>
               if to \<le> from
               then Err (Key (lit ''the public key answer states a key that ends before it starts''))
               else Ok ()))"

definition check_asked ::
    "('t :: linorder) published_answer \<Rightarrow> 't option \<Rightarrow> (unit, error) res" where
  "check_asked a asked =
     (case asked of
        None \<Rightarrow> Ok ()
      | Some asked \<Rightarrow>
          if (case valid_from a of Some from \<Rightarrow> asked < from | None \<Rightarrow> False)
          then Err (Key (lit ''the public key answer states a key that had not started at the moment asked about''))
          else if (case valid_to a of Some to \<Rightarrow> to \<le> asked | None \<Rightarrow> False)
          then Err (Key (lit ''the public key answer states a key that had ended at the moment asked about''))
          else Ok ())"

definition validate ::
    "('sk, 'vk, 'sg) p256 \<Rightarrow> ('t :: linorder) published_answer \<Rightarrow> 't option \<Rightarrow> (unit, error) res" where
  "validate E a asked =
     (if answer_format a \<noteq> SPKI_FORMAT
      then Err (Key (lit ''the public key answer states a format this crate does not read''))
      else if trim (answer_public_key a) = []
      then Err (Key (lit ''the public key answer holds no key''))
      else bind_res
        (map_err (\<lambda>_. Key (lit ''the public key answer holds a key that cannot be read''))
          (new_verify_only E (answer_public_key a))) (\<lambda>_.
      bind_res (check_span a) (\<lambda>_. check_asked a asked)))"

section \<open>Writing\<close>

definition escape :: "nat \<Rightarrow> str" where
  "escape c =
     (if c = 34 then [92, 34]
      else if c = 92 then [92, 92]
      else if c = 10 then [92, 110]
      else if c = 13 then [92, 114]
      else if c = 9 then [92, 116]
      else if c < 0x20 then [92, 117] @ hex_padded 4 c
      else [c])"

definition write_string :: "str \<Rightarrow> str \<Rightarrow> str" where
  "write_string json v = json @ [34] @ concat (map escape v) @ [34]"

definition write_moment :: "'t chrono \<Rightarrow> str \<Rightarrow> 't option \<Rightarrow> str" where
  "write_moment C json moment =
     (case moment of
        None \<Rightarrow> json @ lit ''null''
      | Some m \<Rightarrow> write_string json (to_rfc3339 C m))"

definition to_json :: "'t chrono \<Rightarrow> 't published_answer \<Rightarrow> str" where
  "to_json C a =
     (let json = [123, 34] @ lit ''format'' @ [34, 58];
          json = write_string json (answer_format a);
          json = json @ [44, 34] @ lit ''publicKey'' @ [34, 58];
          json = write_string json (answer_public_key a);
          json = json @ [44, 34] @ lit ''validFrom'' @ [34, 58];
          json = write_moment C json (valid_from a);
          json = json @ [44, 34] @ lit ''validTo'' @ [34, 58];
          json = write_moment C json (valid_to a)
      in json @ [125])"

section \<open>Reading\<close>

definition not_json :: error where
  "not_json = Key (lit ''the public key answer is not the JSON object of four fields the specification requires'')"

function skip_space :: "str \<Rightarrow> nat \<Rightarrow> nat" where
  "skip_space chars at =
     (if at < length chars \<and> is_whitespace (chars ! at) then skip_space chars (at + 1) else at)"
  by pat_completeness auto

termination
  by (relation "measure (\<lambda>(chars, at). length chars - at)") auto

declare skip_space.simps [simp del]

lemma skip_space_bounds:
  "at \<le> skip_space chars at \<and> (at \<le> length chars \<longrightarrow> skip_space chars at \<le> length chars)"
proof (induction chars at rule: skip_space.induct)
  case (1 chars at)
  then show ?case by (cases "at < length chars \<and> is_whitespace (chars ! at)")
      (auto simp: skip_space.simps [of chars at])
qed

text \<open>The escapes of one character each.\<close>

definition plain_escape :: "nat \<Rightarrow> nat option" where
  "plain_escape c =
     (if c = 34 \<or> c = 92 \<or> c = 47 then Some c
      else if c = 98 then Some 8
      else if c = 102 then Some 12
      else if c = 110 then Some 10
      else if c = 114 then Some 13
      else if c = 116 then Some 9
      else None)"

text \<open>The loop of \<open>read_string\<close>, from the character after the opening quote.\<close>

function read_chars :: "str \<Rightarrow> nat \<Rightarrow> str \<Rightarrow> (str \<times> nat, error) res" where
  "read_chars chars at v =
     (if \<not> at < length chars then Err not_json
      else bind_res (index chars at) (\<lambda>c.
      if c = 34 then Ok (v, at + 1)
      else if c \<noteq> 92 then read_chars chars (at + 1) (v @ [c])
      else bind_res (ok_or (get chars (at + 1)) not_json) (\<lambda>escaped.
      case plain_escape escaped of
        Some p \<Rightarrow> read_chars chars (at + 2) (v @ [p])
      | None \<Rightarrow>
          if escaped = 117 then
            if at + 2 + 4 > length chars then Err not_json
            else bind_res (subslice chars (at + 2) (at + 2 + 4)) (\<lambda>code.
                 bind_res (ok_or (from_str_radix 16 code) not_json) (\<lambda>code.
                 bind_res (ok_or (char_from_u32 code) not_json) (\<lambda>p.
                 read_chars chars (at + 2 + 4) (v @ [p]))))
          else Err not_json)))"
  by pat_completeness auto

termination
  by (relation "measure (\<lambda>(chars, at, v). length chars - at)") auto

declare read_chars.simps [simp del]

definition read_string :: "str \<Rightarrow> nat \<Rightarrow> (str \<times> nat, error) res" where
  "read_string chars at =
     (if get chars at \<noteq> Some 34 then Err not_json else read_chars chars (at + 1) [])"

text \<open>Every turn of the loop starts further on.\<close>

lemma forward_induct [consumes 0, case_names step]:
  fixes chars :: str
  assumes "\<And>at v. (\<And>at' v'. at < at' \<Longrightarrow> at < length chars \<Longrightarrow> P at' v') \<Longrightarrow> P at v"
  shows "P at v"
proof (induction "length chars - at" arbitrary: at v rule: less_induct)
  case less
  show ?case by (rule assms) (auto intro: less)
qed

lemma read_chars_progress:
  "read_chars chars at v = Ok (s, n) \<Longrightarrow> at < n \<and> n \<le> length chars"
proof (induction at v rule: forward_induct [of chars])
  case (step at v)
  have IH: "at < at' \<Longrightarrow> at < length chars \<Longrightarrow> read_chars chars at' v' = Ok (s, n)
      \<Longrightarrow> at < n \<and> n \<le> length chars" for at' v'
    using step.IH [of at' v'] by simp
  from step.prems show ?case
    by (subst (asm) read_chars.simps)
      (auto simp: bind_res_Ok_iff split: if_splits option.splits dest: IH [rotated 2])
qed

lemma read_chars_total: "read_chars chars at v \<noteq> Panic"
proof (induction at v rule: forward_induct [of chars])
  case (step at v)
  then show ?case
    by (subst read_chars.simps) (auto simp: bind_res_Panic_iff get_def split: option.splits)
qed

lemma read_chars_Err: "read_chars chars at v = Err e \<Longrightarrow> e = not_json"
proof (induction at v rule: forward_induct [of chars])
  case (step at v)
  from step.prems show ?case
    by (subst (asm) read_chars.simps)
      (auto simp: bind_res_Err_iff split: if_splits option.splits dest: step.IH [rotated 2])
qed

lemma read_string_progress:
  "read_string chars at = Ok (s, n) \<Longrightarrow> at < n \<and> n \<le> length chars"
  using read_chars_progress [of chars "at + 1" "[]" s n] by (auto simp: read_string_def split: if_splits)

lemma read_string_total: "read_string chars at \<noteq> Panic"
  by (simp add: read_string_def read_chars_total)

lemma read_string_Err: "read_string chars at = Err e \<Longrightarrow> e = not_json"
  by (auto simp: read_string_def read_chars_Err split: if_splits)

text \<open>The loop over the fields, from the start of one, and the object around them.\<close>

lemma field_progress:
  assumes "read_string chars (skip_space chars at) = Ok (name, nx)"
    and "(if take 4 tail = lit ''null'' then Ok (None, skip_space chars (skip_space chars nx + 1) + 4)
      else bind_res (read_string chars (skip_space chars (skip_space chars nx + 1)))
        (\<lambda>(v, nx). Ok (Some v, nx))) = Ok (v, at3)"
    and "get chars (skip_space chars at3) = Some c"
  shows "at < length chars \<and> length chars - (skip_space chars at3 + 1) < length chars - at"
proof -
  let ?at2 = "skip_space chars (skip_space chars nx + 1)"
  have "skip_space chars at < nx" using assms(1) read_string_progress by blast
  moreover have "?at2 < at3"
    using assms(2) read_string_progress by (auto simp: bind_res_Ok_iff split: if_splits)
  moreover have "skip_space chars at3 < length chars"
    using assms(3) by (auto simp: get_def split: if_splits)
  ultimately show ?thesis
    using skip_space_bounds [of at chars] skip_space_bounds [of nx chars]
      skip_space_bounds [of "skip_space chars nx + 1" chars] skip_space_bounds [of at3 chars]
    by linarith
qed

function read_fields ::
    "str \<Rightarrow> nat \<Rightarrow> (str \<times> str option) list \<Rightarrow> ((str \<times> str option) list \<times> nat, error) res" where
  "read_fields chars at fs =
     bind_res (read_string chars (skip_space chars at)) (\<lambda>(name, next).
     let at1 = skip_space chars next in
     if get chars at1 \<noteq> Some 58 then Err not_json
     else
     let at2 = skip_space chars (at1 + 1) in
     bind_res (slice_from chars at2) (\<lambda>tail.
     bind_res
       (if take 4 tail = lit ''null'' then Ok (None, at2 + 4)
        else bind_res (read_string chars at2) (\<lambda>(v, next). Ok (Some v, next))) (\<lambda>(v, at3).
     let fs = fs @ [(name, v)]; at4 = skip_space chars at3 in
     if get chars at4 = Some 125 then Ok (fs, at4 + 1)
     else if get chars at4 = Some 44 then read_fields chars (at4 + 1) fs
     else Err not_json)))"
  by pat_completeness auto

termination
proof (relation "measure (\<lambda>(chars, at, fs). length chars - at)", goal_cases)
  case (2 chars at fs x name nx at1 at2 tail y v at3 gs at4)
  have "length chars - (skip_space chars at3 + 1) < length chars - at"
    by (rule field_progress [THEN conjunct2, of chars at name nx tail v at3 44]) (use 2 in auto)
  then show ?case using 2 by simp
qed auto

declare read_fields.simps [simp del]

definition read_flat_object :: "str \<Rightarrow> ((str \<times> str option) list, error) res" where
  "read_flat_object chars =
     (let at = skip_space chars 0 in
      if get chars at \<noteq> Some 123 then Err not_json
      else
      let at = skip_space chars (at + 1) in
      if get chars at = Some 125
      then (if skip_space chars (at + 1) = length chars then Ok [] else Err not_json)
      else bind_res (read_fields chars at []) (\<lambda>(fs, at).
      if skip_space chars at \<noteq> length chars then Err not_json else Ok fs))"

definition moment ::
    "'t chrono \<Rightarrow> str option \<Rightarrow> str \<Rightarrow> ('t option, error) res" where
  "moment C v field =
     (case v of
        None \<Rightarrow> Ok None
      | Some v \<Rightarrow>
          (case parse_from_rfc3339 C v of
             Some m \<Rightarrow> Ok (Some m)
           | None \<Rightarrow> Err (Key (lit ''the public key answer's '' @ field
                               @ lit '' is not a moment in UTC''))))"

text \<open>The first field of a name, \<open>None\<close> where there is none or it is \<open>null\<close>.\<close>

definition field_of :: "(str \<times> str option) list \<Rightarrow> str \<Rightarrow> str option" where
  "field_of fs name =
     Option.bind (List.find (\<lambda>(key, _). key = name) fs) (\<lambda>(_, v). v)"

definition parse_answer :: "'t chrono \<Rightarrow> str \<Rightarrow> ('t published_answer, error) res" where
  "parse_answer C json =
     bind_res (read_flat_object json) (\<lambda>fs.
     bind_res (moment C (field_of fs (lit ''validFrom'')) (lit ''validFrom'')) (\<lambda>from.
     bind_res (moment C (field_of fs (lit ''validTo'')) (lit ''validTo'')) (\<lambda>to.
     Ok \<lparr> answer_format = (case field_of fs (lit ''format'') of Some f \<Rightarrow> f | None \<Rightarrow> SPKI_FORMAT),
          answer_public_key = (case field_of fs (lit ''publicKey'') of Some k \<Rightarrow> k | None \<Rightarrow> []),
          valid_from = from, valid_to = to \<rparr>)))"

section \<open>Round trip\<close>

lemma get_here [simp]: "get (pre @ c # rest) (length pre) = Some c"
  by (simp add: get_def)

lemma skip_space_here:
  "\<not> is_whitespace c \<Longrightarrow> skip_space (pre @ c # rest) (length pre) = length pre"
  by (simp add: skip_space.simps)

lemma skip_space_end: "skip_space chars (length chars) = length chars"
  by (simp add: skip_space.simps)

lemma control_code:
  assumes "c < 32"
  shows "length (hex_padded 4 c) = 4" "from_str_radix 16 (hex_padded 4 c) = Some (of_nat c)"
    "char_from_u32 (of_nat c) = Some c"
proof -
  obtain a b where ab: "a < 2" "b < 16" "c = a * 16 + b"
    using assms that [of "c div 16" "c mod 16"] by auto
  have zero: "to_digit 16 48 = Some 0" by (simp add: to_digit_def)
  have pad: "hex_padded 4 c = [48, 48, hex_digit a, hex_digit b]"
  proof (cases "a = 0")
    case True
    with ab have "hex c = [hex_digit b]" by (subst hex.simps) simp
    then show ?thesis by (simp add: hex_padded_def True hex_digit_def numeral_eq_Suc)
  next
    case False
    with ab have "a = 1" "c div 16 = a" "c mod 16 = b" by auto
    moreover from this have "hex a = [hex_digit a]" by (subst hex.simps) simp
    ultimately have "hex c = [hex_digit a, hex_digit b]"
      using ab by (subst hex.simps) simp
    then show ?thesis by (simp add: hex_padded_def numeral_eq_Suc)
  qed
  then show "length (hex_padded 4 c) = 4" by simp
  show "from_str_radix 16 (hex_padded 4 c) = Some (of_nat c)"
    unfolding pad using ab
    by (simp add: from_str_radix_def lit_def zero del: of_nat_add of_nat_mult)
  have "unat (of_nat c :: u32) = c" using assms by (simp add: unat_of_nat)
  then show "char_from_u32 (of_nat c) = Some c"
    using assms by (simp add: char_from_u32_def scalar_def)
qed

lemma read_chars_escape:
  "read_chars (pre @ escape c @ rest) (length pre) v
   = read_chars (pre @ escape c @ rest) (length pre + length (escape c)) (v @ [c])"
proof -
  have two: "get (pre @ 92 # e # rest') (Suc (length pre)) = Some e" for e rest'
    by (simp add: get_def nth_append)
  consider "c = 34" | "c = 92" | "c = 10" | "c = 13" | "c = 9"
    | "c < 32" "c \<notin> {9, 10, 13}" | "c \<ge> 32" "c \<noteq> 34" "c \<noteq> 92" by force
  then show ?thesis
  proof cases
    case 6
    then have e: "escape c = 92 # 117 # hex_padded 4 c" by (simp add: escape_def)
    from control_code [OF 6(1)] show ?thesis
      unfolding e by (subst read_chars.simps) (simp add: two plain_escape_def add.commute)
  qed (subst read_chars.simps, simp add: escape_def plain_escape_def two)+
qed

lemma read_chars_enc:
  "read_chars (pre @ concat (map escape v) @ 34 # rest) (length pre) acc
   = Ok (acc @ v, length pre + length (concat (map escape v)) + 1)"
proof (induction v arbitrary: pre acc)
  case Nil
  show ?case by (subst read_chars.simps) simp
next
  case (Cons c v)
  have "read_chars (pre @ escape c @ (concat (map escape v) @ 34 # rest)) (length pre) acc
      = read_chars ((pre @ escape c) @ concat (map escape v) @ 34 # rest)
          (length (pre @ escape c)) (acc @ [c])"
    by (subst read_chars_escape) simp
  also have "\<dots> = Ok ((acc @ [c]) @ v,
      length (pre @ escape c) + length (concat (map escape v)) + 1)" by (rule Cons.IH)
  finally show ?case by simp
qed

definition enc_string :: "str \<Rightarrow> str" where
  "enc_string v = 34 # concat (map escape v) @ [34]"

lemma write_string_enc: "write_string json v = json @ enc_string v"
  by (simp add: write_string_def enc_string_def)

lemma read_string_enc:
  "read_string (pre @ enc_string v @ rest) (length pre) = Ok (v, length (pre @ enc_string v))"
  using read_chars_enc [of "pre @ [34]" v rest "[]"]
  by (simp add: read_string_def enc_string_def)

definition enc_value :: "str option \<Rightarrow> str" where
  "enc_value v = (case v of None \<Rightarrow> lit ''null'' | Some v \<Rightarrow> enc_string v)"

definition enc_field :: "str \<times> str option \<Rightarrow> str" where
  "enc_field f = enc_string (fst f) @ 58 # enc_value (snd f)"

lemma enc_value_head: "\<exists>c cs. enc_value v = c # cs \<and> \<not> is_whitespace c"
  by (auto simp: enc_value_def enc_string_def lit_def is_whitespace_def split: option.splits)

lemma read_fields_enc:
  assumes "c = 44 \<or> c = 125"
  shows "read_fields (pre @ enc_field f @ c # rest) (length pre) fs =
    (if c = 125 then Ok (fs @ [f], length (pre @ enc_field f @ [c]))
     else read_fields (pre @ enc_field f @ c # rest) (length (pre @ enc_field f @ [c])) (fs @ [f]))"
proof -
  obtain n v where f: "f = (n, v)" by (cases f)
  let ?p1 = "pre @ enc_string n" and ?p2 = "pre @ enc_string n @ [58]"
  let ?p3 = "pre @ enc_string n @ 58 # enc_value v"
  define chars where "chars = pre @ enc_field f @ c # rest"
  have c0: "chars = pre @ 34 # (concat (map escape n) @ 34 # 58 # enc_value v @ c # rest)"
    and c1: "chars = pre @ enc_string n @ (58 # enc_value v @ c # rest)"
    and c2: "chars = ?p1 @ 58 # (enc_value v @ c # rest)"
    and c3: "chars = ?p2 @ enc_value v @ c # rest" and c4: "chars = ?p3 @ c # rest"
    by (simp_all add: chars_def f enc_field_def enc_string_def)
  have s0: "skip_space chars (length pre) = length pre"
    unfolding c0 by (rule skip_space_here) (simp add: is_whitespace_def)
  have r0: "read_string chars (length pre) = Ok (n, length ?p1)"
    unfolding c1 by (rule read_string_enc)
  have s1: "skip_space chars (length ?p1) = length ?p1"
    unfolding c2 by (rule skip_space_here) (simp add: is_whitespace_def)
  have g1: "get chars (length ?p1) = Some 58" unfolding c2 by (rule get_here)
  have s2: "skip_space chars (length ?p1 + 1) = length ?p2"
  proof -
    obtain h hs where "enc_value v = h # hs" "\<not> is_whitespace h" using enc_value_head by blast
    then have "skip_space chars (length ?p2) = length ?p2"
      unfolding c3 using skip_space_here [of h ?p2 "hs @ c # rest"] by simp
    then show ?thesis by simp
  qed
  have t2: "slice_from chars (length ?p2) = Ok (enc_value v @ c # rest)"
    unfolding c3 by (simp add: slice_from_def)
  have val: "(if take 4 (enc_value v @ c # rest) = lit ''null'' then Ok (None, length ?p2 + 4)
      else bind_res (read_string chars (length ?p2)) (\<lambda>(v, nx). Ok (Some v, nx)))
      = Ok (v, length ?p3)"
  proof (cases v)
    case None
    then show ?thesis by (simp add: enc_value_def lit_def)
  next
    case (Some w)
    have "read_string chars (length ?p2) = Ok (w, length (?p2 @ enc_string w))"
      unfolding c3 using read_string_enc [of ?p2 w "c # rest"] by (simp add: Some enc_value_def)
    moreover have "take 4 (enc_value v @ c # rest) \<noteq> lit ''null''"
      by (simp add: Some enc_value_def enc_string_def lit_def)
    ultimately show ?thesis by (simp add: Some enc_value_def)
  qed
  have s4: "skip_space chars (length ?p3) = length ?p3"
    unfolding c4 using assms by (intro skip_space_here) (auto simp: is_whitespace_def)
  have g4: "get chars (length ?p3) = Some c" unfolding c4 by (rule get_here)
  have len: "length (pre @ enc_field f @ [c]) = length ?p3 + 1" by (simp add: f enc_field_def)
  show ?thesis
    unfolding chars_def [symmetric] len
    using assms by (subst read_fields.simps)
      (simp only: s0 r0 bind_res.simps prod.case Let_def s1 g1 s2 t2 val s4 g4
        option.inject if_True if_False simp_thms f, auto)
qed

text \<open>An object of at least one field, with nothing between its tokens.\<close>

fun enc_fields_tail :: "(str \<times> str option) list \<Rightarrow> str" where
  "enc_fields_tail [] = [125]"
| "enc_fields_tail (f # fs) = 44 # enc_field f @ enc_fields_tail fs"

lemma read_fields_list:
  "read_fields (pre @ enc_field f @ enc_fields_tail fs) (length pre) acc
   = Ok (acc @ f # fs, length (pre @ enc_field f @ enc_fields_tail fs))"
proof (induction fs arbitrary: pre f acc)
  case Nil
  show ?case using read_fields_enc [of 125 pre f "[]" acc] by simp
next
  case (Cons g gs)
  let ?pre = "pre @ enc_field f @ [44]"
  have "read_fields (pre @ enc_field f @ 44 # (enc_field g @ enc_fields_tail gs)) (length pre) acc
      = read_fields (?pre @ enc_field g @ enc_fields_tail gs) (length ?pre) (acc @ [f])"
    by (subst read_fields_enc) simp_all
  also have "\<dots> = Ok ((acc @ [f]) @ g # gs, length (?pre @ enc_field g @ enc_fields_tail gs))"
    by (rule Cons.IH)
  finally show ?case by simp
qed

lemma read_flat_object_enc:
  "read_flat_object (123 # enc_field f @ enc_fields_tail fs) = Ok (f # fs)"
proof -
  let ?j = "123 # enc_field f @ enc_fields_tail fs"
  have j: "?j = [123] @ 34 # (tl (enc_field f) @ enc_fields_tail fs)"
    by (simp add: enc_field_def enc_string_def)
  have "skip_space ?j 0 = 0" "get ?j 0 = Some 123"
    using skip_space_here [of 123 "[]"] by (simp_all add: is_whitespace_def get_def)
  moreover have "skip_space ?j (length [123 :: nat]) = length [123 :: nat]" "get ?j (length [123 :: nat]) = Some 34"
    unfolding j by (rule skip_space_here get_here; simp add: is_whitespace_def)+
  moreover have "read_fields ([123] @ enc_field f @ enc_fields_tail fs) (length [123 :: nat]) []
      = Ok ([] @ f # fs, length ([123] @ enc_field f @ enc_fields_tail fs))"
    by (rule read_fields_list)
  ultimately show ?thesis
    using skip_space_end [of ?j] by (simp add: read_flat_object_def)
qed

text \<open>The answer as it is written.\<close>

lemma to_json_enc:
  "to_json C a = 123 # enc_field (lit ''format'', Some (answer_format a))
     @ enc_fields_tail [(lit ''publicKey'', Some (answer_public_key a)),
         (lit ''validFrom'', map_option (to_rfc3339 C) (valid_from a)),
         (lit ''validTo'', map_option (to_rfc3339 C) (valid_to a))]"
proof -
  have name: "34 # lit n @ [34] = enc_string (lit n)"
    if "n \<in> {''format'', ''publicKey'', ''validFrom'', ''validTo''}" for n
    using that by (auto simp: enc_string_def lit_def escape_def)
  have wm: "write_moment C json m = json @ enc_value (map_option (to_rfc3339 C) m)" for json m
    by (cases m) (simp_all add: write_moment_def write_string_enc enc_value_def)
  show ?thesis
    by (simp add: to_json_def Let_def write_string_enc wm enc_field_def enc_value_def
        name [symmetric])
qed

lemma read_to_json:
  "read_flat_object (to_json C a) =
     Ok [(lit ''format'', Some (answer_format a)), (lit ''publicKey'', Some (answer_public_key a)),
         (lit ''validFrom'', map_option (to_rfc3339 C) (valid_from a)),
         (lit ''validTo'', map_option (to_rfc3339 C) (valid_to a))]"
  by (simp only: to_json_enc read_flat_object_enc)

lemma answer_json:
  assumes "rfc3339_ok C whole"
    and "\<forall>m. valid_from a = Some m \<or> valid_to a = Some m \<longrightarrow> whole m"
  shows "parse_answer C (to_json C a) = Ok a"
proof -
  have "moment C (map_option (to_rfc3339 C) m) field = Ok m"
    if "m = valid_from a \<or> m = valid_to a" for m field
    using that assms by (auto simp: moment_def rfc3339_ok_def split: option.splits)
  then show ?thesis
    by (simp add: parse_answer_def read_to_json field_of_def lit_def)
qed

section \<open>Totality and the checks\<close>

lemma read_fields_total:
  "read_fields chars at gs \<noteq> Panic \<and> (\<forall>e. read_fields chars at gs = Err e \<longrightarrow> e = not_json)"
proof (induction "length chars - at" arbitrary: at gs rule: less_induct)
  case less
  show ?case
  proof (cases "read_string chars (skip_space chars at)")
    case (Ok r)
    obtain name nx where r: "r = (name, nx)" by (cases r)
    let ?at1 = "skip_space chars nx" and ?at2 = "skip_space chars (skip_space chars nx + 1)"
    show ?thesis
    proof (cases "get chars ?at1 = Some 58")
      case True
      then have "?at1 + 1 \<le> length chars" by (auto simp: get_def split: if_splits)
      with skip_space_bounds [of "?at1 + 1" chars]
      have tail: "slice_from chars ?at2 = Ok (drop ?at2 chars)" by simp
      define val where "val = (if take 4 (drop ?at2 chars) = lit ''null'' then Ok (None, ?at2 + 4)
        else bind_res (read_string chars ?at2) (\<lambda>(v, nx). Ok (Some v, nx)))"
      have rec: "read_fields chars (skip_space chars at3 + 1) hs \<noteq> Panic
          \<and> (\<forall>e. read_fields chars (skip_space chars at3 + 1) hs = Err e \<longrightarrow> e = not_json)"
        if "val = Ok (v, at3)" "get chars (skip_space chars at3) = Some c" for v at3 c hs
        using field_progress [OF Ok [unfolded r] that(1) [unfolded val_def] that(2)]
        by (intro less) simp
      have "val \<noteq> Panic" "val = Err e \<Longrightarrow> e = not_json" for e
        by (auto simp: val_def bind_res_Panic_iff bind_res_Err_iff read_string_total
            dest: read_string_Err split: if_splits)
      then show ?thesis
        by (subst (1 2) read_fields.simps)
          (cases val; auto simp: Ok r True tail Let_def val_def [symmetric]
            rec [THEN conjunct1] simp del: One_nat_def add_Suc_right
            dest: rec [THEN conjunct2, rule_format] split: if_splits)
    next
      case False
      then show ?thesis by (simp add: read_fields.simps [of chars at] Ok r Let_def)
    qed
  qed (auto simp: read_fields.simps [of chars at] read_string_total dest: read_string_Err)
qed

lemma read_flat_object_total:
  "read_flat_object json \<noteq> Panic" "read_flat_object json = Err e \<Longrightarrow> e = not_json"
  using read_fields_total [of json]
  by (auto simp: read_flat_object_def Let_def bind_res_Panic_iff bind_res_Err_iff split: if_splits)

lemma moment_total:
  "moment C v field \<noteq> Panic" "moment C v field = Err e \<Longrightarrow> \<exists>m. e = Key m"
  by (auto simp: moment_def split: option.splits)

lemma parse_answer_total: "parse_answer C json \<noteq> Panic"
  by (auto simp: parse_answer_def bind_res_Panic_iff read_flat_object_total moment_total)

lemma parse_answer_Err: "parse_answer C json = Err e \<Longrightarrow> \<exists>m. e = Key m"
  by (auto simp: parse_answer_def bind_res_Err_iff not_json_def
      dest!: read_flat_object_total(2) moment_total(2))

lemma check_span_cases:
  "check_span a = Ok () \<longleftrightarrow>
     (\<forall>to. valid_to a = Some to \<longrightarrow> (\<exists>from. valid_from a = Some from \<and> from < to))"
  "check_span a \<noteq> Panic" "check_span a = Err e \<Longrightarrow> \<exists>m. e = Key m"
  by (auto simp: check_span_def split: option.splits if_splits)

lemma check_asked_cases:
  "check_asked a asked = Ok () \<longleftrightarrow>
     (\<forall>t. asked = Some t \<longrightarrow> (\<forall>from. valid_from a = Some from \<longrightarrow> from \<le> t)
                          \<and> (\<forall>to. valid_to a = Some to \<longrightarrow> t < to))"
  "check_asked a asked \<noteq> Panic" "check_asked a asked = Err e \<Longrightarrow> \<exists>m. e = Key m"
  by (auto simp: check_asked_def not_le not_less split: option.splits if_splits)

lemma readable_key:
  "(\<exists>c. new_verify_only E k = Ok c) \<longleftrightarrow> trim k \<noteq> [] \<and> (\<exists>v. from_public_key_pem E k = Inr v)"
  "new_verify_only E k \<noteq> Panic"
  by (auto simp: new_verify_only_def bind_res_Ok_iff bind_res_Panic_iff)

lemma validate_Ok:
  "validate E a asked = Ok () \<longleftrightarrow>
     answer_format a = SPKI_FORMAT
     \<and> (\<exists>c. new_verify_only E (answer_public_key a) = Ok c)
     \<and> check_span a = Ok () \<and> check_asked a asked = Ok ()"
  using readable_key(1) [of E "answer_public_key a"]
  by (auto simp: validate_def bind_res_Ok_iff simp del: trim_eq_Nil)

lemma validate_total: "validate E a asked \<noteq> Panic"
  using readable_key(2) [of E "answer_public_key a"]
  by (auto simp: validate_def bind_res_Panic_iff check_span_cases(2) check_asked_cases(2)
      simp del: trim_eq_Nil)

lemma validate_Err: "validate E a asked = Err e \<Longrightarrow> \<exists>m. e = Key m"
  using readable_key(2) [of E "answer_public_key a"]
  by (auto simp: validate_def bind_res_Err_iff check_span_cases(3) check_asked_cases(3)
      simp del: trim_eq_Nil split: if_splits)

section \<open>Properties\<close>


definition sample_answer :: "int published_answer" where
  "sample_answer = published_answer_new [34, 10, 7, 92, 97] (Some 1577836800) None"


text \<open>C37: Whatever body an end point answers with, reading it ends without a panic, and a body
  that is not an answer is a key that cannot be read and nothing else.\<close>

theorem answer_reading_is_total:
  "parse_answer C json \<noteq> Panic \<and> (\<forall>e. parse_answer C json = Err e \<longrightarrow> (\<exists>m. e = Key m))"
  using parse_answer_total [of C json] parse_answer_Err [of C json] by blast

theorem answer_reading_is_total_witness:
  "\<exists>m. parse_answer utc_seconds [123, 34] = Err (Key m)"
proof -
  have "parse_answer utc_seconds [123, 34] = Err not_json"
    by (simp add: parse_answer_def read_flat_object_def Let_def get_def skip_space.simps
        is_whitespace_def read_fields.simps [of "[123, 34]"] read_string_def read_chars.simps)
  then show ?thesis using answer_reading_is_total [of utc_seconds "[123, 34]"] by auto
qed

text \<open>The check both ends apply passes exactly the answers it describes, and names the
  first fault of any other as a key error: the format is spki, the key can be read, an end
  comes after a start, and the moment asked about lies in the span.\<close>

theorem validate_characterised:
  "(validate E a asked = Ok () \<longleftrightarrow>
      answer_format a = SPKI_FORMAT
      \<and> trim (answer_public_key a) \<noteq> []
      \<and> (\<exists>v. from_public_key_pem E (answer_public_key a) = Inr v)
      \<and> (\<forall>to. valid_to a = Some to \<longrightarrow> (\<exists>from. valid_from a = Some from \<and> from < to))
      \<and> (\<forall>t. asked = Some t \<longrightarrow> (\<forall>from. valid_from a = Some from \<longrightarrow> from \<le> t)
                               \<and> (\<forall>to. valid_to a = Some to \<longrightarrow> t < to)))
   \<and> validate E a asked \<noteq> Panic \<and> (\<forall>e. validate E a asked = Err e \<longrightarrow> (\<exists>m. e = Key m))"
  using validate_total [of E a asked] validate_Err [of E a asked]
  unfolding validate_Ok readable_key(1) check_span_cases(1) check_asked_cases(1) by blast

theorem validate_characterised_witness:
  "validate numbered (published_answer_new (lit ''9'') (Some (5::int)) (Some 8)) (Some 7) = Ok ()
   \<and> validate numbered (published_answer_new (lit ''9'') (Some (5::int)) (Some 8)) (Some 8) \<noteq> Ok ()"
  unfolding conjunct1 [OF validate_characterised]
  by (simp add: published_answer_new_def numbered_def read_number_def parse_u32_def
      from_str_radix_def lit_def to_digit_def is_whitespace_def)

end
