(* ===== verification/Reading.thy ===== *)
theory Reading
  imports Samples
begin

text \<open>
  Properties of reading and writing OWIDs, over the definitions of Parse, Owid and Frames:
  round trips in both directions, totality, what each way of damaging an envelope is
  answered with, and how much work and memory a hostile buffer can ask for.
\<close>

section \<open>Lemmas\<close>

text \<open>The capacity an ample target has for what it was able to buffer or write.\<close>

lemma ample_fits: "ample P \<Longrightarrow> length (owid_payload w) \<le> usize_max P \<Longrightarrow> fits P w"
  by (simp add: ample_def fits_def)

lemma payload_le_enc: "length (owid_payload w) \<le> length (enc_owid C w)"
  by (simp add: enc_owid_def fields_length_def)

lemma as_byte_array_ample:
  "ample P \<Longrightarrow> writable C w \<Longrightarrow> length (owid_signature w) = SIGNATURE_LENGTH
   \<Longrightarrow> length (enc_owid C w) \<le> usize_max P \<Longrightarrow> as_byte_array C P w = Ok (enc_owid C w)"
  by (simp add: as_byte_array_result Let_def ample_def)

lemma as_byte_array_length:
  assumes "is_text (owid_domain w)" "as_byte_array C P w = Ok bs"
  shows "length bs \<le> usize_max P"
proof -
  from as_byte_array_Ok [OF assms] have "writable C w" "length (owid_signature w) = SIGNATURE_LENGTH"
    "bs = enc_owid C w" by simp_all
  with assms(2) show ?thesis by (auto simp: as_byte_array_result Let_def split: if_splits)
qed

lemma read_domain_unterminated:
  assumes "0 \<notin> set bs" "length bs \<le> MAXIMUM_DOMAIN_LENGTH"
  shows "read_domain bs = fail_with UnexpectedEnd (Field (lit ''the creator domain''))"
proof -
  have "position (\<lambda>b. b = 0) bs = None" using assms(1) by (auto simp: position_None_iff)
  with assms(2) show ?thesis by (simp add: read_domain_cases)
qed

lemma read_domain_no_terminator:
  assumes "0 \<notin> set (take (MAXIMUM_DOMAIN_LENGTH + 1) bs)" "length bs > MAXIMUM_DOMAIN_LENGTH"
  shows "read_domain bs
    = fail_with InvalidDomainEncoding (MaximumDomainLength MAXIMUM_DOMAIN_LENGTH)"
proof -
  have "position (\<lambda>b. b = 0) (take (MAXIMUM_DOMAIN_LENGTH + 1) bs) = None"
    using assms(1) by (auto simp: position_None_iff)
  with assms(2) show ?thesis by (simp only: read_domain_cases option.case) simp
qed

text \<open>An envelope cut short: where the cut falls decides the field.\<close>

lemma take_append_cases:
  obtains (left) "k \<le> length xs" "take k (xs @ ys) = take k xs"
  | (right) j where "k = length xs + j" "take k (xs @ ys) = xs @ take j ys" "0 < j"
proof (cases "k \<le> length xs")
  case False
  then show thesis by (intro right [of "k - length xs"]) auto
qed (auto intro: left)

lemma payload_of_cut:
  assumes "length p < 2 ^ 32" "i < 4 + length (p @ s)" "length s = SIGNATURE_LENGTH"
  shows "\<exists>d. payload_of P ext (take i (to_le_bytes (of_nat (length p)) @ p @ s)) =
    fail_with (if i < 4 \<or> ext = Prefix then UnexpectedEnd else ByteCountMismatch) d"
proof (cases "i < 4")
  case True
  then show ?thesis by (simp add: payload_of_short) blast
next
  case False
  have n: "unat (of_nat (length p) :: u32) = length p" using assms(1) by (simp add: unat_of_nat)
  have u: "uint (of_nat (length p) :: u32) = int (length p)" by (simp only: uint_nat n)
  let ?z = "take (i - 4) (p @ s)"
  have "take i (to_le_bytes (of_nat (length p)) @ p @ s) = to_le_bytes (of_nat (length p)) @ ?z"
    using False by simp
  moreover have "length ?z < length p + SIGNATURE_LENGTH" using assms False by auto
  ultimately show ?thesis
    using False by (cases ext)
      (auto simp: to_le_bytes_def Let_def from_to_le_bytes u n simp del: take_append)
qed

lemma parse_one_cut:
  assumes ok: "dates_ok C" and w: "valid_owid C w" and k: "0 < k" "k < length (enc_owid C w)"
  shows "\<exists>d. parse_one C P (take k (enc_owid C w)) ext =
    fail_with (if ext = WholeBuffer \<and> fields_length w - length (owid_payload w) \<le> k
      then ByteCountMismatch else UnexpectedEnd) d"
proof -
  let ?v = "owid_version w" and ?d = "owid_domain w" and ?p = "owid_payload w"
  let ?t = "enc_date C ?v (owid_date w)" and ?s = "owid_signature w"
  let ?tail = "to_le_bytes (of_nat (length ?p)) @ ?p @ ?s"
  let ?body = "enc_domain ?d @ ?t @ ?tail"
  have v: "?v \<noteq> Empty" "valid_domain ?d" "valid_date C ?v (owid_date w)"
    "length ?p < 2 ^ 32" "length ?s = SIGNATURE_LENGTH"
    using w by (simp_all add: valid_owid_def)
  have enc: "enc_owid C w = as_byte ?v # ?body" by (simp add: enc_owid_def enc_fields_def)
  define h where "h = fields_length w - length ?p"
  have h: "h = 1 + length (enc_domain ?d) + date_length ?v + 4"
    by (simp add: h_def fields_length_def enc_domain_def)
  obtain k' where k': "k = Suc k'" using k(1) by (cases k) auto
  define Z where "Z = take k' ?body"
  have buf: "take k (enc_owid C w) = as_byte ?v # Z" by (simp add: enc k' Z_def)
  show ?thesis unfolding buf h_def [symmetric]
  proof (cases rule: take_append_cases [of k' "as_bytes ?d" "[0] @ ?t @ ?tail"])
    case left
    have "0 \<notin> set (take k' (as_bytes ?d))"
      using v(2) by (auto simp: valid_domain_def zero_in_as_bytes dest: in_set_takeD)
    moreover have "length (take k' (as_bytes ?d)) \<le> MAXIMUM_DOMAIN_LENGTH"
      using v(2) by (auto simp: valid_domain_def)
    ultimately have "read_domain Z
        = fail_with UnexpectedEnd (Field (lit ''the creator domain''))"
      unfolding Z_def enc_domain_def append_assoc left(2) by (rule read_domain_unterminated)
    moreover have "\<not> h \<le> k" using left(1) by (simp add: h k' enc_domain_def)
    ultimately show "\<exists>d. parse_one C P (as_byte ?v # Z) ext = fail_with
        (if ext = WholeBuffer \<and> h \<le> k then ByteCountMismatch else UnexpectedEnd) d"
      using v(1) by (auto simp: parse_one_steps)
  next
    case (right j)
    then obtain i where i: "k' = length (enc_domain ?d) + i" by (cases j) (auto simp: enc_domain_def)
    have dom: "Z = enc_domain ?d @ take i (?t @ ?tail)" by (simp add: i Z_def)
    have rd: "read_domain Z = Ok (?d, length (enc_domain ?d))"
      unfolding dom using v(2) by (rule domain_field.read_enc)
    show "\<exists>d. parse_one C P (as_byte ?v # Z) ext = fail_with
        (if ext = WholeBuffer \<and> h \<le> k then ByteCountMismatch else UnexpectedEnd) d"
    proof (cases "i < date_length ?v")
      case True
      then have "read_date C (drop (length (enc_domain ?d)) Z) ?v
          = fail_with UnexpectedEnd (Field (lit ''the date''))"
        unfolding dom by (intro read_date_short) simp
      then show ?thesis using rd v(1) True by (auto simp: parse_one_steps h k' i)
    next
      case False
      then obtain l where l: "i = date_length ?v + l" using le_Suc_ex by (meson not_less)
      have tl: "Z = enc_domain ?d @ ?t @ take l ?tail" by (simp add: dom l)
      have dt: "read_date C (drop (length (enc_domain ?d)) Z) ?v = Ok (owid_date w)"
        unfolding tl using ok v(3) by (simp add: read_date_enc)
      have dr: "drop (length (enc_domain ?d) + date_length ?v) Z = take l ?tail"
        unfolding tl by simp
      have "l < 4 + length (?p @ ?s)" using k(2) by (simp add: enc k' i l)
      from payload_of_cut [OF v(4) this v(5), of P ext]
      show ?thesis using rd dt dr v(1)
        by (cases ext) (auto simp: parse_one_steps h k' i l split: if_splits)
    qed
  qed
qed

section \<open>Round trips\<close>

text \<open>C6: An OWID that serializes is read back from its bytes with every field as it was, the
  date cut down to the whole minutes (hours in version 1) the format counts, on any target
  that can hold what it wrote.\<close>

theorem serialize_then_parse:
  assumes "dates_ok C" "ample P" "is_text (owid_domain w)" "as_byte_array C P w = Ok bs"
  shows "from_byte_array C P bs = Ok (wire_form C w)"
proof -
  from as_byte_array_Ok [OF assms(3,4)] have w: "writable C w"
    and s: "length (owid_signature w) = SIGNATURE_LENGTH" and bs: "bs = enc_owid C w" by simp_all
  have "length (owid_payload w) \<le> usize_max P"
    using payload_le_enc [of w C] as_byte_array_length [OF assms(3,4)] by (simp add: bs)
  then have "fits P w" using assms(2) by (rule ample_fits [rotated])
  then show ?thesis
    unfolding from_byte_array_def parse_exact_Ok_iff [OF assms(1)]
    using wire_form_valid [OF assms(1) w s] enc_wire_form [OF assms(1) w] by (simp add: bs)
qed

theorem serialize_then_parse_witness:
  "from_byte_array utc_seconds target64 sample_bytes = Ok sample_read"
  using serialize_then_parse [OF dates_ok_utc ample_target64 sample_text sample_serializes]
  by (simp add: sample_wire)

text \<open>C9: Bytes that are read as an OWID are exactly the bytes that OWID serializes to: the
  format has one encoding of each OWID, and nothing in an accepted buffer is ignored.\<close>

theorem parse_then_serialize:
  assumes "dates_ok C" "ample P" "length bs \<le> usize_max P" "from_byte_array C P bs = Ok w"
  shows "as_byte_array C P w = Ok bs"
proof -
  from assms(4) have w: "valid_owid C w" and bs: "bs = enc_owid C w"
    by (simp_all add: from_byte_array_def parse_exact_Ok_iff [OF assms(1)])
  then show ?thesis
    using valid_owid_writable [OF assms(1) w] assms(2,3)
    by (simp add: as_byte_array_ample valid_owid_def)
qed

theorem parse_then_serialize_witness:
  "as_byte_array utc_seconds target64 sample_read = Ok sample_bytes"
  by (rule parse_then_serialize [OF dates_ok_utc ample_target64 _ sample_parses])
    (simp add: target64_def)

text \<open>The signature check sees the same bytes before and after transport: the bytes an
  OWID signs are those its parsed copy signs, although the copy's date lost its seconds.\<close>

theorem signed_bytes_survive_transport:
  assumes "dates_ok C" "is_text (owid_domain w)" "as_byte_array C P w = Ok bs"
    and "from_byte_array C P bs = Ok w'"
  shows "signed_bytes C P w' = signed_bytes C P w"
proof -
  from as_byte_array_Ok [OF assms(2,3)] have w: "writable C w"
    and s: "length (owid_signature w) = SIGNATURE_LENGTH" and bs: "bs = enc_owid C w" by simp_all
  from assms(4) have w': "valid_owid C w'" "bs = enc_owid C w'"
    by (simp_all add: from_byte_array_def parse_exact_Ok_iff [OF assms(1)])
  have eq: "w' = wire_form C w"
    using enc_owid_inject [OF assms(1) w'(1) wire_form_valid [OF assms(1) w s]]
      enc_wire_form(2) [OF assms(1) w] bs w'(2) by simp
  have "writable C w'" using valid_owid_writable [OF assms(1) w'(1)] by simp
  then show ?thesis
    using w enc_wire_form(1) [OF assms(1) w]
    by (simp add: signed_bytes_result eq fields_length_def Let_def)
qed

theorem signed_bytes_survive_transport_witness:
  "sample_read \<noteq> sample
   \<and> signed_bytes utc_seconds target64 sample_read = signed_bytes utc_seconds target64 sample"
  using signed_bytes_survive_transport [OF dates_ok_utc sample_text sample_serializes sample_parses]
  by (simp add: sample_def sample_read_def from_parts_def)

section \<open>Totality\<close>

text \<open>C33: No bytes and no text make a read panic. Every index, slice and subtraction of the
  reader is in range, whatever the buffer holds.\<close>

theorem reading_never_panics:
  assumes "dates_ok C"
  shows "from_byte_array C P bs \<noteq> Panic \<and> read_from_prefix C P bs \<noteq> Panic
    \<and> from_base64 C P B value \<noteq> Panic \<and> read_run C P bs \<noteq> Panic"
  using assms
  by (auto simp: from_byte_array_def read_from_prefix_def from_base64_def parse_exact_total
      parse_prefix_total read_run_total split: option.splits)

theorem reading_never_panics_witness:
  "from_byte_array utc_seconds target64 [3, 97] \<noteq> Panic"
  using reading_never_panics [OF dates_ok_utc, of target64 "[3, 97]" plain64 "[]"] by simp

section \<open>Damaged envelopes\<close>

text \<open>C32: An envelope cut short at any byte is refused by both reads. The framed read always
  says the data stopped early, so a caller can wait for more. The whole buffer read says so
  while the payload length has not been read, and after that that the declared count
  disagrees with the bytes.\<close>

theorem truncated_envelope_refused:
  assumes "dates_ok C" "valid_owid C w" "0 < k" "k < length (enc_owid C w)"
  shows "of_frame (read_from_prefix C P (take k (enc_owid C w))) = Some UnexpectedEnd
    \<and> parse_status_of (from_byte_array C P (take k (enc_owid C w)))
      = Some (if k < fields_length w - length (owid_payload w) then UnexpectedEnd
              else ByteCountMismatch)"
proof -
  let ?b = "take k (enc_owid C w)"
  obtain bs where b: "?b = as_byte (owid_version w) # bs"
    using assms(3) by (cases k) (simp_all add: enc_owid_def enc_fields_def)
  have v: "owid_version w \<noteq> Empty" using assms(2) by (simp add: valid_owid_def)
  from parse_one_cut [OF assms, of P Prefix] obtain d where
    "parse_one C P ?b Prefix = fail_with UnexpectedEnd d" by auto
  then have "read_from_prefix C P ?b = fail_with UnexpectedEnd d"
    using assms(1) v by (simp add: read_from_prefix_def b parse_prefix_envelope)
  moreover from parse_one_cut [OF assms, of P WholeBuffer] obtain d' where
    "parse_one C P ?b WholeBuffer = fail_with (if k < fields_length w - length (owid_payload w)
        then UnexpectedEnd else ByteCountMismatch) d'" by (auto simp: not_less split: if_splits)
  then have "from_byte_array C P ?b = fail_with (if k < fields_length w - length (owid_payload w)
        then UnexpectedEnd else ByteCountMismatch) d'"
    by (simp add: from_byte_array_def parse_exact_def)
  ultimately show ?thesis
    by (simp add: of_frame_def parse_status_of_def fail_with_def)
qed

theorem truncated_envelope_refused_witness:
  "of_frame (read_from_prefix utc_seconds target64 (take 14 sample_bytes)) = Some UnexpectedEnd
   \<and> parse_status_of (from_byte_array utc_seconds target64 (take 14 sample_bytes))
     = Some ByteCountMismatch"
  using truncated_envelope_refused [OF dates_ok_utc sample_read_valid, of 14 target64]
  by (simp add: sample_read_enc)

text \<open>What the whole buffer read says of bytes after the signature.\<close>

lemma trailing_refused:
  assumes "dates_ok C" "valid_owid C w" "rest \<noteq> []"
  shows "from_byte_array C P (enc_owid C w @ rest) = fail_with ByteCountMismatch
      (ByteCounts (of_nat (length (owid_payload w)))
        (int (length (owid_payload w)) + int (length rest)))"
proof -
  let ?p = "owid_payload w" and ?s = "owid_signature w" and ?v = "owid_version w"
  let ?d = "enc_domain (owid_domain w)" and ?t = "enc_date C (owid_version w) (owid_date w)"
  have v: "?v \<noteq> Empty" "valid_domain (owid_domain w)" "valid_date C ?v (owid_date w)"
    "length ?p < 2 ^ 32" "length ?s = SIGNATURE_LENGTH"
    using assms(2) by (simp_all add: valid_owid_def)
  have n: "unat (of_nat (length ?p) :: u32) = length ?p" using v(4) by (simp add: unat_of_nat)
  have u: "uint (of_nat (length ?p) :: u32) = int (length ?p)" by (simp only: uint_nat n)
  define T where "T = to_le_bytes (of_nat (length ?p)) @ ?p @ ?s @ rest"
  have "payload_of P WholeBuffer T = fail_with ByteCountMismatch
      (ByteCounts (of_nat (length ?p)) (int (length ?p) + int (length rest)))"
    using v(5) assms(3) unfolding T_def to_le_bytes_def
    by (simp add: Let_def from_to_le_bytes u n)
  moreover have "enc_owid C w @ rest = as_byte ?v # ?d @ ?t @ T"
    by (simp add: enc_owid_def enc_fields_def T_def)
  ultimately have "parse_one C P (enc_owid C w @ rest) WholeBuffer = fail_with ByteCountMismatch
      (ByteCounts (of_nat (length ?p)) (int (length ?p) + int (length rest)))"
    using v(1-3) assms(1) by (simp add: parse_one_steps domain_field.read_enc read_date_enc)
  then show ?thesis by (simp add: from_byte_array_def parse_exact_def)
qed

text \<open>C31: Bytes after the signature are refused by the whole buffer read, which reports the
  declared count and the larger count it found, and are handed back untouched by the framed
  read.\<close>

theorem trailing_bytes:
  assumes "dates_ok C" "valid_owid C w" "fits P w" "rest \<noteq> []"
  shows "from_byte_array C P (enc_owid C w @ rest) = fail_with ByteCountMismatch
      (ByteCounts (of_nat (length (owid_payload w)))
        (int (length (owid_payload w)) + int (length rest)))
    \<and> read_from_prefix C P (enc_owid C w @ rest) = Ok (Some w, rest)"
  using trailing_refused [OF assms(1,2,4)] parse_prefix_enc [OF assms(1-3)]
  by (simp add: read_from_prefix_def)

theorem trailing_bytes_witness:
  "from_byte_array utc_seconds target64 (sample_bytes @ [0])
     = fail_with ByteCountMismatch (ByteCounts 2 3)
   \<and> read_from_prefix utc_seconds target64 (sample_bytes @ [0]) = Ok (Some sample_read, [0])"
  using trailing_bytes [OF dates_ok_utc sample_read_valid sample_fits, of "[0]"]
  by (simp add: sample_read_enc)

text \<open>C30: The two reads agree on a buffer holding one OWID and nothing more, and whatever
  the framed read accepts is an envelope the whole buffer read accepts followed by the
  bytes handed back, or the one byte marker.\<close>

theorem framed_read_is_whole_read_of_a_prefix:
  assumes "dates_ok C"
  shows "(read_from_prefix C P bs = Ok (Some w, rest)
      \<longleftrightarrow> (\<exists>front. bs = front @ rest \<and> from_byte_array C P front = Ok w))
    \<and> (read_from_prefix C P bs = Ok (None, rest) \<longleftrightarrow> bs = 0 # rest)"
  using parse_prefix_Ok [OF assms, of P bs "Some w" rest] parse_prefix_enc [OF assms]
    parse_prefix_Ok [OF assms, of P bs None rest]
  by (auto simp: read_from_prefix_def from_byte_array_def parse_exact_Ok_iff [OF assms]
      parse_prefix_marker)

theorem framed_read_is_whole_read_of_a_prefix_witness:
  "read_from_prefix utc_seconds target64 (sample_bytes @ [9]) = Ok (Some sample_read, [9])
   \<and> read_from_prefix utc_seconds target64 [0, 9] = Ok (None, [9])"
  using framed_read_is_whole_read_of_a_prefix [OF dates_ok_utc, of target64 "sample_bytes @ [9]"
      sample_read "[9]"]
    framed_read_is_whole_read_of_a_prefix [OF dates_ok_utc, of target64 "[0, 9]" sample_read "[9]"]
    sample_parses
  by auto

section \<open>What a hostile buffer can ask for\<close>

lemma payload_of_reserves:
  assumes "usize_max P = usize_max Q"
    "\<And>n. n + SIGNATURE_LENGTH \<le> length bs \<Longrightarrow> can_reserve P n = can_reserve Q n"
  shows "payload_of P ext bs = payload_of Q ext bs"
proof (cases "length bs < 4")
  case False
  then obtain l0 l1 l2 l3 r where bs: "bs = l0 # l1 # l2 # l3 # r"
    using four_bytes [of bs] by auto
  define k where "k = unat (from_le_bytes l0 l1 l2 l3)"
  show ?thesis
  proof (cases "k + SIGNATURE_LENGTH \<le> length r")
    case True
    then show ?thesis using assms(1) assms(2) [of k] by (simp add: bs Let_def k_def)
  next
    case False
    then have "int (length r) - int SIGNATURE_LENGTH < int k" by linarith
    then show ?thesis by (cases ext) (simp_all add: bs Let_def k_def)
  qed
qed (simp add: payload_of_short)

text \<open>A declared payload length reserves no memory unless the bytes are there: only
  reservations of counts that leave a signature's bytes in the buffer decide what a read
  answers, so a large declaration without its bytes costs nothing.\<close>

theorem declared_length_reserves_nothing:
  assumes "dates_ok C" "usize_max P = usize_max Q"
    "\<forall>n. n + SIGNATURE_LENGTH \<le> length bs \<longrightarrow> can_reserve P n = can_reserve Q n"
  shows "from_byte_array C P bs = from_byte_array C Q bs
    \<and> read_from_prefix C P bs = read_from_prefix C Q bs"
proof -
  have "parse_one C P bs ext = parse_one C Q bs ext" for ext
  proof (cases bs rule: buffer_cases)
    case (envelope v r)
    have "payload_of P ext (drop k r) = payload_of Q ext (drop k r)" for k
      using assms(2,3) by (intro payload_of_reserves) (auto simp: envelope)
    then show ?thesis by (simp add: envelope parse_one_steps)
  qed (simp_all add: parse_one_Nil parse_one_Empty parse_one_unsupported)
  then show ?thesis
    by (simp add: from_byte_array_def parse_exact_def read_from_prefix_def parse_prefix_def)
qed

theorem declared_length_reserves_nothing_witness:
  "from_byte_array utc_seconds target64 [3, 97, 0, 0, 0, 0, 0, 255, 255, 255, 255]
   = from_byte_array utc_seconds (target64\<lparr>can_reserve := \<lambda>n. False\<rparr>)
       [3, 97, 0, 0, 0, 0, 0, 255, 255, 255, 255]"
  using declared_length_reserves_nothing [OF dates_ok_utc, of target64
      "target64\<lparr>can_reserve := \<lambda>n. False\<rparr>" "[3, 97, 0, 0, 0, 0, 0, 255, 255, 255, 255]"]
  by (simp add: SIGNATURE_LENGTH_def)

text \<open>The search for the end of the domain looks at no byte past the 253 character
  maximum and its terminator, whatever follows, and a domain that runs past the maximum is
  named as invalid rather than as data that stopped.\<close>

theorem domain_search_is_bounded:
  assumes "MAXIMUM_DOMAIN_LENGTH < length bs"
  shows "read_domain (bs @ rest) = read_domain bs
    \<and> (0 \<notin> set (take (MAXIMUM_DOMAIN_LENGTH + 1) bs) \<longrightarrow> read_domain (bs @ rest)
      = fail_with InvalidDomainEncoding (MaximumDomainLength MAXIMUM_DOMAIN_LENGTH))"
proof -
  let ?w = "take (MAXIMUM_DOMAIN_LENGTH + 1) bs"
  have w: "take (MAXIMUM_DOMAIN_LENGTH + 1) (bs @ rest) = ?w" using assms by simp
  have eq: "read_domain (bs @ rest) = read_domain bs"
  proof (cases "position (\<lambda>b. b = 0) ?w")
    case None
    then show ?thesis
      using assms by (simp only: read_domain_cases w option.case) simp
  next
    case (Some t)
    then have "take t (bs @ rest) = take t bs" using assms by (auto dest: position_takeD)
    then show ?thesis by (simp only: read_domain_cases w Some option.case)
  qed
  then show ?thesis using assms by (auto intro: read_domain_no_terminator)
qed

theorem domain_search_is_bounded_witness:
  "read_domain (replicate 300 97 @ [0])
   = fail_with InvalidDomainEncoding (MaximumDomainLength MAXIMUM_DOMAIN_LENGTH)"
  using domain_search_is_bounded [of "replicate 300 97" "[0]", THEN conjunct2]
  by (simp add: MAXIMUM_DOMAIN_LENGTH_def)

end
