(* ===== verification/Signing.thy ===== *)
theory Signing
  imports Reading
begin

text \<open>
  Properties of creating, signing and checking OWIDs, over the definitions of Owid, Crypto
  and Creator: what a creator accepts is what a reader accepts, creation on every branch,
  the whole path from creation over base 64 to verification, what the signature commits to,
  and which outcomes can be called a forgery.
\<close>

section \<open>Lemmas\<close>

text \<open>A crypto instance that can sign holds the public half of its signing key.\<close>

definition paired :: "('sk, 'vk, 'sg) p256 \<Rightarrow> ('sk, 'vk) crypto \<Rightarrow> bool" where
  "paired E c \<longleftrightarrow> (\<forall>k. signing_key c = Some k \<longrightarrow> verifying_key c = Some (verifying_key_of E k))"

lemma paired_constructors:
  "paired E (crypto_new E k)" "paired E (from_signing_key E k)" "paired E (from_verifying_key v)"
  "new_sign_only E pem = Ok c \<Longrightarrow> paired E c \<and> can_sign c"
  "new_verify_only E pem = Ok c \<Longrightarrow> paired E c \<and> \<not> can_sign c"
  by (auto simp: paired_def crypto_new_def from_signing_key_def from_verifying_key_def
      new_sign_only_def new_verify_only_def can_sign_def bind_res_Ok_iff split: if_splits)

text \<open>The ways to come by a crypto instance: its fields are private to src/src/crypto.rs.\<close>

inductive made :: "('sk, 'vk, 'sg) p256 \<Rightarrow> ('sk, 'vk) crypto \<Rightarrow> bool" for E :: "('sk, 'vk, 'sg) p256" where
  "made E (crypto_new E k)"
| "new_sign_only E pem = Ok c \<Longrightarrow> made E c"
| "new_verify_only E pem = Ok c \<Longrightarrow> made E c"
| "made E (from_signing_key E k)"
| "made E (from_verifying_key v)"

lemma made_paired: "made E c \<Longrightarrow> paired E c"
  by (induction rule: made.induct)
    (auto intro: paired_constructors(1-3) dest: paired_constructors(4,5))

lemma made_verifies: "made E c \<Longrightarrow> can_verify c"
  by (induction rule: made.induct)
    (auto simp: can_verify_def crypto_new_def from_signing_key_def from_verifying_key_def
      new_sign_only_def new_verify_only_def bind_res_Ok_iff split: if_splits)

lemma public_key_pem_paired:
  assumes "paired E c" "can_sign c" "public_key_pem E c = Ok pem" "public_pem_ok E"
  obtains k where "signing_key c = Some k" "from_public_key_pem E pem = Inr (verifying_key_of E k)"
    "trim pem \<noteq> []"
proof -
  from assms(2) obtain k where k: "signing_key c = Some k" by (auto simp: can_sign_def)
  with assms(1) have "verifying_key c = Some (verifying_key_of E k)" by (simp add: paired_def)
  with assms(3) have "to_public_key_pem E (verifying_key_of E k) = Inr pem"
    by (cases "to_public_key_pem E (verifying_key_of E k)")
      (auto simp: public_key_pem_def subject_public_key_info_def)
  with assms(4) show thesis by (intro that [OF k]) (simp_all add: public_pem_ok_def)
qed

lemma new_verify_only_Ok:
  "trim pem \<noteq> [] \<Longrightarrow> from_public_key_pem E pem = Inr v
   \<Longrightarrow> new_verify_only E pem = Ok \<lparr> signing_key = None, verifying_key = Some v \<rparr>"
  by (simp add: new_verify_only_def)

lemma verify_signed:
  assumes "signatures_ok E" "signed_bytes C P w = Ok (enc_fields C w)" "signed_by C E k w"
    and "from_public_key_pem E pem = Inr (verifying_key_of E k)" "trim pem \<noteq> []"
  shows "verify_with_public_key C P E w pem = Ok True"
  using assms verify_byte_array_signed [OF assms(1), of None k "enc_fields C w"]
  by (simp add: verify_with_public_key_def verify_with_crypto_def new_verify_only_Ok signed_by_def)

lemma signed_by_wire_form:
  "dates_ok C \<Longrightarrow> writable C w \<Longrightarrow> signed_by C E k (wire_form C w) = signed_by C E k w"
  by (simp add: signed_by_def enc_wire_form)

lemma signed_bytes_ample:
  assumes "ample P" "writable C w" "as_byte_array C P w = Ok bs" "is_text (owid_domain w)"
  shows "signed_bytes C P w = Ok (enc_fields C w)"
proof -
  from as_byte_array_Ok [OF assms(4,3)] have "bs = enc_owid C w" by simp
  with as_byte_array_length [OF assms(4,3)] have "fields_length w \<le> usize_max P"
    by (simp add: enc_owid_def)
  with assms(1,2) show ?thesis by (simp add: signed_bytes_result ample_def)
qed

lemma writable_wire_form: "dates_ok C \<Longrightarrow> writable C w \<Longrightarrow> writable C (wire_form C w)"
  using wire_date_valid [of C "owid_version w" "owid_date w"]
    valid_date_in_range [of C "owid_version w" "wire_date C (owid_version w) (owid_date w)"]
  by (simp add: writable_def)

text \<open>Ample room for the fields of an OWID whose payload is not enormous.\<close>

lemma fields_fit:
  assumes "ample P" "writable C w" "length (owid_payload w) < 2 ^ 31"
  shows "fields_length w + SIGNATURE_LENGTH \<le> usize_max P"
  using assms by (cases "owid_version w")
    (simp_all add: fields_length_def writable_def valid_domain_def ample_def MAXIMUM_DOMAIN_LENGTH_def
      SIGNATURE_LENGTH_def)

lemma signed_bytes_written:
  assumes "ample P" "writable C w" "length (owid_payload w) < 2 ^ 31"
  shows "signed_bytes C P w = Ok (enc_fields C w)"
  using fields_fit [OF assms] assms(1,2) by (simp add: signed_bytes_result ample_def)

text \<open>Such an OWID is written, read back with the date it is written with, and signed over the same bytes.\<close>

lemma written_and_read:
  assumes "dates_ok C" "ample P" "writable C w" "length (owid_signature w) = SIGNATURE_LENGTH"
    and "length (owid_payload w) < 2 ^ 31"
  shows "as_byte_array C P w = Ok (enc_owid C w)"
    and "from_byte_array C P (enc_owid C w) = Ok (wire_form C w)"
    and "signed_bytes C P (wire_form C w) = Ok (enc_fields C w)"
    and "as_byte_array C P (wire_form C w) = Ok (enc_owid C w)"
proof -
  let ?r = "wire_form C w"
  have len: "length (enc_owid C w) \<le> usize_max P"
    using fields_fit [OF assms(2,3,5)] assms(4) by (simp add: enc_owid_def)
  then show "as_byte_array C P w = Ok (enc_owid C w)" by (rule as_byte_array_ample [OF assms(2-4)])
  note wr = writable_wire_form [OF assms(1,3)] and enc = enc_wire_form [OF assms(1,3)]
  show "as_byte_array C P ?r = Ok (enc_owid C w)"
    using as_byte_array_ample [OF assms(2) wr] assms(4) len enc by simp
  show "signed_bytes C P ?r = Ok (enc_fields C w)"
    using signed_bytes_written [OF assms(2) wr] assms(5) enc by simp
  have "fits P ?r" using assms(2) len payload_le_enc [of w C] by (simp add: ample_fits)
  with wire_form_valid [OF assms(1,3,4)] show "from_byte_array C P (enc_owid C w) = Ok ?r"
    using enc by (simp add: from_byte_array_def parse_exact_Ok_iff [OF assms(1)])
qed

section \<open>Keys\<close>



section \<open>Creators\<close>

text \<open>C38: A domain without a null character makes a creator exactly when it is not blank and
  the reader of an envelope reads it back: the bound on what is created and the bound on
  what is read are the same bound.\<close>

theorem creator_bound_is_reader_bound:
  assumes "is_text d" "0 \<notin> set d" "can_sign c"
  shows "is_ok (creator_new d c)
    \<longleftrightarrow> trim d \<noteq> [] \<and> read_domain (as_bytes d @ 0 # rest) = Ok (d, length (as_bytes d) + 1)"
proof -
  have "is_ok (creator_new d c) \<longleftrightarrow> trim d \<noteq> [] \<and> valid_domain d"
    using assms by (auto simp: creator_new_def valid_domain_def)
  moreover have "valid_domain d
      \<longleftrightarrow> read_domain (as_bytes d @ 0 # rest) = Ok (d, length (as_bytes d) + 1)"
    using domain_field.read_enc [of d rest]
      domain_field.read_sound [of "as_bytes d @ 0 # rest" d "length (as_bytes d) + 1"]
    by (auto simp: enc_domain_def)
  ultimately show ?thesis by simp
qed

theorem creator_bound_is_reader_bound_witness:
  "is_ok (creator_new (lit ''a.b'') (crypto_new numbered 9))
   \<and> read_domain [97, 46, 98, 0, 5] = Ok (lit ''a.b'', 4)"
  using creator_bound_is_reader_bound [of "lit ''a.b''" "crypto_new numbered 9" "[5]"]
  by (simp add: sample_creator_new) (simp add: can_sign_def crypto_new_def)

text \<open>C36: Creation answers, on every input: the payload's length is checked before anything is
  reserved, the reservation before the fields are written, and an OWID that is handed back
  is signed over its own fields by the creator's key.\<close>

theorem create_result:
  assumes "signatures_ok E" "is_text d" "creator_new d c = Ok cr" "signing_key c = Some k"
  shows "create C P E now cr payload =
    (let u = from_parts Version3 d now payload []; n = fields_length u in
     if \<not> length payload < 2 ^ 32 then Err (PayloadTooLarge (length payload))
     else if n > usize_max P then Err (error.ImplementationCapacityExceeded (usize_max P))
     else if \<not> can_reserve P n then Err (error.ImplementationCapacityExceeded n)
     else if 0 \<in> set d then Err (InvalidDomain d)
     else if \<not> date_in_range C Version3 now then Err DateOutOfRange
     else Ok (set_signature u (sig_to_bytes E (ecdsa_sign E k (enc_fields C u)))))"
proof -
  let ?u = "from_parts Version3 d now payload []"
  have cr: "creator_domain cr = d" "creator_crypto cr = c" and inv: "creator_inv cr"
    using assms(3) by (auto simp: creator_new_Ok)
  then have len: "length (as_bytes d) \<le> MAXIMUM_DOMAIN_LENGTH" by (simp add: creator_inv_def)
  have u: "owid_version ?u = Version3" "owid_domain ?u = d" "owid_date ?u = now"
    "owid_payload ?u = payload" by (simp_all add: from_parts_def)
  have "signed_bytes C P ?u = (let n = fields_length ?u in
     if \<not> length payload < 2 ^ 32 then Err (PayloadTooLarge (length payload))
     else if n > usize_max P then Err (error.ImplementationCapacityExceeded (usize_max P))
     else if \<not> can_reserve P n then Err (error.ImplementationCapacityExceeded n)
     else if 0 \<in> set d then Err (InvalidDomain d)
     else if \<not> date_in_range C Version3 now then Err DateOutOfRange
     else Ok (enc_fields C ?u))"
  proof (cases "length payload < 2 ^ 32")
    case True
    then show ?thesis
      using assms(2) len u
      by (simp add: signed_bytes_def fill_def encoded_len_result Let_def
          to_buffer_no_signature_result valid_domain_def)
  next
    case False
    then show ?thesis by (simp add: signed_bytes_def fill_def encoded_len_def u)
  qed
  moreover have "sign_byte_array E c data = Ok (sig_to_bytes E (ecdsa_sign E k data))"
    "length (sig_to_bytes E (ecdsa_sign E k data)) = SIGNATURE_LENGTH" for data
    using assms(1,4) by (simp_all add: sign_byte_array_def signatures_ok_def SIGNATURE_LENGTH_def
        Let_def)
  ultimately show ?thesis
    by (simp add: create_def create_version_def version_default_def cr Let_def)
qed

theorem create_result_witness:
  "create utc_seconds target64 numbered 5 sample_creator [1] = Err DateOutOfRange"
  using create_result [OF signatures_ok_numbered sample_domain(2) sample_creator_new, of 9
      utc_seconds target64 5 "[1]"]
  by (simp add: crypto_new_def fields_length_def from_parts_def target64_def Let_def
      utc_seconds_def base_date_def quot_def)

section \<open>From creation to verification\<close>

lemma created_reads_back:
  assumes "dates_ok C" "ample P" "signatures_ok E" "public_pem_ok E" "base64_ok B"
    and "is_text d" "paired E c" "creator_new d c = Ok cr" "public_key_pem E c = Ok pem"
    and "create C P E now cr payload = Ok w" "as_base64 C P B w = Ok encoded"
  shows "from_base64 C P B encoded = Ok (wire_form C w)"
    and "verify_with_public_key C P E (wire_form C w) pem = Ok True"
    and "writable C w" "owid_version w = Version3" "owid_domain w = d" "owid_payload w = payload"
      "owid_date w = now"
proof -
  have cr: "creator_domain cr = d" "creator_crypto cr = c" and inv: "creator_inv cr"
    using assms(8) by (auto simp: creator_new_Ok)
  obtain k where k: "signing_key c = Some k" and
    pem: "from_public_key_pem E pem = Inr (verifying_key_of E k)" "trim pem \<noteq> []"
    using public_key_pem_paired [OF assms(7) _ assms(9,4)] inv cr by (auto simp: creator_inv_def)
  from create_version_Ok [of cr C P E now Version3 payload w] assms(6,10) cr k
  have w: "writable C w" "length (owid_signature w) = SIGNATURE_LENGTH" "owid_domain w = d"
    "owid_payload w = payload" "owid_version w = Version3" "owid_date w = now" and s: "signed_by C E k w"
    by (simp_all add: create_def version_default_def)
  from assms(11) obtain bs where bs: "as_byte_array C P w = Ok bs" and t: "encoded = b64_encode B bs"
    by (auto simp: as_base64_def bind_res_Ok_iff)
  have tx: "is_text (owid_domain w)" using assms(6) w(3) by simp
  from as_byte_array_Ok [OF tx bs] have enc: "bs = enc_owid C w" by simp
  have len: "length bs \<le> usize_max P" using tx bs by (rule as_byte_array_length)
  let ?w' = "wire_form C w"
  have v: "valid_owid C ?w'" "enc_owid C ?w' = bs"
    using w assms(1) by (simp_all add: wire_form_valid enc_wire_form enc)
  have "fits P ?w'"
    using assms(2) payload_le_enc [of w C] len by (simp add: ample_fits enc)
  with v have "from_byte_array C P bs = Ok ?w'"
    by (simp add: from_byte_array_def parse_exact_Ok_iff [OF assms(1)])
  moreover have "encoded \<noteq> []" using assms(5) t enc by (auto simp: base64_ok_def enc_owid_def enc_fields_def)
  ultimately have read: "from_base64 C P B encoded = Ok ?w'"
    using assms(5) t by (simp add: from_base64_def base64_ok_def)
  have "as_byte_array C P ?w' = Ok bs"
    using v(2) len assms(2) w writable_wire_form [OF assms(1) w(1)]
    by (simp add: as_byte_array_ample)
  then have "signed_bytes C P ?w' = Ok (enc_fields C ?w')"
    using assms(2) tx writable_wire_form [OF assms(1) w(1)] by (intro signed_bytes_ample) simp_all
  then have "verify_with_public_key C P E ?w' pem = Ok True"
    using signed_by_wire_form [OF assms(1) w(1), of E k] s pem
    by (intro verify_signed [OF assms(3), where k = k]) blast+
  with read w show "from_base64 C P B encoded = Ok (wire_form C w)"
    "verify_with_public_key C P E (wire_form C w) pem = Ok True" "writable C w"
    "owid_version w = Version3" "owid_domain w = d" "owid_payload w = payload" "owid_date w = now"
    by auto
qed

text \<open>C3: An OWID that a creator made, sent as base 64 and read elsewhere, is read with the
  payload and the domain it was made with and verifies under the public key the creator
  publishes.\<close>

theorem created_owid_verifies:
  assumes "dates_ok C" "ample P" "signatures_ok E" "public_pem_ok E" "base64_ok B"
    and "is_text d" "paired E c" "creator_new d c = Ok cr" "public_key_pem E c = Ok pem"
    and "create C P E now cr payload = Ok w" "as_base64 C P B w = Ok encoded"
  shows "\<exists>w'. from_base64 C P B encoded = Ok w' \<and> owid_domain w' = d \<and> owid_payload w' = payload
    \<and> verify_with_public_key C P E w' pem = Ok True"
  using created_reads_back [OF assms] by (intro exI [of _ "wire_form C w"]) simp

theorem created_owid_verifies_witness:
  "\<exists>encoded w'. from_base64 utc_seconds target64 plain64 encoded = Ok w'
     \<and> owid_payload w' = [1, 2]
     \<and> verify_with_public_key utc_seconds target64 numbered w' (lit ''9'') = Ok True"
  using created_owid_verifies [OF dates_ok_utc ample_target64 signatures_ok_numbered
      public_pem_ok_numbered base64_ok_plain sample_domain(2) paired_constructors(1)
      sample_creator_new sample_public_pem sample_creates sample_created_serializes]
  by blast

section \<open>What a signature covers\<close>

text \<open>C17: The bytes signed determine every field but the signature, the date to the whole
  count the format writes: no two OWIDs that differ in what they say share signed bytes.\<close>

theorem signed_bytes_commit_to_every_field:
  assumes "dates_ok C" "is_text (owid_domain w)" "is_text (owid_domain v)"
    and "signed_bytes C P w = Ok data" "signed_bytes C P v = Ok data"
  shows "owid_version w = owid_version v \<and> owid_domain w = owid_domain v
    \<and> owid_payload w = owid_payload v
    \<and> wire_date C (owid_version w) (owid_date w) = wire_date C (owid_version v) (owid_date v)"
proof -
  let ?s = "replicate SIGNATURE_LENGTH 0"
  let ?f = "\<lambda>u. wire_form C (u\<lparr>owid_signature := ?s\<rparr>)"
  from signed_bytes_Ok [OF assms(2,4)] signed_bytes_Ok [OF assms(3,5)]
  have wr: "writable C w" "writable C v" and eq: "enc_fields C w = enc_fields C v" by auto
  then have wr': "writable C (w\<lparr>owid_signature := ?s\<rparr>)" "writable C (v\<lparr>owid_signature := ?s\<rparr>)"
    by (simp_all add: writable_def)
  then have "valid_owid C (?f w)" "valid_owid C (?f v)"
    using assms(1) by (simp_all add: wire_form_valid)
  moreover have "enc_owid C (?f w) = enc_owid C (?f v)"
    using wr' assms(1) eq by (simp add: enc_wire_form) (simp add: enc_owid_def)
  ultimately have "?f w = ?f v" using assms(1) by (simp add: enc_owid_inject)
  then have "owid_version (?f w) = owid_version (?f v)" "owid_domain (?f w) = owid_domain (?f v)"
    "owid_payload (?f w) = owid_payload (?f v)" "owid_date (?f w) = owid_date (?f v)" by simp_all
  then show ?thesis by simp
qed

theorem signed_bytes_commit_to_every_field_witness:
  "wire_date utc_seconds Version3 1577837130 = wire_date utc_seconds Version3 1577837100"
  using signed_bytes_commit_to_every_field [OF dates_ok_utc sample_text sample_read_text
      sample_signed sample_read_signed]
  by (simp add: sample_def sample_read_def from_parts_def)

text \<open>C40: The room reserved is the room used: an OWID that serializes has exactly the length
  computed beforehand, and what is signed is what is sent without the 64 bytes at the end.\<close>

theorem serialized_length_is_exact:
  assumes "is_text (owid_domain w)" "as_byte_array C P w = Ok bs"
  shows "encoded_len P w True = Ok (length bs)
    \<and> encoded_len P w False = Ok (length bs - SIGNATURE_LENGTH)
    \<and> (can_reserve P (length bs - SIGNATURE_LENGTH) \<longrightarrow>
         signed_bytes C P w = Ok (take (length bs - SIGNATURE_LENGTH) bs))"
proof -
  from as_byte_array_Ok [OF assms] have w: "writable C w"
    "length (owid_signature w) = SIGNATURE_LENGTH" and bs: "bs = enc_owid C w" by simp_all
  have "length bs \<le> usize_max P" using assms by (rule as_byte_array_length)
  moreover have "length bs = fields_length w + SIGNATURE_LENGTH" using w by (simp add: bs enc_owid_def)
  moreover have "take (fields_length w) bs = enc_fields C w" by (simp add: bs enc_owid_def)
  ultimately show ?thesis
    using w by (simp add: encoded_len_result writable_def signed_bytes_result)
qed

theorem serialized_length_is_exact_witness:
  "encoded_len target64 sample True = Ok 79
   \<and> signed_bytes utc_seconds target64 sample = Ok (take 15 sample_bytes)"
  using serialized_length_is_exact [OF sample_text sample_serializes]
  by (simp add: SIGNATURE_LENGTH_def) (simp add: target64_def)

section \<open>Verdicts\<close>

lemma to_buffer_no_signature_total: "fst (to_buffer_no_signature C w buffer) \<noteq> Panic"
  by (cases "owid_version w") (simp_all add: to_buffer_no_signature_def write_domain_def
      write_byte_array_def Let_def split: option.splits)

lemma signed_bytes_total: "signed_bytes C P w \<noteq> Panic"
  by (simp add: signed_bytes_def fill_def bind_res_Panic_iff to_buffer_no_signature_total)

lemma signature_status_of_iffs:
  "signature_status_of r = Some Valid \<longleftrightarrow> r = Ok True"
  "signature_status_of r = Some Invalid \<longleftrightarrow> r = Ok False"
  "signature_status_of r = None \<longleftrightarrow> r = Panic"
  by (cases r rule: signature_status_of.cases; simp)+

lemma verify_with_public_key_judged:
  "verify_with_public_key C P E w pem = Ok b \<longleftrightarrow>
     trim pem \<noteq> [] \<and> length (owid_signature w) = SIGNATURE_LENGTH
     \<and> (\<exists>v data. from_public_key_pem E pem = Inr v \<and> signed_bytes C P w = Ok data
          \<and> b = (case sig_from_slice E (owid_signature w) of
                   Some s \<Rightarrow> ecdsa_verify E v data s | None \<Rightarrow> False))"
  by (cases "sig_from_slice E (owid_signature w)")
    (auto simp: verify_with_public_key_def verify_with_crypto_def verify_byte_array_def
      new_verify_only_def bind_res_Ok_iff split: if_splits)

text \<open>C16: A check always answers with a status, and only a check that was really made answers
  valid or invalid: the key was read, the signature has its 64 bytes, the fields were
  encoded, and the verdict is the signature scheme's. A key that cannot be read, an
  envelope that cannot be encoded or a signature of the wrong length is never reported as a
  forgery, nor as a valid signature.\<close>

theorem verdict_only_when_judged:
  "verify_status_with_public_key C P E w pem \<noteq> None
   \<and> (verify_status_with_public_key C P E w pem = Some Invalid \<longleftrightarrow>
        trim pem \<noteq> [] \<and> length (owid_signature w) = SIGNATURE_LENGTH
        \<and> (\<exists>v data. from_public_key_pem E pem = Inr v \<and> signed_bytes C P w = Ok data
             \<and> (\<nexists>s. sig_from_slice E (owid_signature w) = Some s \<and> ecdsa_verify E v data s)))
   \<and> (verify_status_with_public_key C P E w pem = Some Valid \<longleftrightarrow>
        trim pem \<noteq> [] \<and> length (owid_signature w) = SIGNATURE_LENGTH
        \<and> (\<exists>v data s. from_public_key_pem E pem = Inr v \<and> signed_bytes C P w = Ok data
             \<and> sig_from_slice E (owid_signature w) = Some s \<and> ecdsa_verify E v data s))"
proof -
  have "verify_with_public_key C P E w pem \<noteq> Panic"
    by (auto simp: verify_with_public_key_def verify_with_crypto_def verify_byte_array_def
        new_verify_only_def bind_res_Panic_iff signed_bytes_total split: if_splits option.splits)
  moreover have "verify_with_public_key C P E w pem = Ok b \<longleftrightarrow>
      trim pem \<noteq> [] \<and> length (owid_signature w) = SIGNATURE_LENGTH
      \<and> (\<exists>v data. from_public_key_pem E pem = Inr v \<and> signed_bytes C P w = Ok data
          \<and> b = (\<exists>s. sig_from_slice E (owid_signature w) = Some s \<and> ecdsa_verify E v data s))" for b
    unfolding verify_with_public_key_judged
    by (cases "sig_from_slice E (owid_signature w)") auto
  ultimately show ?thesis
    unfolding verify_status_with_public_key_def signature_status_of_iffs by simp
qed

theorem verdict_only_when_judged_witness:
  "verify_status_with_public_key utc_seconds target64 numbered sample (lit ''9'') \<noteq> Some Valid"
proof -
  have "last (owid_signature sample) \<noteq> last (numbered_sign 9 d)" for d
    by (simp add: sample_def from_parts_def numbered_sign_def)
  then have "owid_signature sample \<noteq> numbered_sign 9 d" for d by metis
  moreover have "from_public_key_pem numbered (lit ''9'') = Inr 9"
    by (simp add: numbered_def read_number_def parse_u32_def from_str_radix_def lit_def to_digit_def)
  ultimately show ?thesis
    using verdict_only_when_judged [of utc_seconds target64 numbered sample "lit ''9''"]
    by (auto simp: numbered_def)
qed

section \<open>Runs of frames\<close>



end
