(* ===== verification/Endpoints.thy ===== *)
theory Endpoints
  imports Schedule KeyAnswer Signing
begin

text \<open>
  What a creator serves at its well known end point (src/src/endpoints.rs), for one key and
  for a schedule of keys. The moment of the request is an argument in the source too.
\<close>

section \<open>Definitions\<close>

definition public_key_path :: "version \<Rightarrow> str" where
  "public_key_path v = lit ''/owid/api/v'' @ decimal (unat (as_byte v)) @ lit ''/public-key''"

definition serves_format :: "str option \<Rightarrow> bool" where
  "serves_format format = (case format of None \<Rightarrow> True | Some format \<Rightarrow> format = SPKI_FORMAT)"

definition public_key_answer ::
    "('t :: linorder) chrono \<Rightarrow> ('sk, 'vk, 'sg) p256 \<Rightarrow> str \<Rightarrow> 't option \<Rightarrow> 't option \<Rightarrow> 't option
     \<Rightarrow> (str, error) res" where
  "public_key_answer C E pem from to asked =
     (let answer = published_answer_new pem from to in
      bind_res (validate E answer asked) (\<lambda>_. Ok (to_json C answer)))"

definition public_key_response ::
    "('t :: linorder) chrono \<Rightarrow> ('sk, 'vk, 'sg) p256 \<Rightarrow> ('sk, 'vk) creator \<Rightarrow> str option
     \<Rightarrow> (str, error) res" where
  "public_key_response C E cr format =
     (if \<not> serves_format format
      then Err (InvalidKeyFormat (case format of Some f \<Rightarrow> f | None \<Rightarrow> []))
      else bind_res (subject_public_key_info E (creator_crypto cr)) (\<lambda>pem.
           public_key_answer C E pem None None None))"

text \<open>The moment the \<open>date\<close> parameter names: \<open>None\<close> where it is not a count of minutes.\<close>

definition asked_moment ::
    "('t :: linorder) chrono \<Rightarrow> str option \<Rightarrow> 't \<Rightarrow> ('t option, error) res" where
  "asked_moment C date now =
     (case date of
        None \<Rightarrow> Ok (Some now)
      | Some date \<Rightarrow>
          if date = [] then Ok (Some now)
          else case parse_u32 date of
            None \<Rightarrow> Ok None
          | Some minutes \<Rightarrow>
              (case add_minutes C (base_date C) (uint minutes) of
                 None \<Rightarrow> Panic
               | Some d \<Rightarrow> Ok (Some (min d now))))"

definition public_key_response_at ::
    "('t :: linorder) chrono \<Rightarrow> ('sk, 'vk, 'sg) p256 \<Rightarrow> 't public_key_schedule \<Rightarrow> str option
     \<Rightarrow> str option \<Rightarrow> 't \<Rightarrow> (nat \<times> str, error) res" where
  "public_key_response_at C E schedule format date now =
     (if \<not> serves_format format then Ok (400, [])
      else bind_res (asked_moment C date now) (\<lambda>asked.
      case asked of
        None \<Rightarrow> Ok (400, [])
      | Some asked \<Rightarrow>
          bind_res (key_in_force schedule asked) (\<lambda>key.
          case key of
            None \<Rightarrow> Ok (404, [])
          | Some key \<Rightarrow>
              bind_res
                (public_key_answer C E (dated_pem key) (Some (starts_at key))
                   (next_start_after schedule key) (Some asked))
                (\<lambda>body. Ok (200, body)))))"

section \<open>Lemmas\<close>

text \<open>A key in force at a moment, with its span, passes the check for that moment.\<close>

lemma validate_in_force:
  assumes "chosen keys at = Some k" "\<exists>c. new_verify_only E (dated_pem k) = Ok c"
  shows "validate E (published_answer_new (dated_pem k) (Some (starts_at k))
    (next_start_after (schedule_new keys) k)) (Some at) = Ok ()"
proof -
  from chosen_span [OF assms(1), of at] assms(1) have "starts_at k \<le> at"
    "next_start_after (schedule_new keys) k = Some e \<Longrightarrow> at < e" for e by auto
  then show ?thesis
    using assms(2) by (auto simp: validate_Ok check_span_cases(1) check_asked_cases(1)
        published_answer_new_def intro: order.strict_trans1)
qed

text \<open>What a client makes of the answer for a key in force.\<close>

lemma answer_in_force:
  assumes "rfc3339_ok C whole" "chosen keys at = Some k"
    and "\<forall>k \<in> set keys. (\<exists>c. new_verify_only E (dated_pem k) = Ok c) \<and> whole (starts_at k)"
  defines "a \<equiv> published_answer_new (dated_pem k) (Some (starts_at k))
    (next_start_after (schedule_new keys) k)"
  shows "validate E a (Some at) = Ok ()" "parse_answer C (to_json C a) = Ok a"
proof -
  have k: "k \<in> set keys" using chosen_Some [OF assms(2)] by auto
  then show "validate E a (Some at) = Ok ()"
    using validate_in_force [OF assms(2), of E] assms(3) by (simp add: a_def)
  have "whole e" if "next_start_after (schedule_new keys) k = Some e" for e
    using next_start_after_Some [OF that] assms(3) by blast
  with k assms(3) show "parse_answer C (to_json C a) = Ok a"
    by (intro answer_json [OF assms(1)]) (auto simp: a_def published_answer_new_def)
qed

lemma asked_moment_le:
  "asked_moment C date now = Ok (Some t) \<Longrightarrow> t \<le> now"
  by (auto simp: asked_moment_def split: option.splits if_splits)

lemma asked_moment_total:
  assumes "dates_ok C"
  shows "asked_moment C date now = Ok None \<or> (\<exists>t. asked_moment C date now = Ok (Some t))"
proof -
  have "\<exists>d. add_minutes C (base_date C) (uint m) = Some d" for m :: u32
    by (rule moment_of_minutes [OF assms, of m]) blast
  then show ?thesis
    by (auto simp: asked_moment_def split: option.splits) (metis option.distinct(1))
qed

lemma response_at:
  assumes "dates_ok C" "rfc3339_ok C whole"
    and "\<forall>k \<in> set keys. (\<exists>c. new_verify_only E (dated_pem k) = Ok c) \<and> whole (starts_at k)"
  shows "\<exists>status body. public_key_response_at C E (schedule_new keys) format date now = Ok (status, body)
    \<and> (status = 400 \<longleftrightarrow> \<not> serves_format format \<or> asked_moment C date now = Ok None)
    \<and> (status = 400 \<or> status = 404 \<longrightarrow> body = [])
    \<and> (status = 404 \<longrightarrow> (\<exists>t \<le> now. asked_moment C date now = Ok (Some t)
                          \<and> (\<forall>k \<in> set keys. t < starts_at k)))
    \<and> (status \<noteq> 400 \<and> status \<noteq> 404 \<longrightarrow> status = 200
         \<and> (\<exists>t k. asked_moment C date now = Ok (Some t) \<and> t \<le> now
              \<and> key_in_force (schedule_new keys) t = Ok (Some k) \<and> starts_at k \<le> now
              \<and> (let a = published_answer_new (dated_pem k) (Some (starts_at k))
                           (next_start_after (schedule_new keys) k)
                 in parse_answer C body = Ok a \<and> validate E a (Some t) = Ok ())))"
proof (cases "serves_format format")
  case True
  from asked_moment_total [OF assms(1), of date now] consider "asked_moment C date now = Ok None"
    | t where "asked_moment C date now = Ok (Some t)" by (auto simp: is_ok_iff)
  then show ?thesis
  proof cases
    case 1
    then show ?thesis using True by (simp add: public_key_response_at_def)
  next
    case (2 t)
    have t: "t \<le> now" using 2 by (rule asked_moment_le)
    show ?thesis
    proof (cases "chosen keys t")
      case None
      then show ?thesis
        using True 2 t chosen_None [THEN iffD1, OF None]
        by (simp add: public_key_response_at_def key_in_force_chosen)
    next
      case (Some k)
      let ?a = "published_answer_new (dated_pem k) (Some (starts_at k))
        (next_start_after (schedule_new keys) k)"
      have k: "k \<in> set keys" "starts_at k \<le> t" using chosen_Some [OF Some] by auto
      show ?thesis
        using True 2 t k answer_in_force [OF assms(2) Some assms(3)] Some
        by (simp add: public_key_response_at_def key_in_force_chosen public_key_answer_def Let_def)
    qed
  qed
qed (simp add: public_key_response_at_def)

section \<open>Properties\<close>


definition weekly_keys :: "int dated_public_key list" where
  "weekly_keys = [dated_public_key_new 1577836860 (lit ''9''), dated_public_key_new 1577837400 (lit ''8'')]"

lemma numbered_readable:
  "\<exists>c. new_verify_only numbered (lit ''8'') = Ok c" "\<exists>c. new_verify_only numbered (lit ''9'') = Ok c"
  unfolding readable_key(1)
  by (simp_all add: numbered_def read_number_def parse_u32_def from_str_radix_def lit_def
      to_digit_def is_whitespace_def)


text \<open>A creator with one key and no schedule serves the spki format and no other, and what
  it serves is read and accepted by a client as its public key with no span.\<close>

theorem single_key_response:
  fixes C :: "('t :: linorder) chrono"
  assumes "rfc3339_ok C whole" "public_pem_ok E"
    and "creator_new d c = Ok cr" "public_key_pem E c = Ok pem"
  shows "\<exists>body. (public_key_response C E cr format
      = (if serves_format format then Ok body
         else Err (InvalidKeyFormat (case format of Some f \<Rightarrow> f | None \<Rightarrow> []))))
    \<and> parse_answer C body = Ok (published_answer_new pem None None)
    \<and> validate E (published_answer_new pem None None :: 't published_answer) None = Ok ()"
proof -
  have c: "creator_crypto cr = c" using assms(3) by (auto simp: creator_new_Ok)
  obtain v where v: "verifying_key c = Some v" "to_public_key_pem E v = Inr pem"
    using assms(4) by (cases "verifying_key c")
      (auto simp: public_key_pem_def subject_public_key_info_def)
  then have "from_public_key_pem E pem = Inr v" "trim pem \<noteq> []"
    using assms(2) by (simp_all add: public_pem_ok_def)
  then have valid: "validate E (published_answer_new pem None None :: 't published_answer) None = Ok ()"
    by (simp add: validate_Ok new_verify_only_Ok check_span_cases(1) check_asked_cases(1)
        published_answer_new_def)
  moreover have "parse_answer C (to_json C (published_answer_new pem None None))
      = Ok (published_answer_new pem None None)"
    by (rule answer_json [OF assms(1)]) (simp add: published_answer_new_def)
  moreover have "subject_public_key_info E c = Ok pem"
    using assms(4) by (simp add: public_key_pem_def)
  ultimately show ?thesis
    by (intro exI [of _ "to_json C (published_answer_new pem None None)"])
      (simp add: public_key_response_def public_key_answer_def c)
qed

theorem single_key_response_witness:
  "\<exists>body. public_key_response utc_seconds numbered sample_creator (Some (lit ''spki'')) = Ok body
    \<and> parse_answer utc_seconds body = Ok (published_answer_new (lit ''9'') None None)"
  using single_key_response [OF rfc3339_ok_utc public_pem_ok_numbered sample_creator_new
      sample_public_pem, of "Some (lit ''spki'')"]
  by (auto simp: serves_format_def SPKI_FORMAT_def)

end
