(* ===== verification/KeyRequest.thy ===== *)
theory KeyRequest
  imports KeyUrl KeyHistory Endpoints
begin

text \<open>
  One public key request (src/src/fetch.rs): what the transport is, how its answer is read,
  the failure shared with waiting callers, and a caller of \<open>key_at_url\<close> that has the process
  to itself. Callers that overlap are in Fetching.
\<close>

section \<open>Definitions\<close>

record fetch_response =
  response_status :: nat
  response_body :: str

text \<open>
  The transport is an argument: what \<open>PublicKeyFetch::fetch\<close> answers for a URL. A panic inside
  it is \<open>Panic\<close>.
\<close>

type_synonym transport = "str \<Rightarrow> (fetch_response, error) res"

definition request_public_key ::
    "('t :: linorder) chrono \<Rightarrow> ('sk, 'vk, 'sg) p256 \<Rightarrow> transport \<Rightarrow> str
     \<Rightarrow> (str \<times> u32 option \<times> u32 option, error) res" where
  "request_public_key C E fetch url =
     bind_res (fetch url) (\<lambda>response.
     if 300 \<le> response_status response \<and> response_status response < 400
     then Err (Http (lit ''the public key end point answered a redirect (''
            @ decimal (response_status response) @ lit '') for '' @ url
            @ lit '', which is never followed''))
     else if response_status response \<noteq> 200
     then Err (Http (lit ''the public key end point answered ''
            @ decimal (response_status response) @ lit '' for '' @ url))
     else
     bind_res (parse_answer C (response_body response)) (\<lambda>answer.
     bind_res (validate E answer None) (\<lambda>_.
     Ok (answer_public_key answer,
         Option.bind (valid_from answer) (minutes_since_base C),
         Option.bind (valid_to answer) (minutes_since_base C)))))"

datatype fetch_failure = FetchHttp str | FetchKey str

fun into_error :: "fetch_failure \<Rightarrow> error" where
  "into_error (FetchHttp message) = Http message"
| "into_error (FetchKey message) = Key message"

text \<open>What the caller making the request shares: the two error arms of the match in \<open>key_at_url\<close>.\<close>

fun failure_of :: "error \<Rightarrow> fetch_failure" where
  "failure_of (Http message) = FetchHttp message"
| "failure_of other = FetchKey (error_to_string other)"

text \<open>
  The outcome of the request: the answer held and handed back, or the failure. \<open>now\<close> is the
  moment at which the answer is recorded.
\<close>

definition fetch_outcome ::
    "'t chrono \<Rightarrow> 't \<Rightarrow> cache \<Rightarrow> str \<Rightarrow> bool
     \<Rightarrow> (str \<times> u32 option \<times> u32 option, error) res
     \<Rightarrow> ((fetch_failure + key_answer) \<times> cache, error) res" where
  "fetch_outcome C now c url is_recent requested =
     (case requested of
        Ok (pem, start, finish) \<Rightarrow>
          bind_res (hold (now_minute C now) c (end_point_of url) (minute_of url) is_recent pem start finish)
            (\<lambda>(answer, c). Ok (Inr answer, c))
      | Err e \<Rightarrow> Ok (Inl (failure_of e), c)
      | Panic \<Rightarrow> Panic)"

definition is_recent_url :: "'t chrono \<Rightarrow> 't \<Rightarrow> str \<Rightarrow> bool" where
  "is_recent_url C now url =
     (case minute_of url of None \<Rightarrow> False | Some minute \<Rightarrow> recent C now minute)"

definition cached_answer :: "cache \<Rightarrow> str \<Rightarrow> bool \<Rightarrow> key_answer option" where
  "cached_answer c url is_recent =
     Option.bind (minute_of url) (\<lambda>minute. held_for c (end_point_of url) minute is_recent)"

text \<open>A caller with no other caller about: the cache, else the transport.\<close>

definition key_at_url ::
    "('t :: linorder) chrono \<Rightarrow> ('sk, 'vk, 'sg) p256 \<Rightarrow> transport \<Rightarrow> 't \<Rightarrow> str \<Rightarrow> cache
     \<Rightarrow> (key_answer, error) res \<times> cache" where
  "key_at_url C E fetch now url c =
     (case cached_answer c url (is_recent_url C now url) of
        Some answer \<Rightarrow> (Ok answer, c)
      | None \<Rightarrow>
          (case fetch_outcome C now c url (is_recent_url C now url) (request_public_key C E fetch url) of
             Ok (Inr answer, c) \<Rightarrow> (Ok answer, c)
           | Ok (Inl failure, c) \<Rightarrow> (Err (into_error failure), c)
           | _ \<Rightarrow> (Panic, c)))"

text \<open>The key alone, as the tests ask for it.\<close>

definition fetched_public_key_pem ::
    "('t :: linorder) chrono \<Rightarrow> ('sk, 'vk, 'sg) p256 \<Rightarrow> transport \<Rightarrow> 't \<Rightarrow> str \<Rightarrow> cache
     \<Rightarrow> (str, error) res \<times> cache" where
  "fetched_public_key_pem C E fetch now url c =
     (let (r, c) = key_at_url C E fetch now url c in (bind_res r (\<lambda>a. Ok (answer_pem a)), c))"

section \<open>Lemmas\<close>

lemma request_public_key_Ok:
  "request_public_key C E fetch url = Ok (pem, s, e) \<longleftrightarrow>
     (\<exists>r a. fetch url = Ok r \<and> response_status r = 200 \<and> parse_answer C (response_body r) = Ok a
        \<and> validate E a None = Ok () \<and> pem = answer_public_key a
        \<and> s = Option.bind (valid_from a) (minutes_since_base C)
        \<and> e = Option.bind (valid_to a) (minutes_since_base C))"
  by (auto simp: request_public_key_def bind_res_Ok_iff split: if_splits)

text \<open>Recording keeps the cache consistent and hands back what the creator stated.\<close>

lemma fetch_outcome_result:
  assumes "cache_inv c" "requested \<noteq> Panic"
  shows "\<exists>c'. cache_inv c' \<and> in_flight c' = in_flight c
    \<and> fetch_outcome C now c url r requested =
        Ok (case requested of
              Ok (pem, s, e) \<Rightarrow> Inr (key_answer_stated pem s e)
            | Err e \<Rightarrow> Inl (failure_of e) | Panic \<Rightarrow> undefined, c')
    \<and> ((\<forall>k. requested \<noteq> Ok k) \<longrightarrow> c' = c)"
proof (cases requested)
  case (Ok k)
  obtain pem s e where k: "k = (pem, s, e)" by (cases k)
  from hold_inv [OF assms(1)] obtain c' where
    "hold (now_minute C now) c (end_point_of url) (minute_of url) r pem s e
      = Ok (key_answer_stated pem s e, c')" "cache_inv c'" "in_flight c' = in_flight c" by blast
  then show ?thesis by (simp add: fetch_outcome_def Ok k)
next
  case (Err e)
  then show ?thesis using assms(1) by (simp add: fetch_outcome_def)
qed (use assms in simp)

text \<open>What a caller gets whose request was answered so.\<close>

fun returned_of :: "(str \<times> u32 option \<times> u32 option, error) res \<Rightarrow> (key_answer, error) res" where
  "returned_of (Ok (pem, s, e)) = Ok (key_answer_stated pem s e)"
| "returned_of (Err e) = Err (into_error (failure_of e))"
| "returned_of Panic = Panic"

lemma key_at_url_miss:
  assumes "cached_answer c url (is_recent_url C now url) = None" "cache_inv c"
    and "request_public_key C E fetch url \<noteq> Panic"
  shows "\<exists>c'. key_at_url C E fetch now url c = (returned_of (request_public_key C E fetch url), c')
    \<and> ((\<forall>k. request_public_key C E fetch url \<noteq> Ok k) \<longrightarrow> c' = c)"
  using fetch_outcome_result [OF assms(2,3), of C now url "is_recent_url C now url"] assms(1,3)
  by (cases "request_public_key C E fetch url") (auto simp: key_at_url_def)

lemma request_total:
  assumes "\<forall>u. fetch u \<noteq> Panic"
  shows "request_public_key C E fetch url \<noteq> Panic"
  using assms
  by (auto simp: request_public_key_def bind_res_Panic_iff parse_answer_total validate_total
      split: if_splits)

lemma answer_pem_stated [simp]: "answer_pem (key_answer_stated pem s e) = pem"
  by (simp add: key_answer_stated_def key_answer_known_def key_answer_unknown_def split: option.splits)

section \<open>Properties\<close>

text \<open>C23: Only a 200 whose body is the answer the specification requires yields a key: a
  redirect, any other status and a transport that failed are an HTTP failure, and a 200 with
  anything else is a key that cannot be read. Nothing is held from any of these.\<close>

theorem only_a_valid_answer_yields_a_key:
  assumes "\<forall>u. fetch u \<noteq> Panic" "cache_inv c"
    and "key_at_url C E fetch now url c = (result, c')" "cached_answer c url (is_recent_url C now url) = None"
  shows "(\<forall>a. result = Ok a \<longrightarrow>
       (\<exists>r b. fetch url = Ok r \<and> response_status r = 200 \<and> parse_answer C (response_body r) = Ok b
          \<and> validate E b None = Ok () \<and> answer_pem a = answer_public_key b))
    \<and> (\<forall>e. result = Err e \<longrightarrow> c' = c \<and>
         (if \<exists>r. fetch url = Ok r \<and> response_status r = 200 then \<exists>m. e = Key m
          else (\<exists>m. e = Http m) \<or> (\<exists>f. fetch url = Err f \<and> e = into_error (failure_of f))))
    \<and> result \<noteq> Panic"
proof -
  let ?q = "request_public_key C E fetch url"
  have total: "?q \<noteq> Panic" using assms(1) by (rule request_total)
  from key_at_url_miss [OF assms(4,2) total] assms(3) have
    r: "result = returned_of ?q" and same: "(\<forall>k. ?q \<noteq> Ok k) \<longrightarrow> c' = c" by auto
  show ?thesis
  proof (cases ?q)
    case (Ok k)
    obtain pem s e where k: "k = (pem, s, e)" by (cases k)
    with Ok r have "result = Ok (key_answer_stated pem s e)" by simp
    then show ?thesis using Ok k by (auto simp: request_public_key_Ok)
  next
    case (Err e)
    with r same have r: "result = Err (into_error (failure_of e))" "c' = c" by auto
    have "if \<exists>r. fetch url = Ok r \<and> response_status r = 200 then \<exists>m. e = Key m
        else (\<exists>m. e = Http m) \<or> fetch url = Err e"
      using Err parse_answer_Err [of C] validate_Err [of E]
      by (auto simp: request_public_key_def bind_res_Err_iff split: if_splits)
    then show ?thesis using r by (auto split: if_splits)
  qed (use total in blast)
qed

text \<open>A creator that does not reach the date answers 404.\<close>

definition no_key :: transport where
  "no_key url = Ok \<lparr> response_status = 404, response_body = [] \<rparr>"

theorem only_a_valid_answer_yields_a_key_witness:
  "\<exists>m. key_at_url utc_seconds numbered no_key 1577836980 (lit ''https://a.b/key?date=3'') empty_cache
     = (Err (Http m), empty_cache)"
proof -
  let ?z = "key_at_url utc_seconds numbered no_key 1577836980 (lit ''https://a.b/key?date=3'') empty_cache"
  have "\<forall>u. no_key u \<noteq> Panic" by (simp add: no_key_def)
  moreover have "cached_answer empty_cache u r = None" for u r
    by (simp add: cached_answer_def held_for_def empty_cache_def split: option.splits)
  ultimately show ?thesis
    using only_a_valid_answer_yields_a_key [of no_key empty_cache utc_seconds numbered 1577836980
        "lit ''https://a.b/key?date=3''" "fst ?z" "snd ?z"]
    by (cases ?z; cases "fst ?z") (auto simp: no_key_def cache_inv_empty)
qed

end
