(* ===== verification/Fetching.thy ===== *)
theory Fetching
  imports KeyRequest
begin

text \<open>
  Callers of \<open>key_at_url\<close> that overlap (src/src/fetch.rs): the cache and the fetches under way
  are shared, and between two awaits any other caller may run, drop out, or clear the cache.
  Each locked section and each poll is one step. A leader that is dropped runs \<open>Drop\<close> in two
  steps, because it takes two locks one after the other.
\<close>

section \<open>State\<close>

type_synonym shared = "(fetch_failure + key_answer) option"

text \<open>\<open>InFlightState\<close>; a waker is the caller it wakes.\<close>

record flight =
  finished :: bool
  outcome :: shared
  wakers :: "nat list"

text \<open>
  Where a caller is: at the head of the loop, awaiting the transport as the leader of a
  flight, inside \<open>Drop\<close> of the leader before and after its first lock, holding a flight it is
  to poll, suspended by that poll, or done.
\<close>

datatype phase =
    Asking
  | Leading nat
  | Unlisting nat shared
  | Ending nat shared
  | Waiting nat
  | Parked nat
  | Returned "(key_answer, error) res"
  | Dropped

record caller =
  caller_url :: str
  caller_recent :: bool
  caller_phase :: phase

record world =
  world_cache :: cache
  flights :: "nat \<rightharpoonup> flight"
  callers :: "nat \<rightharpoonup> caller"
  next_flight :: nat

definition empty_world :: world where
  "empty_world = \<lparr> world_cache = empty_cache, flights = Map.empty, callers = Map.empty,
     next_flight = 0 \<rparr>"

definition set_phase :: "world \<Rightarrow> nat \<Rightarrow> caller \<Rightarrow> phase \<Rightarrow> world" where
  "set_phase w i c p = w\<lparr> callers := (callers w)(i \<mapsto> c\<lparr> caller_phase := p \<rparr>) \<rparr>"

section \<open>Operations\<close>

text \<open>The locked section at the head of the loop, choosing a \<open>Turn\<close>.\<close>

definition turn :: "world \<Rightarrow> nat \<Rightarrow> caller \<Rightarrow> world" where
  "turn w i c =
     (case cached_answer (world_cache w) (caller_url c) (caller_recent c) of
        Some answer \<Rightarrow> set_phase w i c (Returned (Ok answer))
      | None \<Rightarrow>
          (case in_flight (world_cache w) (caller_url c) of
             Some f \<Rightarrow> set_phase w i c (Waiting f)
           | None \<Rightarrow>
               let f = next_flight w in
               set_phase
                 (w\<lparr> world_cache := (world_cache w)\<lparr> in_flight := (in_flight (world_cache w))(caller_url c \<mapsto> f) \<rparr>,
                    flights := (flights w)(f \<mapsto> \<lparr> finished = False, outcome = None, wakers = [] \<rparr>),
                    next_flight := f + 1 \<rparr>)
                 i c (Leading f)))"

text \<open>The transport answered the leader: the answer is held, and the leader is about to drop.\<close>

definition respond ::
    "'t chrono \<Rightarrow> 't \<Rightarrow> world \<Rightarrow> nat \<Rightarrow> caller \<Rightarrow> nat
     \<Rightarrow> (str \<times> u32 option \<times> u32 option, error) res \<Rightarrow> world" where
  "respond C now w i c f requested =
     (case fetch_outcome C now (world_cache w) (caller_url c) (caller_recent c) requested of
        Ok (out, k) \<Rightarrow> set_phase (w\<lparr> world_cache := k \<rparr>) i c (Unlisting f (Some out))
      | _ \<Rightarrow> set_phase w i c (Unlisting f None))"

text \<open>\<open>Drop for Leader\<close>: the entry is removed under the cache's lock, then the flight ends.\<close>

definition unlist :: "world \<Rightarrow> nat \<Rightarrow> caller \<Rightarrow> nat \<Rightarrow> shared \<Rightarrow> world" where
  "unlist w i c f out =
     set_phase
       (w\<lparr> world_cache := (world_cache w)\<lparr> in_flight := (in_flight (world_cache w))(caller_url c := None) \<rparr> \<rparr>)
       i c (Ending f out)"

fun result_of :: "fetch_failure + key_answer \<Rightarrow> (key_answer, error) res" where
  "result_of (Inr answer) = Ok answer"
| "result_of (Inl failure) = Err (into_error failure)"

definition wake :: "nat list \<Rightarrow> nat \<Rightarrow> (nat \<rightharpoonup> caller) \<Rightarrow> nat \<rightharpoonup> caller" where
  "wake ws f cs = (\<lambda>j. case cs j of
       None \<Rightarrow> None
     | Some c \<Rightarrow> if j \<in> set ws \<and> caller_phase c = Parked f then Some (c\<lparr> caller_phase := Waiting f \<rparr>)
                else Some c)"

definition finish_flight :: "world \<Rightarrow> nat \<Rightarrow> caller \<Rightarrow> nat \<Rightarrow> shared \<Rightarrow> world" where
  "finish_flight w i c f out =
     (case flights w f of
        None \<Rightarrow> w
      | Some fl \<Rightarrow>
          set_phase
            (w\<lparr> flights := (flights w)(f \<mapsto> \<lparr> finished = True, outcome = out, wakers = [] \<rparr>),
               callers := wake (wakers fl) f (callers w) \<rparr>)
            i c (case out of Some r \<Rightarrow> Returned (result_of r) | None \<Rightarrow> Dropped))"

text \<open>\<open>Finished::poll\<close>, with what the match on its outcome does next.\<close>

definition poll :: "world \<Rightarrow> nat \<Rightarrow> caller \<Rightarrow> nat \<Rightarrow> world" where
  "poll w i c f =
     (case flights w f of
        None \<Rightarrow> w
      | Some fl \<Rightarrow>
          if finished fl
          then set_phase w i c (case outcome fl of Some r \<Rightarrow> Returned (result_of r) | None \<Rightarrow> Asking)
          else set_phase
                 (w\<lparr> flights := (flights w)(f \<mapsto> fl\<lparr> wakers := filter (\<lambda>j. j \<noteq> i) (wakers fl) @ [i] \<rparr>) \<rparr>)
                 i c (Parked f))"

text \<open>
  What can happen next, by what it is: a caller arriving, one of the steps above, a caller
  dropped, a suspended caller polled again without having been woken, or the cache cleared.
  The answer of the transport carries the URL it answers.
\<close>

datatype action =
    Enter
  | Turn
  | Respond str "(str \<times> u32 option \<times> u32 option, error) res"
  | Cancel
  | Unlist
  | Finish
  | Poll
  | Again
  | Clear

inductive acts :: "'t chrono \<Rightarrow> world \<Rightarrow> action \<Rightarrow> world \<Rightarrow> bool" for C :: "'t chrono" where
  enter: "callers w i = None \<Longrightarrow> acts C w Enter (w\<lparr> callers := (callers w)(i \<mapsto> \<lparr> caller_url = url, caller_recent = is_recent_url C now url,
       caller_phase = Asking \<rparr>) \<rparr>)"
| turn: "callers w i = Some c \<Longrightarrow> caller_phase c = Asking
    \<Longrightarrow> acts C w Turn (turn w i c)"
| respond: "callers w i = Some c \<Longrightarrow> caller_phase c = Leading f
    \<Longrightarrow> acts C w (Respond (caller_url c) requested) (respond C now w i c f requested)"
| cancel_lead: "callers w i = Some c \<Longrightarrow> caller_phase c = Leading f
    \<Longrightarrow> acts C w Cancel (set_phase w i c (Unlisting f None))"
| unlist: "callers w i = Some c \<Longrightarrow> caller_phase c = Unlisting f out
    \<Longrightarrow> acts C w Unlist (unlist w i c f out)"
| finish: "callers w i = Some c \<Longrightarrow> caller_phase c = Ending f out
    \<Longrightarrow> acts C w Finish (finish_flight w i c f out)"
| poll: "callers w i = Some c \<Longrightarrow> caller_phase c = Waiting f
    \<Longrightarrow> acts C w Poll (poll w i c f)"
| again: "callers w i = Some c \<Longrightarrow> caller_phase c = Parked f
    \<Longrightarrow> acts C w Again (set_phase w i c (Waiting f))"
| cancel_wait: "callers w i = Some c \<Longrightarrow> caller_phase c = Waiting f \<or> caller_phase c = Parked f
    \<Longrightarrow> acts C w Cancel (set_phase w i c Dropped)"
| clear: "acts C w Clear (w\<lparr> world_cache := clear_cache (world_cache w) \<rparr>)"

text \<open>A step, with the clearing of the cache or without it.\<close>

definition step :: "'t chrono \<Rightarrow> bool \<Rightarrow> world \<Rightarrow> world \<Rightarrow> bool" where
  "step C may_clear w w' \<longleftrightarrow> (\<exists>a. acts C w a w' \<and> (a = Clear \<longrightarrow> may_clear))"

inductive run :: "'t chrono \<Rightarrow> bool \<Rightarrow> world \<Rightarrow> bool" for C :: "'t chrono" and may_clear :: bool where
  start: "run C may_clear empty_world"
| more: "run C may_clear w \<Longrightarrow> step C may_clear w w' \<Longrightarrow> run C may_clear w'"

text \<open>The states reachable by the actions allowed.\<close>

inductive reach :: "'t chrono \<Rightarrow> (action \<Rightarrow> bool) \<Rightarrow> world \<Rightarrow> bool"
  for C :: "'t chrono" and allowed :: "action \<Rightarrow> bool" where
  start: "reach C allowed empty_world"
| more: "reach C allowed w \<Longrightarrow> acts C w a w' \<Longrightarrow> allowed a \<Longrightarrow> reach C allowed w'"

lemma reach_run: "reach C allowed w \<Longrightarrow> allowed Clear \<longrightarrow> may_clear \<Longrightarrow> run C may_clear w"
proof (induction rule: reach.induct)
  case (more w a w')
  then have "step C may_clear w w'" by (auto simp: step_def)
  with more show ?case by (blast intro: run.more)
qed (rule run.start)

section \<open>Rules for steps\<close>

lemma step_enter: "callers w i = None
    \<Longrightarrow> step C may_clear w (w\<lparr> callers := (callers w)(i \<mapsto> \<lparr> caller_url = url, caller_recent = is_recent_url C now url,
       caller_phase = Asking \<rparr>) \<rparr>)"
  unfolding step_def by (blast intro: acts.enter)

lemma step_turn: "callers w i = Some c \<Longrightarrow> caller_phase c = Asking
    \<Longrightarrow> step C may_clear w (turn w i c)"
  unfolding step_def by (blast intro: acts.turn)

lemma step_respond: "callers w i = Some c \<Longrightarrow> caller_phase c = Leading f
    \<Longrightarrow> step C may_clear w (respond C now w i c f requested)"
  unfolding step_def by (blast intro: acts.respond)

lemma step_cancel_lead: "callers w i = Some c \<Longrightarrow> caller_phase c = Leading f
    \<Longrightarrow> step C may_clear w (set_phase w i c (Unlisting f None))"
  unfolding step_def by (blast intro: acts.cancel_lead)

lemma step_unlist: "callers w i = Some c \<Longrightarrow> caller_phase c = Unlisting f out
    \<Longrightarrow> step C may_clear w (unlist w i c f out)"
  unfolding step_def by (blast intro: acts.unlist)

lemma step_finish: "callers w i = Some c \<Longrightarrow> caller_phase c = Ending f out
    \<Longrightarrow> step C may_clear w (finish_flight w i c f out)"
  unfolding step_def by (blast intro: acts.finish)

lemma step_poll: "callers w i = Some c \<Longrightarrow> caller_phase c = Waiting f
    \<Longrightarrow> step C may_clear w (poll w i c f)"
  unfolding step_def by (blast intro: acts.poll)

lemma step_again: "callers w i = Some c \<Longrightarrow> caller_phase c = Parked f
    \<Longrightarrow> step C may_clear w (set_phase w i c (Waiting f))"
  unfolding step_def by (blast intro: acts.again)

lemma step_cancel_wait: "callers w i = Some c \<Longrightarrow> caller_phase c = Waiting f \<or> caller_phase c = Parked f
    \<Longrightarrow> step C may_clear w (set_phase w i c Dropped)"
  unfolding step_def by (blast intro: acts.cancel_wait)

lemma step_clear: "may_clear
    \<Longrightarrow> step C may_clear w (w\<lparr> world_cache := clear_cache (world_cache w) \<rparr>)"
  unfolding step_def by (blast intro: acts.clear)

lemma step_cases [consumes 1, case_names enter turn respond cancel_lead unlist finish poll again cancel_wait clear]:
  assumes "step C may_clear w w'"
  obtains i url now where "w' = w\<lparr> callers := (callers w)(i \<mapsto> \<lparr> caller_url = url, caller_recent = is_recent_url C now url,
       caller_phase = Asking \<rparr>) \<rparr>" "callers w i = None"
  | i c where "w' = turn w i c" "callers w i = Some c" "caller_phase c = Asking"
  | i c f now requested where "w' = respond C now w i c f requested" "callers w i = Some c" "caller_phase c = Leading f"
  | i c f where "w' = set_phase w i c (Unlisting f None)" "callers w i = Some c" "caller_phase c = Leading f"
  | i c f out where "w' = unlist w i c f out" "callers w i = Some c" "caller_phase c = Unlisting f out"
  | i c f out where "w' = finish_flight w i c f out" "callers w i = Some c" "caller_phase c = Ending f out"
  | i c f where "w' = poll w i c f" "callers w i = Some c" "caller_phase c = Waiting f"
  | i c f where "w' = set_phase w i c (Waiting f)" "callers w i = Some c" "caller_phase c = Parked f"
  | i c f where "w' = set_phase w i c Dropped" "callers w i = Some c" "caller_phase c = Waiting f \<or> caller_phase c = Parked f"
  | "w' = w\<lparr> world_cache := clear_cache (world_cache w) \<rparr>" "may_clear"
proof -
  from assms obtain a where "acts C w a w'" "a = Clear \<longrightarrow> may_clear" by (auto simp: step_def)
  then show thesis by (cases rule: acts.cases) (use that in simp_all)
qed

lemma step_induct [consumes 1, case_names enter turn respond cancel_lead unlist finish poll again cancel_wait clear]:
  assumes "step C may_clear w w'"
    and "\<And>w i url now. callers w i = None \<Longrightarrow> P w (w\<lparr> callers := (callers w)(i \<mapsto> \<lparr> caller_url = url, caller_recent = is_recent_url C now url,
       caller_phase = Asking \<rparr>) \<rparr>)"
    and "\<And>w i c. callers w i = Some c \<Longrightarrow> caller_phase c = Asking \<Longrightarrow> P w (turn w i c)"
    and "\<And>w i c f now requested. callers w i = Some c \<Longrightarrow> caller_phase c = Leading f \<Longrightarrow> P w (respond C now w i c f requested)"
    and "\<And>w i c f. callers w i = Some c \<Longrightarrow> caller_phase c = Leading f \<Longrightarrow> P w (set_phase w i c (Unlisting f None))"
    and "\<And>w i c f out. callers w i = Some c \<Longrightarrow> caller_phase c = Unlisting f out \<Longrightarrow> P w (unlist w i c f out)"
    and "\<And>w i c f out. callers w i = Some c \<Longrightarrow> caller_phase c = Ending f out \<Longrightarrow> P w (finish_flight w i c f out)"
    and "\<And>w i c f. callers w i = Some c \<Longrightarrow> caller_phase c = Waiting f \<Longrightarrow> P w (poll w i c f)"
    and "\<And>w i c f. callers w i = Some c \<Longrightarrow> caller_phase c = Parked f \<Longrightarrow> P w (set_phase w i c (Waiting f))"
    and "\<And>w i c f. callers w i = Some c \<Longrightarrow> caller_phase c = Waiting f \<or> caller_phase c = Parked f \<Longrightarrow> P w (set_phase w i c Dropped)"
    and "\<And>w. may_clear \<Longrightarrow> P w (w\<lparr> world_cache := clear_cache (world_cache w) \<rparr>)"
  shows "P w w'"
  using assms(1) by (cases rule: step_cases) (simp_all add: assms(2-))

section \<open>Invariant\<close>

fun leads :: "phase \<Rightarrow> nat option" where
  "leads (Leading f) = Some f"
| "leads (Unlisting f _) = Some f"
| "leads (Ending f _) = Some f"
| "leads _ = None"

fun listed :: "phase \<Rightarrow> nat option" where
  "listed (Leading f) = Some f"
| "listed (Unlisting f _) = Some f"
| "listed _ = None"

fun waits :: "phase \<Rightarrow> nat option" where
  "waits (Waiting f) = Some f"
| "waits (Parked f) = Some f"
| "waits _ = None"

text \<open>What caller \<open>i\<close> is doing.\<close>

definition at_phase :: "world \<Rightarrow> nat \<Rightarrow> phase option" where
  "at_phase w i = map_option caller_phase (callers w i)"

definition led_by :: "world \<Rightarrow> nat \<Rightarrow> nat \<Rightarrow> bool" where
  "led_by w f i \<longleftrightarrow> (\<exists>p. at_phase w i = Some p \<and> leads p = Some f)"

definition flights_inv :: "world \<Rightarrow> bool" where
  "flights_inv w \<longleftrightarrow>
     (\<forall>f. next_flight w \<le> f \<longrightarrow> flights w f = None)
     \<and> (\<forall>f i. led_by w f i \<longrightarrow> (\<exists>fl. flights w f = Some fl \<and> \<not> finished fl))
     \<and> (\<forall>f fl. flights w f = Some fl \<longrightarrow> \<not> finished fl \<longrightarrow> (\<exists>i. led_by w f i))
     \<and> (\<forall>f i j. led_by w f i \<longrightarrow> led_by w f j \<longrightarrow> i = j)"

definition waiters_inv :: "world \<Rightarrow> bool" where
  "waiters_inv w \<longleftrightarrow>
     (\<forall>i p f. at_phase w i = Some p \<longrightarrow> waits p = Some f \<longrightarrow> flights w f \<noteq> None)
     \<and> (\<forall>i f. at_phase w i = Some (Parked f) \<longrightarrow>
          (\<exists>fl. flights w f = Some fl \<and> \<not> finished fl \<and> i \<in> set (wakers fl)))
     \<and> (\<forall>url f. in_flight (world_cache w) url = Some f \<longrightarrow>
          (\<exists>i c. callers w i = Some c \<and> caller_url c = url \<and> listed (caller_phase c) = Some f))"

text \<open>Where nothing clears the cache, a fetch stays listed under its URL while it is led.\<close>

definition listing_inv :: "world \<Rightarrow> bool" where
  "listing_inv w \<longleftrightarrow>
     (\<forall>i c f. callers w i = Some c \<longrightarrow> listed (caller_phase c) = Some f \<longrightarrow>
        in_flight (world_cache w) (caller_url c) = Some f)"

lemma set_phase_simps [simp]:
  "callers (set_phase w i c p) = (callers w)(i \<mapsto> c\<lparr> caller_phase := p \<rparr>)"
  "world_cache (set_phase w i c p) = world_cache w" "flights (set_phase w i c p) = flights w"
  "next_flight (set_phase w i c p) = next_flight w"
  "at_phase (set_phase w i c p) j = (if j = i then Some p else at_phase w j)"
  by (simp_all add: set_phase_def at_phase_def)

lemma at_phase_update [simp]:
  "at_phase (w\<lparr> world_cache := k \<rparr>) = at_phase w" "at_phase (w\<lparr> flights := fs \<rparr>) = at_phase w"
  "at_phase (w\<lparr> next_flight := n \<rparr>) = at_phase w"
  by (auto simp: at_phase_def fun_eq_iff)

lemma at_phase_caller: "callers w i = Some c \<Longrightarrow> at_phase w i = Some (caller_phase c)"
  by (simp add: at_phase_def)

text \<open>Only two steps change which flights are led or finished.\<close>

lemma flights_inv_same:
  assumes inv: "flights_inv w" and "next_flight w' = next_flight w"
    and fin: "\<And>f. map_option finished (flights w' f) = map_option finished (flights w f)"
    and led: "\<And>f j. led_by w' f j \<longleftrightarrow> led_by w f j"
  shows "flights_inv w'"
proof -
  have none: "flights w' f = None \<longleftrightarrow> flights w f = None" for f
    using fin [of f] by (cases "flights w f"; cases "flights w' f") auto
  have under: "(\<exists>fl. flights w' f = Some fl \<and> \<not> finished fl)
      \<longleftrightarrow> (\<exists>fl. flights w f = Some fl \<and> \<not> finished fl)" for f
    using fin [of f] by (cases "flights w f"; cases "flights w' f") auto
  have "\<exists>i. led_by w f i" if "flights w' f = Some fl" "\<not> finished fl" for f fl
  proof -
    from that under obtain fl' where "flights w f = Some fl'" "\<not> finished fl'" by blast
    with inv show ?thesis unfolding flights_inv_def by blast
  qed
  with inv assms(2) show ?thesis unfolding flights_inv_def none under led by simp
qed

lemma flights_inv_set_phase:
  assumes "flights_inv w" "at_phase w i = Some q \<or> (at_phase w i = None \<and> q = Asking)" "leads p = leads q"
    and "flights w' = flights w" "next_flight w' = next_flight w" "at_phase w' = at_phase w"
  shows "flights_inv (set_phase w' i c p)"
  by (rule flights_inv_same [OF assms(1)]) (use assms(2-) in \<open>auto simp: led_by_def\<close>)

lemma flights_inv_lead:
  assumes inv: "flights_inv w" and i: "at_phase w i = Some Asking"
    and w': "flights w' = (flights w)(next_flight w \<mapsto> fl)" "\<not> finished fl"
      "next_flight w' = next_flight w + 1" "at_phase w' = at_phase w"
  shows "flights_inv (set_phase w' i c (Leading (next_flight w)))"
proof -
  let ?f = "next_flight w"
  have new: "flights w ?f = None" using inv by (simp add: flights_inv_def)
  then have free: "\<not> led_by w ?f j" for j using inv by (auto simp: flights_inv_def)
  have led: "led_by (set_phase w' i c (Leading ?f)) g j \<longleftrightarrow> (if j = i then g = ?f else led_by w g j)" for g j
    by (auto simp: led_by_def w'(4))
  have no_i: "\<not> led_by w g i" for g using i by (simp add: led_by_def)
  show ?thesis
    unfolding flights_inv_def led
    using inv free no_i w' unfolding flights_inv_def
    by (auto split: if_splits) metis
qed

lemma at_phase_wake:
  "at_phase (w\<lparr> callers := wake ws f cs \<rparr>) j =
     (case cs j of None \<Rightarrow> None
      | Some c \<Rightarrow> Some (if j \<in> set ws \<and> caller_phase c = Parked f then Waiting f else caller_phase c))"
  by (simp add: at_phase_def wake_def split: option.splits)

lemma led_by_wake:
  "(\<exists>p. map_option caller_phase (wake ws f cs j) = Some p \<and> leads p = Some g)
   \<longleftrightarrow> (\<exists>p. map_option caller_phase (cs j) = Some p \<and> leads p = Some g)"
proof (cases "cs j")
  case (Some c)
  then show ?thesis by (cases "caller_phase c") (auto simp: wake_def)
qed (simp add: wake_def)

lemma flights_inv_finish:
  assumes inv: "flights_inv w" and c: "callers w i = Some c" "caller_phase c = Ending f out"
  shows "flights_inv (finish_flight w i c f out)"
proof -
  have i: "led_by w f i" using c by (simp add: led_by_def at_phase_def)
  then obtain fl where fl: "flights w f = Some fl" "\<not> finished fl" using inv by (auto simp: flights_inv_def)
  let ?w = "finish_flight w i c f out"
  have led: "led_by ?w g j \<longleftrightarrow> j \<noteq> i \<and> led_by w g j" for g j
  proof (cases "j = i")
    case True
    then show ?thesis by (simp add: finish_flight_def fl led_by_def split: option.splits)
  next
    case False
    then have "at_phase ?w j = map_option caller_phase (wake (wakers fl) f (callers w) j)"
      by (simp add: finish_flight_def fl at_phase_def)
    then have "led_by ?w g j \<longleftrightarrow>
        (\<exists>p. map_option caller_phase (wake (wakers fl) f (callers w) j) = Some p \<and> leads p = Some g)"
      by (simp only: led_by_def)
    also have "\<dots> \<longleftrightarrow> led_by w g j" unfolding led_by_wake led_by_def at_phase_def ..
    finally show ?thesis using False by simp
  qed
  have fls: "flights ?w = (flights w)(f \<mapsto> \<lparr> finished = True, outcome = out, wakers = [] \<rparr>)"
    "next_flight ?w = next_flight w" by (simp_all add: finish_flight_def fl)
  have only: "led_by w g i \<Longrightarrow> g = f" for g using c by (auto simp: led_by_def at_phase_def)
  have old: "\<And>g. next_flight w \<le> g \<Longrightarrow> flights w g = None"
    "\<And>g j. led_by w g j \<Longrightarrow> \<exists>fl. flights w g = Some fl \<and> \<not> finished fl"
    "\<And>g fl. flights w g = Some fl \<Longrightarrow> \<not> finished fl \<Longrightarrow> \<exists>j. led_by w g j"
    "\<And>g j k. led_by w g j \<Longrightarrow> led_by w g k \<Longrightarrow> j = k"
    using inv by (auto simp: flights_inv_def)
  show ?thesis
    unfolding flights_inv_def led fls
  proof (intro conjI allI impI)
    show "((flights w)(f \<mapsto> \<lparr>finished = True, outcome = out, wakers = []\<rparr>)) g = None"
      if "next_flight w \<le> g" for g using old(1) [OF that] fl by auto
    show "\<exists>fl. ((flights w)(f \<mapsto> \<lparr>finished = True, outcome = out, wakers = []\<rparr>)) g = Some fl \<and> \<not> finished fl"
      if "j \<noteq> i \<and> led_by w g j" for g j using that old(2) [of g j] old(4) [of f i j] i by auto
    show "\<exists>j. j \<noteq> i \<and> led_by w g j"
      if "((flights w)(f \<mapsto> \<lparr>finished = True, outcome = out, wakers = []\<rparr>)) g = Some fl'" "\<not> finished fl'"
      for g fl' using that old(3) [of g fl'] only by (auto split: if_splits) metis
  qed (use old(4) in blast)
qed

lemma flights_inv_step:
  assumes "step C b w w'" "flights_inv w"
  shows "flights_inv w'"
  using assms
proof (induction rule: step_induct)
  case (enter w i url now)
  then show ?case
    by (elim flights_inv_same) (auto simp: led_by_def at_phase_def)
next
  case (turn w i c)
  note i = at_phase_caller [OF turn.hyps(1)]
  show ?case
  proof (cases "cached_answer (world_cache w) (caller_url c) (caller_recent c)")
    case None
    note miss = None
    show ?thesis
    proof (cases "in_flight (world_cache w) (caller_url c)")
      case None
      show ?thesis
        unfolding turn_def miss None option.case Let_def
        by (rule flights_inv_lead [where w = w and
              fl = "\<lparr> finished = False, outcome = None, wakers = [] \<rparr>"]) (use turn i in simp_all)
    next
      case (Some f)
      with miss i turn show ?thesis by (auto simp: turn_def intro: flights_inv_set_phase)
    qed
  next
    case (Some a)
    with i turn show ?thesis by (auto simp: turn_def intro: flights_inv_set_phase)
  qed
next
  case (respond w i c f now requested)
  then show ?case
    by (auto simp: respond_def at_phase_caller intro!: flights_inv_set_phase [of w i "Leading f"]
        split: res.splits)
next
  case (cancel_lead w i c f)
  then show ?case by (auto simp: at_phase_caller intro!: flights_inv_set_phase [of w i "Leading f"])
next
  case (unlist w i c f out)
  then show ?case
    by (auto simp: unlist_def at_phase_caller intro!: flights_inv_set_phase [of w i "Unlisting f out"])
next
  case (finish w i c f out)
  then show ?case by (intro flights_inv_finish)
next
  case (poll w i c f)
  note i = at_phase_caller [OF poll.hyps(1)]
  show ?case
  proof (cases "flights w f")
    case None
    with poll show ?thesis by (simp add: poll_def)
  next
    case (Some fl)
    show ?thesis
    proof (cases "finished fl")
      case True
      with Some i poll show ?thesis
        by (auto simp: poll_def intro!: flights_inv_set_phase [of w i "Waiting f"] split: option.splits)
    next
      case False
      with Some i poll show ?thesis
        by (elim flights_inv_same) (auto simp: poll_def led_by_def)
    qed
  qed
next
  case (again w i c f)
  then show ?case by (auto simp: at_phase_caller intro!: flights_inv_set_phase [of w i "Parked f"])
next
  case (cancel_wait w i c f)
  then show ?case
    by (intro flights_inv_set_phase [of w i "caller_phase c"]) (auto simp: at_phase_caller)
next
  case (clear w)
  then show ?case by (elim flights_inv_same) (auto simp: led_by_def)
qed

text \<open>Waiting callers, and the entries under their URLs.\<close>

lemma waiters_inv_iff:
  "waiters_inv w \<longleftrightarrow>
     (\<forall>i c f. callers w i = Some c \<longrightarrow> waits (caller_phase c) = Some f \<longrightarrow> flights w f \<noteq> None)
     \<and> (\<forall>i c f. callers w i = Some c \<longrightarrow> caller_phase c = Parked f \<longrightarrow>
          (\<exists>fl. flights w f = Some fl \<and> \<not> finished fl \<and> i \<in> set (wakers fl)))
     \<and> (\<forall>url f. in_flight (world_cache w) url = Some f \<longrightarrow>
          (\<exists>i c. callers w i = Some c \<and> caller_url c = url \<and> listed (caller_phase c) = Some f))"
  by (auto simp: waiters_inv_def at_phase_def)

lemma waiters_inv_set_phase:
  assumes inv: "waiters_inv w" and c: "callers w i = Some c"
    and w': "flights w' = flights w" "callers w' = callers w"
      "in_flight (world_cache w') = in_flight (world_cache w)"
    and p: "waits p = None \<or> (\<exists>f. p = Waiting f \<and> flights w f \<noteq> None)" "listed p = listed (caller_phase c)"
  shows "waiters_inv (set_phase w' i c p)"
proof -
  note old = inv [unfolded waiters_inv_iff]
  have "\<exists>j d. callers (set_phase w' i c p) j = Some d \<and> caller_url d = url \<and> listed (caller_phase d) = Some f"
    if "in_flight (world_cache w) url = Some f" for url f
  proof -
    from old that obtain j d where j: "callers w j = Some d" "caller_url d = url"
      "listed (caller_phase d) = Some f" by blast
    show ?thesis
    proof (cases "j = i")
      case True
      with j c p(2) show ?thesis by (intro exI [of _ i] exI [of _ "c\<lparr> caller_phase := p \<rparr>"]) auto
    next
      case False
      with j show ?thesis by (intro exI [of _ j] exI [of _ d]) (simp add: w')
    qed
  qed
  moreover have "p \<noteq> Parked f" for f using p(1) by auto
  ultimately show ?thesis
    using old p(1) unfolding waiters_inv_iff by (auto simp: w')
qed

lemma listed_leads: "listed p = Some f \<Longrightarrow> leads p = Some f"
  by (cases p) auto

lemma entry_flight:
  assumes "flights_inv w" "waiters_inv w" "in_flight (world_cache w) url = Some f"
  shows "\<exists>fl. flights w f = Some fl \<and> \<not> finished fl"
proof -
  from assms(2,3) obtain i c where "callers w i = Some c" "listed (caller_phase c) = Some f"
    unfolding waiters_inv_iff by blast
  then have "led_by w f i" by (auto simp: led_by_def at_phase_def listed_leads)
  with assms(1) show ?thesis unfolding flights_inv_def by blast
qed

lemma waiters_inv_lead:
  assumes inv: "waiters_inv w" and c: "callers w i = Some c" "caller_phase c = Asking"
    and w': "flights w' = (flights w)(f \<mapsto> fl)" "callers w' = callers w" "flights w f = None"
      "in_flight (world_cache w') = (in_flight (world_cache w))(caller_url c \<mapsto> f)"
  shows "waiters_inv (set_phase w' i c (Leading f))"
proof -
  note old = inv [unfolded waiters_inv_iff]
  have "\<exists>j d. callers (set_phase w' i c (Leading f)) j = Some d \<and> caller_url d = url
      \<and> listed (caller_phase d) = Some g"
    if g: "in_flight (world_cache w') url = Some g" for url g
  proof (cases "url = caller_url c")
    case True
    with g show ?thesis by (intro exI [of _ i] exI [of _ "c\<lparr> caller_phase := Leading f \<rparr>"]) (simp add: w')
  next
    case False
    with g have "in_flight (world_cache w) url = Some g" by (simp add: w')
    with old obtain j d where "callers w j = Some d" "caller_url d = url"
      "listed (caller_phase d) = Some g" by metis
    with False c show ?thesis by (intro exI [of _ j] exI [of _ d]) (auto simp: w')
  qed
  moreover have "\<exists>fl. flights w' g = Some fl \<and> \<not> finished fl \<and> j \<in> set (wakers fl)"
    if "callers w j = Some d" "caller_phase d = Parked g" for j d g
  proof -
    from old that obtain fl' where "flights w g = Some fl'" "\<not> finished fl'" "j \<in> set (wakers fl')"
      by blast
    then show ?thesis using w'(3) by (auto simp: w'(1))
  qed
  moreover have "flights w' g \<noteq> None" if "callers w j = Some d" "waits (caller_phase d) = Some g" for j d g
    using old that by (auto simp: w'(1))
  ultimately show ?thesis
    unfolding waiters_inv_iff set_phase_simps w'(2)
    by (simp split: if_splits)
qed

lemma waiters_inv_unlist:
  assumes inv: "waiters_inv w" and c: "callers w i = Some c"
  shows "waiters_inv (unlist w i c f out)"
proof -
  note old = inv [unfolded waiters_inv_iff]
  have "\<exists>j d. callers (unlist w i c f out) j = Some d \<and> caller_url d = url
      \<and> listed (caller_phase d) = Some g"
    if g: "in_flight (world_cache (unlist w i c f out)) url = Some g" for url g
  proof -
    from g have "url \<noteq> caller_url c" "in_flight (world_cache w) url = Some g"
      by (auto simp: unlist_def split: if_splits)
    with old obtain j d where "callers w j = Some d" "caller_url d = url"
      "listed (caller_phase d) = Some g" by metis
    with \<open>url \<noteq> caller_url c\<close> c show ?thesis
      by (intro exI [of _ j] exI [of _ d]) (auto simp: unlist_def)
  qed
  then show ?thesis
    using old unfolding waiters_inv_iff by (auto simp: unlist_def)
qed

lemma wake_cases:
  assumes "wake ws f cs j = Some d"
  obtains c where "cs j = Some c" "caller_url d = caller_url c" "listed (caller_phase d) = listed (caller_phase c)"
    "waits (caller_phase d) = waits (caller_phase c)"
    "\<And>g. caller_phase d = Parked g \<Longrightarrow> caller_phase c = Parked g \<and> \<not> (g = f \<and> j \<in> set ws)"
  using assms by (auto simp: wake_def split: option.splits if_splits)

lemma wake_keeps:
  assumes "cs j = Some c"
  shows "\<exists>d. wake ws f cs j = Some d \<and> caller_url d = caller_url c
    \<and> listed (caller_phase d) = listed (caller_phase c)"
  using assms by (auto simp: wake_def)

lemma waiters_inv_finish:
  assumes inv: "waiters_inv w" and c: "callers w i = Some c" "caller_phase c = Ending f out"
  shows "waiters_inv (finish_flight w i c f out)"
proof (cases "flights w f")
  case None
  with inv show ?thesis by (simp add: finish_flight_def)
next
  case (Some fl)
  note old = inv [unfolded waiters_inv_iff]
  let ?w = "finish_flight w i c f out"
  let ?p = "case out of Some r \<Rightarrow> Returned (result_of r) | None \<Rightarrow> Dropped"
  have cs: "callers ?w = (wake (wakers fl) f (callers w))(i \<mapsto> c\<lparr> caller_phase := ?p \<rparr>)"
    and fs: "flights ?w = (flights w)(f \<mapsto> \<lparr> finished = True, outcome = out, wakers = [] \<rparr>)"
    and k: "world_cache ?w = world_cache w"
    by (simp_all add: finish_flight_def Some)
  have ended: "waits ?p = None" "listed ?p = None" "?p \<noteq> Parked g" for g by (simp_all split: option.splits)
  show ?thesis
    unfolding waiters_inv_iff
  proof (intro conjI allI impI)
    fix j d g assume d: "callers ?w j = Some d" and g: "waits (caller_phase d) = Some g"
    then have "j \<noteq> i" "wake (wakers fl) f (callers w) j = Some d" using ended(1) by (auto simp: cs split: if_splits)
    from wake_cases [OF this(2)] obtain e where "callers w j = Some e" "waits (caller_phase e) = Some g"
      using g by metis
    with old show "flights ?w g \<noteq> None" by (auto simp: fs)
  next
    fix j d g assume d: "callers ?w j = Some d" and g: "caller_phase d = Parked g"
    then have "j \<noteq> i" "wake (wakers fl) f (callers w) j = Some d" using ended(3) by (auto simp: cs split: if_splits)
    from wake_cases [OF this(2)] obtain e where "callers w j = Some e" "caller_phase e = Parked g"
      "\<not> (g = f \<and> j \<in> set (wakers fl))" using g by metis
    moreover from this old obtain fl' where "flights w g = Some fl'" "\<not> finished fl'" "j \<in> set (wakers fl')"
      by blast
    ultimately show "\<exists>fl. flights ?w g = Some fl \<and> \<not> finished fl \<and> j \<in> set (wakers fl)"
      using Some by (auto simp: fs)
  next
    fix url g assume "in_flight (world_cache ?w) url = Some g"
    with old k obtain j d where j: "callers w j = Some d" "caller_url d = url"
      "listed (caller_phase d) = Some g" by metis
    then have "j \<noteq> i" using c by auto
    with wake_keeps [where cs = "callers w", OF j(1), of "wakers fl" f] j
    show "\<exists>j d. callers ?w j = Some d \<and> caller_url d = url \<and> listed (caller_phase d) = Some g"
      by (auto simp: cs)
  qed
qed

lemma waiters_inv_park:
  assumes inv: "waiters_inv w" and c: "callers w i = Some c" "caller_phase c = Waiting f"
    and fl: "flights w f = Some fl" "\<not> finished fl"
  shows "waiters_inv (poll w i c f)"
proof -
  note old = inv [unfolded waiters_inv_iff]
  let ?fl = "fl\<lparr> wakers := filter (\<lambda>j. j \<noteq> i) (wakers fl) @ [i] \<rparr>"
  have w': "flights (poll w i c f) = (flights w)(f \<mapsto> ?fl)"
    "callers (poll w i c f) = (callers w)(i \<mapsto> c\<lparr> caller_phase := Parked f \<rparr>)"
    "world_cache (poll w i c f) = world_cache w"
    using fl by (simp_all add: poll_def)
  show ?thesis
    unfolding waiters_inv_iff w'
  proof (intro conjI allI impI)
    fix url g assume "in_flight (world_cache w) url = Some g"
    with old obtain j d where j: "callers w j = Some d" "caller_url d = url"
      "listed (caller_phase d) = Some g" by metis
    then have "j \<noteq> i" using c by auto
    with j show "\<exists>j d. ((callers w)(i \<mapsto> c\<lparr> caller_phase := Parked f \<rparr>)) j = Some d
        \<and> caller_url d = url \<and> listed (caller_phase d) = Some g" by auto
  qed (use old fl in \<open>fastforce split: if_splits\<close>)+
qed

lemma hold_in_flight:
  "hold now c p minute r pem s e = Ok (a, c') \<Longrightarrow> in_flight c' = in_flight c"
  by (auto simp: hold_def hold_new_def Let_def bind_res_Ok_iff split: option.splits if_splits)

lemma fetch_outcome_in_flight:
  "fetch_outcome C now c url r requested = Ok (out, c') \<Longrightarrow> in_flight c' = in_flight c"
  by (auto simp: fetch_outcome_def bind_res_Ok_iff hold_in_flight split: res.splits prod.splits)

lemma waiters_inv_step:
  assumes "step C b w w'" "flights_inv w" "waiters_inv w"
  shows "waiters_inv w'"
  using assms
proof (induction rule: step_induct)
  case (enter w i url now)
  note old = enter.prems(2) [unfolded waiters_inv_iff]
  let ?c = "\<lparr> caller_url = url, caller_recent = is_recent_url C now url, caller_phase = Asking \<rparr>"
  have "\<exists>j d. ((callers w)(i \<mapsto> ?c)) j = Some d \<and> caller_url d = u \<and> listed (caller_phase d) = Some g"
    if "in_flight (world_cache w) u = Some g" for u g
  proof -
    from that old obtain j d where "callers w j = Some d" "caller_url d = u"
      "listed (caller_phase d) = Some g" by metis
    with enter.hyps show ?thesis by (intro exI [of _ j] exI [of _ d]) auto
  qed
  then show ?case using old unfolding waiters_inv_iff by simp
next
  case (turn w i c)
  show ?case
  proof (cases "cached_answer (world_cache w) (caller_url c) (caller_recent c)")
    case None
    note miss = None
    show ?thesis
    proof (cases "in_flight (world_cache w) (caller_url c)")
      case None
      have "flights w (next_flight w) = None" using turn.prems(1) by (simp add: flights_inv_def)
      then show ?thesis
        unfolding turn_def miss None option.case Let_def
        by (intro waiters_inv_lead [where w = w and f = "next_flight w" and
              fl = "\<lparr> finished = False, outcome = None, wakers = [] \<rparr>"]) (use turn in simp_all)
    next
      case (Some f)
      with entry_flight [OF turn.prems Some] miss turn show ?thesis
        by (auto simp: turn_def intro!: waiters_inv_set_phase [of w])
    qed
  next
    case (Some a)
    with turn show ?thesis by (auto simp: turn_def intro!: waiters_inv_set_phase [of w])
  qed
next
  case (respond w i c f now requested)
  then show ?case
    by (auto simp: respond_def intro!: waiters_inv_set_phase [of w] dest: fetch_outcome_in_flight
        split: res.splits)
next
  case (cancel_lead w i c f)
  then show ?case by (auto intro!: waiters_inv_set_phase [of w])
next
  case (unlist w i c f out)
  then show ?case by (intro waiters_inv_unlist)
next
  case (finish w i c f out)
  then show ?case by (intro waiters_inv_finish)
next
  case (poll w i c f)
  show ?case
  proof (cases "flights w f")
    case None
    with poll show ?thesis by (simp add: poll_def)
  next
    case (Some fl)
    show ?thesis
    proof (cases "finished fl")
      case True
      with Some poll show ?thesis
        by (auto simp: poll_def intro!: waiters_inv_set_phase [of w] split: option.splits)
    next
      case False
      with Some poll show ?thesis by (intro waiters_inv_park)
    qed
  qed
next
  case (again w i c f)
  then have "flights w f \<noteq> None" unfolding waiters_inv_iff by (metis waits.simps(2))
  with again show ?case by (auto intro!: waiters_inv_set_phase [of w])
next
  case (cancel_wait w i c f)
  then show ?case by (auto intro!: waiters_inv_set_phase [of w])
next
  case (clear w)
  then show ?case by (simp add: waiters_inv_iff clear_cache_def)
qed

text \<open>Without clearing, the leader of a flight finds its own entry when it drops.\<close>

lemma listing_unique:
  assumes "flights_inv w" "listing_inv w" "callers w i = Some c" "callers w j = Some d"
    and "listed (caller_phase c) = Some f" "listed (caller_phase d) = Some g" "caller_url c = caller_url d"
  shows "i = j"
proof -
  from assms(2-7) have "f = g" unfolding listing_inv_def by (metis option.inject)
  with assms have "led_by w f i" "led_by w f j" by (auto simp: led_by_def at_phase_def listed_leads)
  with assms(1) show ?thesis unfolding flights_inv_def by blast
qed

lemma listing_inv_set_phase:
  assumes "listing_inv w" "callers w i = Some c" "callers w' = callers w"
    "in_flight (world_cache w') = in_flight (world_cache w)"
    "listed p = None \<or> listed p = listed (caller_phase c)"
  shows "listing_inv (set_phase w' i c p)"
  using assms by (auto simp: listing_inv_def split: if_splits)

lemma listing_inv_step:
  assumes "step C b w w'" "\<not> b" "flights_inv w" "listing_inv w"
  shows "listing_inv w'"
  using assms
proof (induction rule: step_induct)
  case (enter w i url now)
  then show ?case by (auto simp: listing_inv_def)
next
  case (turn w i c)
  show ?case
  proof (cases "cached_answer (world_cache w) (caller_url c) (caller_recent c) = None
      \<and> in_flight (world_cache w) (caller_url c) = None")
    case True
    with turn have "caller_url d \<noteq> caller_url c"
      if "callers w j = Some d" "listed (caller_phase d) = Some g" for j d g
      using that unfolding listing_inv_def by (metis option.distinct(1))
    with True turn show ?thesis by (auto simp: turn_def Let_def listing_inv_def)
  next
    case False
    with turn show ?thesis
      by (auto simp: turn_def Let_def intro!: listing_inv_set_phase [of w] split: option.splits)
  qed
next
  case (respond w i c f now requested)
  then show ?case
    by (auto simp: respond_def intro!: listing_inv_set_phase [of w] dest: fetch_outcome_in_flight
        split: res.splits)
next
  case (cancel_lead w i c f)
  then show ?case by (auto intro!: listing_inv_set_phase [of w])
next
  case (unlist w i c f out)
  have "caller_url d \<noteq> caller_url c" if "callers w j = Some d" "j \<noteq> i" "listed (caller_phase d) = Some g"
    for j d g
    using listing_unique [OF unlist.prems(2,3) unlist.hyps(1) that(1) _ that(3)] unlist.hyps(2) that(2) by auto
  with unlist show ?case by (auto simp: listing_inv_def unlist_def)
next
  case (finish w i c f out)
  show ?case
  proof (cases "flights w f")
    case None
    with finish show ?thesis by (simp add: finish_flight_def)
  next
    case (Some fl)
    show ?thesis
      unfolding listing_inv_def
    proof (intro allI impI)
      fix j d g
      assume d: "callers (finish_flight w i c f out) j = Some d" "listed (caller_phase d) = Some g"
      then have "wake (wakers fl) f (callers w) j = Some d"
        by (auto simp: finish_flight_def Some split: if_splits option.splits)
      from wake_cases [OF this] obtain e where "callers w j = Some e" "caller_url d = caller_url e"
        "listed (caller_phase e) = Some g" using d(2) by metis
      with finish.prems(3) show "in_flight (world_cache (finish_flight w i c f out)) (caller_url d) = Some g"
        by (auto simp: listing_inv_def finish_flight_def Some)
    qed
  qed
next
  case (poll w i c f)
  then show ?case
    by (auto simp: poll_def intro!: listing_inv_set_phase [of w] split: option.splits)
next
  case (again w i c f)
  then show ?case by (auto intro!: listing_inv_set_phase [of w])
next
  case (cancel_wait w i c f)
  then show ?case by (auto intro!: listing_inv_set_phase [of w])
qed simp

lemma run_inv: "run C b w \<Longrightarrow> flights_inv w \<and> waiters_inv w"
proof (induction rule: run.induct)
  case start
  show ?case
    by (simp add: flights_inv_def waiters_inv_iff empty_world_def led_by_def at_phase_def empty_cache_def)
next
  case (more w w')
  then show ?case using flights_inv_step waiters_inv_step by blast
qed

lemma run_listing: "run C False w \<Longrightarrow> listing_inv w"
proof (induction rule: run.induct)
  case start
  show ?case by (simp add: listing_inv_def empty_world_def)
next
  case (more w w')
  then show ?case using listing_inv_step [of C False w w'] run_inv by blast
qed

end
