(* ===== verification/Sharing.thy ===== *)
theory Sharing
  imports Fetching
begin

text \<open>
  Properties of overlapping callers of \<open>key_at_url\<close> (src/src/fetch.rs): waiting always ends,
  a key is fetched once while it is being fetched, the cache stays what the answers made it
  under any interleaving, a lone caller's steps are the sequential function, and what
  \<open>clear_cache\<close> does to fetches under way.
\<close>

section \<open>Lemmas\<close>

abbreviation steps :: "'t chrono \<Rightarrow> world \<Rightarrow> world \<Rightarrow> bool" where
  "steps C \<equiv> (step C False)\<^sup>*\<^sup>*"

lemma steps_step: "steps C w w' \<Longrightarrow> step C False w' w'' \<Longrightarrow> steps C w w''"
  by (rule rtranclp.rtrancl_into_rtrancl)

lemma hold_other_flights:
  "hold now (c\<lparr> in_flight := g \<rparr>) p minute r pem s e
   = (case hold now c p minute r pem s e of
        Ok (a, c') \<Rightarrow> Ok (a, c'\<lparr> in_flight := g \<rparr>) | Err x \<Rightarrow> Err x | Panic \<Rightarrow> Panic)"
proof -
  have new: "hold_new (c\<lparr> in_flight := g \<rparr>) p k = (hold_new c p k)\<lparr> in_flight := g \<rparr>" for k
    by (simp add: hold_new_def Let_def)
  show ?thesis
  proof (cases "span_to_hold now minute r s e")
    case None
    then show ?thesis by (simp add: hold_def)
  next
    case (Some z)
    obtain f l x y where z: "z = (f, l, x, y)" by (cases z)
    show ?thesis
    proof (cases "cache_keys c p")
      case None
      then show ?thesis by (simp add: hold_def Some z new Let_def)
    next
      case ks: (Some ks)
      show ?thesis
      proof (cases "position (\<lambda>k. held_pem k = pem) ks")
        case None
        then show ?thesis by (auto simp: hold_def Some z new ks Let_def)
      next
        case pos: (Some i)
        then have "i < length ks" by (simp add: position_Some_iff)
        then show ?thesis by (simp add: hold_def Some z ks pos Let_def widen_result)
      qed
    qed
  qed
qed

lemma cached_answer_other_flights [simp]:
  "cached_answer (c\<lparr> in_flight := g \<rparr>) url r = cached_answer c url r"
  by (simp add: cached_answer_def held_for_def)

lemma fetch_outcome_other_flights:
  "fetch_outcome C now (c\<lparr> in_flight := g \<rparr>) url r requested
   = (case fetch_outcome C now c url r requested of
        Ok (a, c') \<Rightarrow> Ok (a, c'\<lparr> in_flight := g \<rparr>) | Err x \<Rightarrow> Err x | Panic \<Rightarrow> Panic)"
  by (auto simp: fetch_outcome_def hold_other_flights split: res.splits prod.splits)

lemma interleaving_cache:
  assumes "run C b w"
  shows "\<exists>log. cache_run (world_cache w) log"
  using assms
proof (induction rule: run.induct)
  case start
  show ?case using cache_run.start by (auto simp: empty_world_def)
next
  case (more w w')
  then obtain log where log: "cache_run (world_cache w) log" by blast
  have entry: "\<exists>log. cache_run ((world_cache w)\<lparr> in_flight := g \<rparr>) log" for g
    using cache_run.fetches [OF log] by blast
  from more.hyps(2) show ?case
  proof (cases rule: step_cases)
    case (turn i c)
    then show ?thesis using log entry by (auto simp: turn_def Let_def split: option.splits)
  next
    case (respond i c f now requested)
    then show ?thesis
      using log by (auto simp: respond_def fetch_outcome_def bind_res_Ok_iff
          split: res.splits dest: cache_run.answer [OF log])
  next
    case (unlist i c f out)
    then show ?thesis using entry by (auto simp: unlist_def)
  next
    case (finish i c f out)
    then show ?thesis using log by (auto simp: finish_flight_def split: option.splits)
  next
    case (poll i c f)
    then show ?thesis using log by (auto simp: poll_def split: option.splits)
  next
    case clear
    then show ?thesis using cache_run.clear [OF log] by auto
  qed (use log in auto)
qed

text \<open>A caller that leads, is answered and ends without another in between.\<close>

lemma lone_caller_acts:
  assumes "callers w i = Some c" "caller_phase c = Asking"
    and "cached_answer (world_cache w) (caller_url c) (caller_recent c) = None"
    and "in_flight (world_cache w) (caller_url c) = None"
    and "fetch_outcome C now (world_cache w) (caller_url c) (caller_recent c) q = Ok (out, k')"
  obtains w1 w2 w3 w4 where "acts C w Turn w1" "acts C w1 (Respond (caller_url c) q) w2"
    "acts C w2 Unlist w3" "acts C w3 Finish w4"
    "callers w4 i = Some (c\<lparr> caller_phase := Returned (result_of out) \<rparr>)" "world_cache w4 = k'"
proof -
  let ?k = "world_cache w" and ?u = "caller_url c" and ?f = "next_flight w"
  have k': "in_flight k' = in_flight ?k" using assms(5) by (rule fetch_outcome_in_flight)
  define w1 where "w1 = turn w i c"
  define c1 where "c1 = c\<lparr> caller_phase := Leading ?f \<rparr>"
  define c2 where "c2 = c\<lparr> caller_phase := Unlisting ?f (Some out) \<rparr>"
  define w2 where "w2 = respond C now w1 i c1 ?f q"
  define c3 where "c3 = c\<lparr> caller_phase := Ending ?f (Some out) \<rparr>"
  define w3 where "w3 = unlist w2 i c2 ?f (Some out)"
  define w4 where "w4 = finish_flight w3 i c3 ?f (Some out)"
  have w1: "callers w1 i = Some c1" "world_cache w1 = ?k\<lparr> in_flight := (in_flight ?k)(?u \<mapsto> ?f) \<rparr>"
    "flights w1 ?f \<noteq> None"
    using assms(3,4) by (simp_all add: w1_def turn_def Let_def c1_def)
  have w2: "callers w2 i = Some c2" "world_cache w2 = k'\<lparr> in_flight := (in_flight ?k)(?u \<mapsto> ?f) \<rparr>"
    "flights w2 = flights w1"
    using assms(5) w1 by (simp_all add: w2_def respond_def c1_def c2_def fetch_outcome_other_flights)
  have w3: "callers w3 i = Some c3" "world_cache w3 = k'" "flights w3 = flights w1"
    using assms(4) k' w2 by (simp_all add: w3_def unlist_def c2_def c3_def fun_upd_idem)
  have w4: "callers w4 i = Some (c\<lparr> caller_phase := Returned (result_of out) \<rparr>)" "world_cache w4 = k'"
    using w1(3) w3 by (auto simp: w4_def finish_flight_def c3_def split: option.splits)
  have "acts C w Turn w1" unfolding w1_def using assms(1,2) by (rule acts.turn)
  moreover have "acts C w1 (Respond ?u q) w2"
    using acts.respond [OF w1(1), of ?f C q now] by (simp add: w2_def c1_def)
  moreover have "acts C w2 Unlist w3"
    unfolding w3_def by (rule acts.unlist) (simp_all add: w2 c2_def)
  moreover have "acts C w3 Finish w4"
    unfolding w4_def by (rule acts.finish) (simp_all add: w3 c3_def)
  ultimately show thesis using w4 that by blast
qed

section \<open>Properties\<close>

text \<open>C14: No wake up is lost: a suspended caller waits on a fetch that has not ended, that some
  other caller is still making or ending, and whose end makes the caller runnable. Its next
  poll then returns what that fetch returned, or sends it round to make the fetch itself
  where the caller making it was dropped.\<close>

theorem suspended_callers_are_woken:
  assumes "run C b w" "callers w i = Some c" "caller_phase c = Parked f"
  shows "\<exists>j d. j \<noteq> i \<and> callers w j = Some d \<and> leads (caller_phase d) = Some f
    \<and> (\<forall>out. caller_phase d = Ending f out \<longrightarrow>
         (let w' = finish_flight w j d f out; c' = c\<lparr> caller_phase := Waiting f \<rparr> in
          callers w' i = Some c'
          \<and> at_phase (poll w' i c' f) i
            = Some (case out of Some r \<Rightarrow> Returned (result_of r) | None \<Rightarrow> Asking)))"
proof -
  have inv: "flights_inv w" "waiters_inv w" using run_inv [OF assms(1)] by auto
  from inv(2) assms(2,3) obtain fl where fl: "flights w f = Some fl" "\<not> finished fl" "i \<in> set (wakers fl)"
    unfolding waiters_inv_iff by blast
  from inv(1) fl obtain j where "led_by w f j" unfolding flights_inv_def by blast
  then obtain d where d: "callers w j = Some d" "leads (caller_phase d) = Some f"
    by (auto simp: led_by_def at_phase_def)
  have ij: "j \<noteq> i" using d assms(2,3) by auto
  have "let w' = finish_flight w j d f out; c' = c\<lparr> caller_phase := Waiting f \<rparr> in
      callers w' i = Some c' \<and> at_phase (poll w' i c' f) i
        = Some (case out of Some r \<Rightarrow> Returned (result_of r) | None \<Rightarrow> Asking)" for out
    using fl ij assms(2,3) by (simp add: finish_flight_def poll_def wake_def Let_def)
  with d ij show ?thesis by blast
qed

text \<open>C15: While nothing clears the cache, no two callers are fetching the same URL: a caller that
  asks for a key under way waits for it.\<close>

theorem one_fetch_at_a_time:
  assumes "run C False w" "callers w i = Some c" "callers w j = Some d"
    and "caller_phase c = Leading f" "caller_phase d = Leading g" "caller_url c = caller_url d"
  shows "i = j"
  using listing_unique [of w i c j d f g] run_inv [OF assms(1)] run_listing [OF assms(1)] assms(2-6)
  by simp

text \<open>C24: A caller that finds no other caller fetching its URL can run to the end by steps of its
  own, and then has the result and leaves the cache of the sequential function.\<close>

theorem lone_caller_is_sequential:
  assumes "run C b w" "callers w i = Some c" "caller_phase c = Asking"
    and "caller_recent c = is_recent_url C now (caller_url c)"
    and "in_flight (world_cache w) (caller_url c) = None"
    and "request_public_key C E fetch (caller_url c) \<noteq> Panic"
  shows "\<exists>w'. steps C w w'
    \<and> at_phase w' i = Some (Returned (fst (key_at_url C E fetch now (caller_url c) (world_cache w))))
    \<and> world_cache w' = snd (key_at_url C E fetch now (caller_url c) (world_cache w))"
proof (cases "cached_answer (world_cache w) (caller_url c) (caller_recent c)")
  case (Some a)
  have "step C False w (turn w i c)" using assms(2,3) by (rule step_turn)
  then have "steps C w (turn w i c)" by (rule r_into_rtranclp)
  then show ?thesis
    using Some assms(4) by (intro exI [of _ "turn w i c"]) (simp add: turn_def key_at_url_def)
next
  case None
  let ?k = "world_cache w" and ?u = "caller_url c" and ?f = "next_flight w"
  let ?q = "request_public_key C E fetch ?u"
  obtain log where "cache_run ?k log" using interleaving_cache [OF assms(1)] by blast
  then have "cache_inv ?k" using cache_run_inv by blast
  from fetch_outcome_result [OF this assms(6), of C now ?u "caller_recent c"] obtain out k' where
    out: "fetch_outcome C now ?k ?u (caller_recent c) ?q = Ok (out, k')" and k': "in_flight k' = in_flight ?k"
    by blast
  from lone_caller_acts [OF assms(2,3) None assms(5) out] obtain w1 w2 w3 w4 where
    acts: "acts C w Turn w1" "acts C w1 (Respond ?u ?q) w2" "acts C w2 Unlist w3" "acts C w3 Finish w4"
    and w4: "callers w4 i = Some (c\<lparr> caller_phase := Returned (result_of out) \<rparr>)" "world_cache w4 = k'" .
  have "step C False w w1" "step C False w1 w2" "step C False w2 w3" "step C False w3 w4"
    using acts by (auto simp: step_def)
  then have "steps C w w4" by (meson rtranclp.rtrancl_refl steps_step)
  moreover have "key_at_url C E fetch now ?u ?k = (result_of out, k')"
    using None out assms(4) by (cases out) (simp_all add: key_at_url_def)
  ultimately show ?thesis using w4 by (auto simp: at_phase_def)
qed

text \<open>Clearing the cache does not reach a fetch under way: a key fetched by a caller that
  started before the cache was cleared is held afterwards, and a later caller is served it
  from the cache without a request of its own.\<close>

theorem clear_lets_an_earlier_fetch_be_held:
  assumes "callers w i = Some c" "caller_phase c = Leading f" "start < finish"
    and "start \<le> m" "m < finish"
  shows "held_for
      (world_cache (respond C now (w\<lparr> world_cache := clear_cache (world_cache w) \<rparr>) i c f
         (Ok (pem, Some start, Some finish))))
      (end_point_of (caller_url c)) m r = Some (key_answer_known pem start (finish - 1))"
proof -
  have le: "m \<le> finish - 1" using assms(5) by unat_arith
  show ?thesis
    using assms(3,4) le
    by (simp add: respond_def fetch_outcome_def hold_def clear_cache_def span_to_hold_def
        key_answer_stated_def hold_new_def MAXIMUM_CACHED_KEYS_def held_for_def held_covers_def
        held_stated_def)
qed

text \<open>After the cache was cleared while a fetch was under way, two callers that both start
  later can be fetching the same URL at once: the earlier leader, when it ends, removes the
  entry of the later one.\<close>

theorem sharing_fails_after_clear:
  "\<exists>w w' f g c d. run C True w \<and> cache_keys (world_cache w) = Map.empty
    \<and> in_flight (world_cache w) = Map.empty \<and> callers w 1 = None \<and> callers w 2 = None
    \<and> steps C w w' \<and> callers w' 1 = Some c \<and> callers w' 2 = Some d
    \<and> caller_phase c = Leading f \<and> caller_phase d = Leading g
    \<and> caller_url c = url \<and> caller_url d = url"
proof -
  fix now
  let ?c = "\<lambda>p. \<lparr> caller_url = url, caller_recent = is_recent_url C now url, caller_phase = p \<rparr>"
  let ?fl = "\<lparr> finished = False, outcome = None, wakers = [] \<rparr>"
  let ?k = "\<lambda>es. \<lparr> cache_keys = Map.empty, cache_held = 0, in_flight = es \<rparr>"
  let ?w = "\<lambda>es fs cs n. \<lparr> world_cache = ?k es, flights = fs, callers = cs, next_flight = n \<rparr>"
  have miss: "cached_answer (?k es) u r = None" for es u r
    by (simp add: cached_answer_def held_for_def)
  let ?w1 = "?w Map.empty Map.empty [0 \<mapsto> ?c Asking] 0"
  let ?w2 = "?w [url \<mapsto> 0] [0 \<mapsto> ?fl] [0 \<mapsto> ?c (Leading 0)] 1"
  let ?w3 = "?w Map.empty [0 \<mapsto> ?fl] [0 \<mapsto> ?c (Leading 0)] 1"
  let ?w4 = "?w Map.empty [0 \<mapsto> ?fl] [0 \<mapsto> ?c (Leading 0), 1 \<mapsto> ?c Asking] 1"
  let ?w5 = "?w [url \<mapsto> 1] [0 \<mapsto> ?fl, 1 \<mapsto> ?fl] [0 \<mapsto> ?c (Leading 0), 1 \<mapsto> ?c (Leading 1)] 2"
  let ?w6 = "?w [url \<mapsto> 1] [0 \<mapsto> ?fl, 1 \<mapsto> ?fl] [0 \<mapsto> ?c (Unlisting 0 None), 1 \<mapsto> ?c (Leading 1)] 2"
  let ?w7 = "?w Map.empty [0 \<mapsto> ?fl, 1 \<mapsto> ?fl] [0 \<mapsto> ?c (Ending 0 None), 1 \<mapsto> ?c (Leading 1)] 2"
  let ?w8 = "?w Map.empty [0 \<mapsto> ?fl, 1 \<mapsto> ?fl]
    [0 \<mapsto> ?c (Ending 0 None), 1 \<mapsto> ?c (Leading 1), 2 \<mapsto> ?c Asking] 2"
  let ?w9 = "?w [url \<mapsto> 2] [0 \<mapsto> ?fl, 1 \<mapsto> ?fl, 2 \<mapsto> ?fl]
    [0 \<mapsto> ?c (Ending 0 None), 1 \<mapsto> ?c (Leading 1), 2 \<mapsto> ?c (Leading 2)] 3"
  have "step C True empty_world ?w1"
    using step_enter [of empty_world 0 C True url now] by (simp add: empty_world_def empty_cache_def)
  moreover have "step C True ?w1 ?w2"
    using step_turn [of ?w1 0 "?c Asking" C True] by (simp add: turn_def miss set_phase_def Let_def)
  moreover have "step C True ?w2 ?w3"
    using step_clear [of True C ?w2] by (simp add: clear_cache_def)
  ultimately have "run C True ?w3" by (meson run.intros)
  moreover have "steps C ?w3 ?w9"
  proof -
    have "step C False ?w3 ?w4" using step_enter [of ?w3 1 C False url now] by simp
    moreover have "step C False ?w4 ?w5"
      using step_turn [of ?w4 1 "?c Asking" C False]
      by (simp add: turn_def miss set_phase_def Let_def numeral_2_eq_2)
    moreover have "step C False ?w5 ?w6"
      using step_cancel_lead [of ?w5 0 "?c (Leading 0)" 0 C False]
      by (simp add: set_phase_def fun_upd_twist)
    moreover have "step C False ?w6 ?w7"
      using step_unlist [of ?w6 0 "?c (Unlisting 0 None)" 0 None C False]
      by (simp add: unlist_def set_phase_def fun_upd_twist)
    moreover have "step C False ?w7 ?w8" using step_enter [of ?w7 2 C False url now] by simp
    moreover have "step C False ?w8 ?w9"
      using step_turn [of ?w8 2 "?c Asking" C False]
      by (simp add: turn_def miss set_phase_def Let_def numeral_3_eq_3)
    ultimately show ?thesis by (meson rtranclp.rtrancl_refl steps_step)
  qed
  ultimately show ?thesis
    by (intro exI [of _ ?w3] exI [of _ ?w9] exI [of _ 1] exI [of _ 2]
        exI [of _ "?c (Leading 1)"] exI [of _ "?c (Leading 2)"]) simp
qed

section \<open>Worked examples\<close>

text \<open>Two callers for one URL without a date, the first leading and the second suspended.\<close>

definition plain_caller :: "phase \<Rightarrow> caller" where
  "plain_caller p = \<lparr> caller_url = [], caller_recent = False, caller_phase = p \<rparr>"

definition asking_world :: world where
  "asking_world = empty_world\<lparr> callers := [0 \<mapsto> plain_caller Asking] \<rparr>"

definition leading_world :: world where
  "leading_world = \<lparr> world_cache = empty_cache\<lparr> in_flight := [[] \<mapsto> 0] \<rparr>,
     flights = [0 \<mapsto> \<lparr> finished = False, outcome = None, wakers = [] \<rparr>],
     callers = [0 \<mapsto> plain_caller (Leading 0)], next_flight = 1 \<rparr>"

definition parked_world :: world where
  "parked_world = leading_world\<lparr>
     flights := [0 \<mapsto> \<lparr> finished = False, outcome = None, wakers = [1] \<rparr>],
     callers := [0 \<mapsto> plain_caller (Leading 0), 1 \<mapsto> plain_caller (Parked 0)] \<rparr>"

lemma not_recent [simp]: "is_recent_url C now [] = False"
  by (simp add: is_recent_url_def minute_of_def split_once_def)

lemma no_answer [simp]: "cached_answer k [] r = None"
  by (simp add: cached_answer_def minute_of_def split_once_def)

lemma reach_asking:
  assumes "allowed Enter"
  shows "reach C allowed asking_world"
proof -
  have "acts C empty_world Enter asking_world"
    using acts.enter [of empty_world 0 C "[]"]
    by (simp add: asking_world_def plain_caller_def empty_world_def)
  then show ?thesis using assms by (meson reach.intros)
qed

lemma reach_leading:
  assumes "allowed Enter" "allowed Turn"
  shows "reach C allowed leading_world"
proof -
  have "acts C asking_world Turn leading_world"
    using acts.turn [of asking_world 0 "plain_caller Asking" C]
    by (simp add: asking_world_def leading_world_def plain_caller_def empty_world_def turn_def
        set_phase_def empty_cache_def Let_def)
  then show ?thesis using reach_asking assms by (meson reach.intros)
qed

lemma reach_parked:
  assumes "allowed Enter" "allowed Turn" "allowed Poll"
  shows "reach C allowed parked_world"
proof -
  let ?w1 = "leading_world\<lparr> callers := [0 \<mapsto> plain_caller (Leading 0), 1 \<mapsto> plain_caller Asking] \<rparr>"
  let ?w2 = "leading_world\<lparr> callers := [0 \<mapsto> plain_caller (Leading 0), 1 \<mapsto> plain_caller (Waiting 0)] \<rparr>"
  have "acts C leading_world Enter ?w1"
    using acts.enter [of leading_world 1 C "[]"] by (simp add: leading_world_def plain_caller_def)
  moreover have "acts C ?w1 Turn ?w2"
    using acts.turn [of ?w1 1 "plain_caller Asking" C]
    by (simp add: leading_world_def plain_caller_def turn_def set_phase_def)
  moreover have "acts C ?w2 Poll parked_world"
    using acts.poll [of ?w2 1 "plain_caller (Waiting 0)" 0 C]
    by (simp add: leading_world_def parked_world_def plain_caller_def poll_def set_phase_def)
  ultimately show ?thesis using reach_leading assms by (meson reach.intros)
qed

lemma run_asking: "run C b asking_world"
  using reach_run [OF reach_asking [of "\<lambda>a. a \<noteq> Clear"]] by simp

lemma run_parked: "run C b parked_world"
  using reach_run [OF reach_parked [of "\<lambda>a. a \<noteq> Clear"]] by simp

theorem suspended_callers_are_woken_witness:
  "\<exists>j d. j \<noteq> 1 \<and> callers parked_world j = Some d \<and> leads (caller_phase d) = Some 0"
proof -
  have "callers parked_world 1 = Some (plain_caller (Parked 0))"
    by (simp add: parked_world_def)
  from suspended_callers_are_woken [OF run_parked this, of 0] show ?thesis
    by (auto simp: plain_caller_def)
qed

theorem one_fetch_at_a_time_witness:
  "\<nexists>d. callers parked_world 1 = Some d \<and> caller_phase d = Leading 7 \<and> caller_url d = []"
proof -
  have "callers parked_world 0 = Some (plain_caller (Leading 0))"
    by (simp add: parked_world_def)
  from one_fetch_at_a_time [OF run_parked this, of 1 _ 0 7] show ?thesis
    by (auto simp: plain_caller_def)
qed

theorem lone_caller_is_sequential_witness:
  "\<exists>w'. steps utc_seconds asking_world w'
     \<and> at_phase w' 0 = Some (Returned (Err (Http [7]))) \<and> cache_keys (world_cache w') = Map.empty"
proof -
  have c: "callers asking_world 0 = Some (plain_caller Asking)" by (simp add: asking_world_def)
  have q: "request_public_key utc_seconds numbered (\<lambda>u. Err (Http [7])) [] = Err (Http [7])"
    by (simp add: request_public_key_def)
  have k: "key_at_url utc_seconds numbered (\<lambda>u. Err (Http [7])) 0 [] (world_cache asking_world)
      = (Err (Http [7]), world_cache asking_world)"
    by (simp add: key_at_url_def q fetch_outcome_def)
  have "\<exists>w'. steps utc_seconds asking_world w'
      \<and> at_phase w' 0 = Some (Returned (fst (key_at_url utc_seconds numbered (\<lambda>u. Err (Http [7])) 0
          (caller_url (plain_caller Asking)) (world_cache asking_world))))
      \<and> world_cache w' = snd (key_at_url utc_seconds numbered (\<lambda>u. Err (Http [7])) 0
          (caller_url (plain_caller Asking)) (world_cache asking_world))"
    by (rule lone_caller_is_sequential [OF run_asking c])
      (simp_all add: plain_caller_def q asking_world_def empty_world_def empty_cache_def)
  then show ?thesis
    using k by (auto simp: plain_caller_def asking_world_def empty_world_def empty_cache_def)
qed

theorem clear_lets_an_earlier_fetch_be_held_witness:
  "held_for
     (world_cache (respond utc_seconds 0
        (leading_world\<lparr> world_cache := clear_cache (world_cache leading_world) \<rparr>) 0
        (plain_caller (Leading 0)) 0 (Ok ([1], Some 3, Some 9))))
     (end_point_of []) 5 True = Some (key_answer_known [1] 3 8)"
proof -
  have "callers leading_world 0 = Some (plain_caller (Leading 0))" by (simp add: leading_world_def)
  from clear_lets_an_earlier_fetch_be_held [OF this, of 0 3 9 5] show ?thesis
    by (simp add: plain_caller_def)
qed

end
