(* ===== verification/Draining.thy ===== *)
theory Draining
  imports Sharing
begin

text \<open>
  Overlapping callers of \<open>key_at_url\<close> (src/src/fetch.rs) drain: whatever order they are polled
  in, whatever the transport answers and whoever drops out, their steps come to an end, and
  they cannot come to a stop before every caller has its result or was dropped.
\<close>

section \<open>Definitions\<close>

text \<open>
  The steps of the callers themselves: no caller arrives, nothing clears the cache, and a
  suspended caller is polled again only once it was woken. \<open>drops\<close> is whether a caller may be
  dropped.
\<close>

definition advance :: "'t chrono \<Rightarrow> bool \<Rightarrow> world \<Rightarrow> world \<Rightarrow> bool" where
  "advance C drops w w' \<longleftrightarrow>
     (\<exists>a. acts C w a w' \<and> a \<notin> {Enter, Again, Clear} \<and> (a = Cancel \<longrightarrow> drops))"

fun ongoing :: "phase \<Rightarrow> bool" where
  "ongoing (Returned _) = False"
| "ongoing Dropped = False"
| "ongoing _ = True"

definition live :: "world \<Rightarrow> nat set" where
  "live w = {i. \<exists>p. at_phase w i = Some p \<and> ongoing p}"

text \<open>How far a caller is from the next of its steps that ends or suspends it.\<close>

fun rank :: "(nat \<rightharpoonup> flight) \<Rightarrow> phase \<Rightarrow> nat" where
  "rank fs (Waiting f) = (if map_option finished (fs f) = Some True then 6 else 1)"
| "rank fs Asking = 5"
| "rank fs (Leading _) = 4"
| "rank fs (Unlisting _ _) = 3"
| "rank fs (Ending _ _) = 2"
| "rank fs _ = 0"

definition work :: "world \<Rightarrow> nat" where
  "work w = 3 * (card (live w))\<^sup>2 + (\<Sum>i \<in> live w. rank (flights w) (the (at_phase w i)))"

section \<open>Lemmas\<close>

lemma advance_intros:
  "callers w i = Some c \<Longrightarrow> caller_phase c = Asking \<Longrightarrow> advance C drops w (turn w i c)"
  "callers w i = Some c \<Longrightarrow> caller_phase c = Leading f
    \<Longrightarrow> advance C drops w (respond C now w i c f requested)"
  "callers w i = Some c \<Longrightarrow> caller_phase c = Unlisting f out \<Longrightarrow> advance C drops w (unlist w i c f out)"
  "callers w i = Some c \<Longrightarrow> caller_phase c = Ending f out \<Longrightarrow> advance C drops w (finish_flight w i c f out)"
  "callers w i = Some c \<Longrightarrow> caller_phase c = Waiting f \<Longrightarrow> advance C drops w (poll w i c f)"
  unfolding advance_def by (blast intro: acts.intros)+

lemma advance_step: "advance C drops w w' \<Longrightarrow> step C b w w'"
  by (auto simp: advance_def step_def)

lemma advance_run: "(advance C drops)\<^sup>*\<^sup>* w w' \<Longrightarrow> run C b w \<Longrightarrow> run C b w'"
  by (induction rule: rtranclp_induct) (auto intro: run.more advance_step)

lemma rank_le: "rank fs p \<le> 6"
  by (cases p) simp_all

lemma ranks_le: "(\<Sum>i \<in> live w. rank (flights w) (the (at_phase w i))) \<le> 6 * card (live w)"
  using sum_bounded_above [of "live w" "\<lambda>i. rank (flights w) (the (at_phase w i))" 6] rank_le
  by (simp add: mult.commute)

lemma work_le: "work w \<le> 3 * (card (live w))\<^sup>2 + 6 * card (live w)"
  using ranks_le by (simp add: work_def)

lemma finite_callers: "run C b w \<Longrightarrow> finite (dom (callers w))"
proof (induction rule: run.induct)
  case (more w w')
  from more.hyps(2) more.IH show ?case
  proof (cases rule: step_cases)
    case (finish i c f out)
    have "dom (wake ws g (callers w)) = dom (callers w)" for ws g
      by (auto simp: wake_def dom_def split: option.splits)
    then show ?thesis
      using more.IH finish by (simp add: finish_flight_def del: fun_upd_apply split: option.splits)
  qed (auto simp: turn_def respond_def unlist_def poll_def Let_def simp del: fun_upd_apply
      split: option.splits res.splits prod.splits)
qed (simp add: empty_world_def)

lemma finite_live: "run C b w \<Longrightarrow> finite (live w)"
  by (rule finite_subset [OF _ finite_callers]) (auto simp: live_def at_phase_def)

text \<open>A caller that ends pays for every other caller being made to run again.\<close>

lemma work_leaves:
  assumes "finite (live w)" "i \<in> live w" "live w' \<subseteq> live w - {i}"
  shows "work w' < work w"
proof -
  have "card (live w') \<le> card (live w) - 1"
    using card_mono [OF finite_Diff [OF assms(1)] assms(3)] assms(1,2) by simp
  moreover have "0 < card (live w)" using assms(1,2) by (auto simp: card_gt_0_iff)
  ultimately obtain n k where n: "card (live w) = Suc n" "card (live w') = k" "k \<le> n"
    by (cases "card (live w)") auto
  have "k\<^sup>2 \<le> n\<^sup>2" using n(3) by (rule power_mono) simp
  have "work w' \<le> 3 * k\<^sup>2 + 6 * k" using work_le [of w'] n by simp
  also have "\<dots> \<le> 3 * n\<^sup>2 + 6 * n" using \<open>k\<^sup>2 \<le> n\<^sup>2\<close> n(3) by linarith
  also have "\<dots> < 3 * (Suc n)\<^sup>2" by (simp add: power2_eq_square)
  also have "\<dots> \<le> work w" by (simp add: work_def n)
  finally show ?thesis .
qed

text \<open>A caller that stays comes nearer, and leaves the others where they are.\<close>

lemma work_stays:
  assumes "finite (live w)" "at_phase w i = Some q" "ongoing q"
    and "at_phase w' i = Some p" "ongoing p" "rank (flights w') p < rank (flights w) q"
    and same: "\<And>j. j \<noteq> i \<Longrightarrow> at_phase w' j = at_phase w j"
    and ranks: "\<And>j r. j \<noteq> i \<Longrightarrow> at_phase w j = Some r \<Longrightarrow> rank (flights w') r = rank (flights w) r"
  shows "work w' < work w"
proof -
  have "j \<in> live w' \<longleftrightarrow> j \<in> live w" for j
    using assms(2-5) same by (cases "j = i") (simp_all add: live_def)
  then have live: "live w' = live w" by blast
  have i: "i \<in> live w" using assms(2,3) by (simp add: live_def)
  have "(\<Sum>j \<in> live w - {i}. rank (flights w') (the (at_phase w' j)))
      = (\<Sum>j \<in> live w - {i}. rank (flights w) (the (at_phase w j)))"
    by (rule sum.cong) (auto simp: live_def same ranks)
  then show ?thesis
    using assms(2,4,6) unfolding work_def live
    by (simp add: sum.remove [OF assms(1) i])
qed

lemma waiting_flight:
  assumes "waiters_inv w" "at_phase w j = Some r" "waits r = Some f"
  shows "flights w f \<noteq> None"
  using assms unfolding waiters_inv_def by blast

lemma rank_same:
  assumes "waiters_inv w" "at_phase w j = Some r"
    and "\<And>f. flights w f \<noteq> None \<Longrightarrow> map_option finished (fs f) = map_option finished (flights w f)"
  shows "rank fs r = rank (flights w) r"
  using assms waiting_flight [OF assms(1,2)] by (cases r) auto

lemma listed_unfinished:
  "flights_inv w \<Longrightarrow> waiters_inv w \<Longrightarrow> in_flight (world_cache w) url = Some f
   \<Longrightarrow> map_option finished (flights w f) = Some False"
  using entry_flight by fastforce

lemma turn_works:
  assumes "callers w i = Some c" "caller_phase c = Asking"
    and "flights_inv w" "waiters_inv w" "finite (live w)"
  shows "work (turn w i c) < work w"
proof -
  note i = at_phase_caller [OF assms(1), unfolded assms(2)]
  show ?thesis
  proof (cases "cached_answer (world_cache w) (caller_url c) (caller_recent c)")
    case (Some a)
    show ?thesis
      using i Some by (intro work_leaves [OF assms(5), of i]) (auto simp: turn_def live_def)
  next
    case None
    note miss = None
    show ?thesis
    proof (cases "in_flight (world_cache w) (caller_url c)")
      case (Some f)
      with miss have w': "turn w i c = set_phase w i c (Waiting f)" by (simp add: turn_def)
      show ?thesis
        unfolding w' using listed_unfinished [OF assms(3,4) Some] i
        by (intro work_stays [OF assms(5), of i Asking _ "Waiting f"]) auto
    next
      case None
      have new: "flights w (next_flight w) = None" using assms(3) by (simp add: flights_inv_def)
      show ?thesis
      proof (rule work_stays [OF assms(5) i, where p = "Leading (next_flight w)"])
        show "rank (flights (turn w i c)) r = rank (flights w) r" if "at_phase w j = Some r" for j r
          by (rule rank_same [OF assms(4) that]) (use miss None new in \<open>auto simp: turn_def Let_def\<close>)
      qed (use miss None in \<open>simp_all add: turn_def Let_def\<close>)
    qed
  qed
qed

lemma finish_works:
  assumes "callers w i = Some c" "caller_phase c = Ending f out"
    and "flights_inv w" "waiters_inv w" "finite (live w)"
  shows "work (finish_flight w i c f out) < work w"
proof -
  note i = at_phase_caller [OF assms(1), unfolded assms(2)]
  then have "led_by w f i" by (simp add: led_by_def)
  with assms(3) obtain fl where fl: "flights w f = Some fl" by (force simp: flights_inv_def)
  have "j \<in> live w - {i}" if "j \<in> live (finish_flight w i c f out)" for j
  proof (cases "j = i")
    case True
    with that show ?thesis by (auto simp: finish_flight_def fl live_def split: option.splits)
  next
    case False
    with that show ?thesis
      by (auto simp: finish_flight_def fl live_def wake_def at_phase_def split: option.splits if_splits)
  qed
  with i show ?thesis by (intro work_leaves [OF assms(5), of i]) (auto simp: live_def)
qed

lemma poll_works:
  assumes "callers w i = Some c" "caller_phase c = Waiting f"
    and "flights_inv w" "waiters_inv w" "finite (live w)"
  shows "work (poll w i c f) < work w"
proof -
  note i = at_phase_caller [OF assms(1), unfolded assms(2)]
  with assms(4) obtain fl where fl: "flights w f = Some fl" using waiting_flight [of w i] by force
  show ?thesis
  proof (cases "finished fl")
    case False
    show ?thesis
    proof (rule work_stays [OF assms(5) i, where p = "Parked f"])
      show "rank (flights (poll w i c f)) r = rank (flights w) r" if "at_phase w j = Some r" for j r
        by (rule rank_same [OF assms(4) that]) (use False fl in \<open>auto simp: poll_def\<close>)
    qed (use False fl in \<open>simp_all add: poll_def\<close>)
  next
    case True
    show ?thesis
    proof (cases "outcome fl")
      case None
      with True i fl show ?thesis
        by (intro work_stays [OF assms(5), of i "Waiting f" _ Asking]) (auto simp: poll_def)
    next
      case (Some r)
      with True i fl show ?thesis
        by (intro work_leaves [OF assms(5), of i]) (auto simp: poll_def live_def)
    qed
  qed
qed

text \<open>A change of one caller's phase, and of the cache, to a phase nearer the end.\<close>

lemma phase_works:
  assumes "callers w i = Some c" "ongoing (caller_phase c)" "finite (live w)"
    and "\<not> ongoing p \<or> rank (flights w) p < rank (flights w) (caller_phase c)"
  shows "work (set_phase (w\<lparr> world_cache := k \<rparr>) i c p) < work w"
proof -
  note i = at_phase_caller [OF assms(1)]
  show ?thesis
  proof (cases "ongoing p")
    case True
    with assms(2,4) i show ?thesis
      by (intro work_stays [OF assms(3), of i "caller_phase c" _ p]) auto
  next
    case False
    with assms(2) i show ?thesis
      by (intro work_leaves [OF assms(3), of i]) (auto simp: live_def)
  qed
qed

lemma cache_same: "set_phase w i c p = set_phase (w\<lparr> world_cache := world_cache w \<rparr>) i c p"
  by simp

lemma respond_works:
  assumes "callers w i = Some c" "caller_phase c = Leading f" "finite (live w)"
  shows "work (respond C now w i c f requested) < work w"
proof -
  have "\<exists>k out. respond C now w i c f requested = set_phase (w\<lparr> world_cache := k \<rparr>) i c (Unlisting f out)"
    using cache_same [of w i c "Unlisting f None"]
    by (auto simp only: respond_def split: res.splits prod.splits)
  then show ?thesis using phase_works [OF assms(1) _ assms(3)] assms(2) by auto
qed

lemma advance_works:
  assumes "advance C drops w w'" "flights_inv w" "waiters_inv w" "finite (live w)"
  shows "work w' < work w"
proof -
  note small = phase_works [OF _ _ assms(4)]
  from assms(1) obtain a where "acts C w a w'" "a \<notin> {Enter, Again, Clear}"
    by (auto simp: advance_def)
  then show ?thesis
  proof (cases rule: acts.cases)
    case (turn i c)
    then show ?thesis using turn_works assms(2-4) by simp
  next
    case (respond i c f now requested)
    then show ?thesis using respond_works assms(4) by simp
  next
    case (cancel_lead i c f)
    then show ?thesis using small [of i c "Unlisting f None" "world_cache w"] by simp
  next
    case (unlist i c f out)
    then show ?thesis using small [of i c "Ending f out"] by (simp add: unlist_def)
  next
    case (finish i c f out)
    then show ?thesis using finish_works assms(2-4) by simp
  next
    case (poll i c f)
    then show ?thesis using poll_works assms(2-4) by simp
  next
    case (cancel_wait i c f)
    then show ?thesis using small [of i c Dropped "world_cache w"] by auto
  qed simp_all
qed

lemma advance_bound:
  "(advance C drops ^^ n) w w' \<Longrightarrow> run C b w \<Longrightarrow> n + work w' \<le> work w"
proof (induction n arbitrary: w')
  case (Suc n)
  then obtain v where v: "(advance C drops ^^ n) w v" "advance C drops v w'" by auto
  have "run C b v"
    using advance_run [OF relpowp_imp_rtranclp [OF v(1)] Suc.prems(2)] .
  with v(2) have "work w' < work v"
    using run_inv finite_live advance_works by blast
  with Suc.IH [OF v(1) Suc.prems(2)] show ?case by simp
qed simp

text \<open>Every caller that is not done can take a step, or waits on one that can.\<close>

lemma ongoing_advances:
  assumes "run C b w" "callers w i = Some c" "ongoing (caller_phase c)"
  shows "\<exists>w'. advance C drops w w'"
proof (cases "\<exists>f. leads (caller_phase c) = Some f")
  case True
  then show ?thesis
    using assms(2) by (cases "caller_phase c") (auto intro: advance_intros)
next
  case False
  show ?thesis
  proof (cases "\<exists>f. caller_phase c = Parked f")
    case True
    then obtain f where f: "caller_phase c = Parked f" by blast
    have inv: "flights_inv w" "waiters_inv w" using run_inv [OF assms(1)] by auto
    with f assms(2) obtain fl where "flights w f = Some fl" "\<not> finished fl"
      unfolding waiters_inv_iff by blast
    with inv(1) obtain j where "led_by w f j" unfolding flights_inv_def by blast
    then obtain d where "callers w j = Some d" "leads (caller_phase d) = Some f"
      by (auto simp: led_by_def at_phase_def)
    then show ?thesis by (cases "caller_phase d") (auto intro: advance_intros)
  next
    case parked: False
    with False assms(2,3) show ?thesis
      by (cases "caller_phase c") (auto intro: advance_intros)
  qed
qed

section \<open>Properties\<close>

text \<open>C12: Fetching terminates and never deadlocks. From any reachable state, whatever the order
  the callers are polled in, whatever the transport answers and whichever callers drop out,
  \<open>n\<close> callers that are not done take at most \<open>3 n^2 + 6 n\<close> steps; and they stop
  only when each has returned or was dropped, even where the caller making a fetch is lost.\<close>

theorem callers_drain:
  assumes "run C b w"
  shows "((advance C drops ^^ n) w w' \<longrightarrow> n \<le> 3 * (card (live w))\<^sup>2 + 6 * card (live w))
    \<and> ((advance C drops)\<^sup>*\<^sup>* w w' \<longrightarrow> (\<nexists>w''. advance C drops w' w'') \<longrightarrow> callers w' i = Some c
         \<longrightarrow> caller_phase c = Dropped \<or> (\<exists>r. caller_phase c = Returned r))"
proof (intro conjI impI)
  assume "(advance C drops ^^ n) w w'"
  from advance_bound [OF this assms] work_le [of w]
  show "n \<le> 3 * (card (live w))\<^sup>2 + 6 * card (live w)" by linarith
next
  assume "(advance C drops)\<^sup>*\<^sup>* w w'" "\<nexists>w''. advance C drops w' w''" "callers w' i = Some c"
  with ongoing_advances [OF advance_run [OF _ assms]] have "\<not> ongoing (caller_phase c)" by blast
  then show "caller_phase c = Dropped \<or> (\<exists>r. caller_phase c = Returned r)"
    by (cases "caller_phase c") auto
qed

theorem callers_drain_witness:
  "\<nexists>w'. (advance utc_seconds True ^^ 25) parked_world w'"
proof -
  have "live parked_world = {0, 1}"
    by (auto simp: live_def at_phase_def parked_world_def plain_caller_def)
  then have "card (live parked_world) = 2" by simp
  then show ?thesis
    using callers_drain [OF run_parked [of utc_seconds], where n = 25 and drops = True] by fastforce
qed

end
