(* ===== verification/Hosted.thy ===== *)
theory Hosted
  imports KeyRequest
begin

text \<open>
  A creator's schedule (src/src/schedule.rs, src/src/endpoints.rs) and the cache of a verifier
  that asks it (src/src/fetch.rs), together: whatever is asked, at whatever moments, the
  cache answers for that creator what the schedule's rule says.
\<close>

section \<open>Definitions\<close>

definition minute_start :: "'t chrono \<Rightarrow> u32 \<Rightarrow> 't" where
  "minute_start C m = the (add_minutes C (base_date C) (uint m))"

text \<open>
  The caches of a process that asks the end point \<open>p\<close>, which hosts the schedule of \<open>keys\<close>, in any
  way and at any moment, and other end points that may answer anything.
\<close>

inductive hosted_run ::
    "('t :: linorder) chrono \<Rightarrow> ('sk, 'vk, 'sg) p256 \<Rightarrow> 't dated_public_key list \<Rightarrow> str \<Rightarrow> cache \<Rightarrow> bool"
  for C :: "('t :: linorder) chrono" and E :: "('sk, 'vk, 'sg) p256" and keys p where
  start: "hosted_run C E keys p empty_cache"
| fetched: "hosted_run C E keys p c
    \<Longrightarrow> public_key_response_at C E (schedule_new keys) format date later = Ok (status, body)
    \<Longrightarrow> request_public_key C E (\<lambda>_. Ok \<lparr> response_status = status, response_body = body \<rparr>) url
        = Ok (pem, s, e)
    \<Longrightarrow> hold now c p minute near pem s e = Ok (a, c')
    \<Longrightarrow> hosted_run C E keys p c'"
| other: "hosted_run C E keys p c \<Longrightarrow> q \<noteq> p \<Longrightarrow> hold now c q minute near pem s e = Ok (a, c')
    \<Longrightarrow> hosted_run C E keys p c'"
| clear: "hosted_run C E keys p c \<Longrightarrow> hosted_run C E keys p (clear_cache c)"
| fetches: "hosted_run C E keys p c \<Longrightarrow> hosted_run C E keys p (c\<lparr> in_flight := fs \<rparr>)"

text \<open>A claim whose two ends are minutes of the claimed key.\<close>

definition honest :: "('t :: linorder) chrono \<Rightarrow> 't dated_public_key list \<Rightarrow> claim \<Rightarrow> bool" where
  "honest C keys e \<longleftrightarrow>
     (\<exists>k. chosen keys (minute_start C (claim_first e)) = Some k
        \<and> chosen keys (minute_start C (claim_last e)) = Some k \<and> dated_pem k = claim_pem e)"

text \<open>A cache made by answers of which those of the end point \<open>p\<close> were honest.\<close>

definition honest_cache ::
    "('t :: linorder) chrono \<Rightarrow> 't dated_public_key list \<Rightarrow> str \<Rightarrow> cache \<Rightarrow> bool" where
  "honest_cache C keys p c \<longleftrightarrow>
     (\<exists>log. cache_run c log \<and> (\<forall>e \<in> set log. claim_end_point e = p \<longrightarrow> honest C keys e))"

section \<open>Lemmas\<close>

lemma minute_start_count:
  assumes "dates_ok C"
  shows "num_minutes C (minute_start C m) (base_date C) = uint m"
    and "minutes_since_base C (minute_start C m) = Some m"
proof -
  obtain d where d: "add_minutes C (base_date C) (uint m) = Some d" by (rule moment_of_minutes [OF assms])
  show n: "num_minutes C (minute_start C m) (base_date C) = uint m"
    using count_of_minutes [OF assms d] by (simp add: minute_start_def d)
  show "minutes_since_base C (minute_start C m) = Some m" by (simp add: minutes_since_base_def n)
qed

lemma minute_start_less:
  assumes "dates_ok C" "dates_ordered C"
  shows "minute_start C a < minute_start C b \<longleftrightarrow> a < b"
proof -
  have mono: "minute_start C x \<le> minute_start C y \<Longrightarrow> x \<le> y" for x y
    using assms(2) minute_start_count(1) [OF assms(1)]
    by (force simp: dates_ordered_def word_le_def)
  show ?thesis using mono [of a b] mono [of b a] by (force simp: less_le not_le [symmetric])
qed

lemma minute_start_le:
  "dates_ok C \<Longrightarrow> dates_ordered C \<Longrightarrow> minute_start C a \<le> minute_start C b \<longleftrightarrow> a \<le> b"
  using minute_start_less [of C b a] by (simp add: not_less [symmetric])

text \<open>What a request to the hosted schedule is answered with.\<close>

lemma hosted_answer:
  assumes "dates_ok C" "rfc3339_ok C whole"
    and "\<forall>k \<in> set keys. (\<exists>c. new_verify_only E (dated_pem k) = Ok c) \<and> whole (starts_at k)"
    and "public_key_response_at C E (schedule_new keys) format date later = Ok (status, body)"
    and "request_public_key C E (\<lambda>_. Ok \<lparr> response_status = status, response_body = body \<rparr>) url
        = Ok (pem, s, e)"
  shows "\<exists>t k. asked_moment C date later = Ok (Some t) \<and> chosen keys t = Some k \<and> pem = dated_pem k
    \<and> s = minutes_since_base C (starts_at k)
    \<and> e = Option.bind (next_start_after (schedule_new keys) k) (minutes_since_base C)"
proof -
  from assms(5) obtain b where b: "status = 200" "parse_answer C body = Ok b" "pem = answer_public_key b"
    "s = Option.bind (valid_from b) (minutes_since_base C)"
    "e = Option.bind (valid_to b) (minutes_since_base C)"
    by (auto simp: request_public_key_Ok)
  with response_at [OF assms(1-3), of format date later] assms(4) obtain t k where
    "asked_moment C date later = Ok (Some t)" "key_in_force (schedule_new keys) t = Ok (Some k)"
    "b = published_answer_new (dated_pem k) (Some (starts_at k)) (next_start_after (schedule_new keys) k)"
    by (auto simp: Let_def)
  with b show ?thesis
    by (intro exI [of _ t] exI [of _ k]) (auto simp: key_in_force_chosen published_answer_new_def)
qed

lemma answered_claims_honest:
  assumes "dates_ok C" "dates_ordered C" "\<forall>k \<in> set keys. \<exists>m. starts_at k = minute_start C m"
    and "chosen keys t = Some k"
    and "s = minutes_since_base C (starts_at k)"
    and "e = Option.bind (next_start_after (schedule_new keys) k) (minutes_since_base C)"
    and "x \<in> set (claims_of now p minute near (dated_pem k) s e)"
  shows "honest C keys x"
proof -
  note less = minute_start_less [OF assms(1,2)] and le = minute_start_le [OF assms(1,2)]
  have "k \<in> set keys" using chosen_Some [OF assms(4)] by blast
  with assms(3) obtain f where f: "starts_at k = minute_start C f" by blast
  then have s: "s = Some f" using assms(5) minute_start_count(2) [OF assms(1)] by simp
  have in_force: "chosen keys (minute_start C m) = Some k"
    if "f \<le> m" "\<And>z. next_start_after (schedule_new keys) k = Some z \<Longrightarrow> minute_start C m < z" for m
    using that chosen_span [OF assms(4)] by (simp add: f le)
  show ?thesis
  proof (cases "next_start_after (schedule_new keys) k")
    case None
    let ?l = "max f (saturating_sub now CLOCK_DRIFT_ALLOWANCE_MINUTES)"
    have "claim_first x = f" "claim_last x = ?l" "claim_pem x = dated_pem k"
      using assms(6,7) None by (auto simp: s claims_of_def span_to_hold_def)
    then show ?thesis using in_force [of f] in_force [of ?l] None by (simp add: honest_def)
  next
    case (Some z)
    from next_start_after_Some [OF Some] assms(3) obtain g where
      g: "z = minute_start C g" "minute_start C f < minute_start C g" by (auto simp: f)
    then have fg: "f < g" by (simp add: less)
    then have l: "f \<le> g - 1" "g - 1 < g" by unat_arith+
    have "claim_first x = f" "claim_last x = g - 1" "claim_pem x = dated_pem k"
      using assms(6,7) Some fg minute_start_count(2) [OF assms(1)]
      by (auto simp: s g(1) claims_of_def span_to_hold_def)
    then show ?thesis
      using in_force [of f] in_force [of "g - 1"] Some fg l by (simp add: honest_def g(1) less)
  qed
qed

lemma honest_cache_keeps:
  "honest_cache C keys p empty_cache"
  "honest_cache C keys p c \<Longrightarrow> honest_cache C keys p (clear_cache c)"
  "honest_cache C keys p c \<Longrightarrow> honest_cache C keys p (c\<lparr> in_flight := fs \<rparr>)"
  unfolding honest_cache_def using cache_run.start cache_run.clear cache_run.fetches by fastforce+

lemma honest_cache_hold:
  assumes "honest_cache C keys p c" "hold now c q minute near pem s e = Ok (a, c')"
    and "\<And>x. q = p \<Longrightarrow> x \<in> set (claims_of now q minute near pem s e) \<Longrightarrow> honest C keys x"
  shows "honest_cache C keys p c'"
proof -
  from assms(1) obtain log where
    log: "cache_run c log" "\<forall>e \<in> set log. claim_end_point e = p \<longrightarrow> honest C keys e"
    by (auto simp: honest_cache_def)
  have "claim_end_point x = q" if "x \<in> set (claims_of now q minute near pem s e)" for x
    using that by (auto simp: claims_of_def split: option.splits)
  with assms(3) log(2) have "\<forall>x \<in> set (claims_of now q minute near pem s e @ log).
      claim_end_point x = p \<longrightarrow> honest C keys x" by auto
  with cache_run.answer [OF log(1) assms(2)] show ?thesis unfolding honest_cache_def by blast
qed

lemma hosted_honest:
  assumes "hosted_run C E keys p c" "dates_ok C" "dates_ordered C" "rfc3339_ok C whole"
    and "\<forall>k \<in> set keys. (\<exists>c. new_verify_only E (dated_pem k) = Ok c) \<and> whole (starts_at k)"
    and "\<forall>k \<in> set keys. \<exists>m. starts_at k = minute_start C m"
  shows "honest_cache C keys p c"
  using assms(1)
proof (induction rule: hosted_run.induct)
  case (fetched c format date later status body url pem s e now minute near a c')
  from hosted_answer [OF assms(2,4,5) fetched.hyps(2,3)] obtain t k where
    k: "chosen keys t = Some k" "pem = dated_pem k" "s = minutes_since_base C (starts_at k)"
      "e = Option.bind (next_start_after (schedule_new keys) k) (minutes_since_base C)" by blast
  note answered_claims_honest [OF assms(2,3,6) k(1,3,4), of _ now p minute near]
  with k(2) show ?case by (intro honest_cache_hold [OF fetched.IH fetched.hyps(4)]) simp
next
  case (other c q now minute near pem s e a c')
  then show ?case by (intro honest_cache_hold [OF other.IH other.hyps(3)]) simp
qed (simp_all add: honest_cache_keeps)

text \<open>
  Such a cache holds for a minute the key chosen at that minute: its ends are minutes of the
  key, so all minutes between them are.
\<close>

lemma honest_cache_serves:
  assumes "dates_ok C" "dates_ordered C" "distinct (map dated_pem keys)"
    and "honest_cache C keys p c" "held_for c p m near = Some a"
  shows "\<exists>k. chosen keys (minute_start C m) = Some k \<and> dated_pem k = answer_pem a"
proof -
  note le = minute_start_le [OF assms(1,2)]
  from assms(4) obtain log where
    log: "cache_run c log" "\<forall>e \<in> set log. claim_end_point e = p \<longrightarrow> honest C keys e"
    by (auto simp: honest_cache_def)
  from held_for_backed [OF log(1) assms(5)] obtain h where
    h: "backed log p h" "held_covers h m" "a = held_stated h" .
  from h(1) obtain e e' where e: "e \<in> set log" "claim_end_point e = p" "claim_pem e = held_pem h"
      "claim_first e = first_minute h"
    and e': "e' \<in> set log" "claim_end_point e' = p" "claim_pem e' = held_pem h"
      "claim_last e' = last_minute h"
    unfolding backed_def by blast
  then have "honest C keys e" "honest C keys e'" using log(2) by simp_all
  with e e' obtain k k' where
    k: "chosen keys (minute_start C (first_minute h)) = Some k" "dated_pem k = held_pem h" and
    k': "chosen keys (minute_start C (last_minute h)) = Some k'" "dated_pem k' = held_pem h"
    unfolding honest_def by metis
  have "k \<in> set keys" "k' \<in> set keys" using chosen_Some [OF k(1)] chosen_Some [OF k'(1)] by auto
  moreover have "inj_on dated_pem (set keys)" using assms(3) by (simp add: distinct_map)
  ultimately have "k' = k" using k(2) k'(2) by (metis inj_onD)
  then have last: "chosen keys (minute_start C (last_minute h)) = Some k" using k'(1) by simp
  have m: "minute_start C (first_minute h) \<le> minute_start C m"
    "minute_start C m \<le> minute_start C (last_minute h)" using h(2) by (simp_all add: held_covers_def le)
  have "starts_at k \<le> minute_start C m"
    using chosen_Some [OF k(1)] m(1) by (blast intro: order_trans)
  moreover have "minute_start C m < z" if "next_start_after (schedule_new keys) k = Some z" for z
    using chosen_span [OF k(1), THEN iffD1, OF last] that m(2) by (blast intro: order.strict_trans1)
  ultimately have "chosen keys (minute_start C m) = Some k" using chosen_span [OF k(1)] by blast
  then show ?thesis using k(2) h(3) by (intro exI [of _ k]) simp
qed

section \<open>Properties\<close>

text \<open>The cache agrees with the schedule. For a creator whose keys are distinct and start on
  whole minutes, whatever minutes were asked about at whatever moments, whatever other
  creators answered and whenever the cache was cleared, a key held for a minute is the key
  in force at that minute.\<close>

theorem cache_agrees_with_schedule:
  assumes "dates_ok C" "dates_ordered C" "rfc3339_ok C whole"
    and "\<forall>k \<in> set keys. (\<exists>c. new_verify_only E (dated_pem k) = Ok c) \<and> whole (starts_at k)"
    and "\<forall>k \<in> set keys. \<exists>m. starts_at k = minute_start C m" "distinct (map dated_pem keys)"
    and "hosted_run C E keys p c" "held_for c p m near = Some a"
  shows "\<exists>k. key_in_force (schedule_new keys) (minute_start C m) = Ok (Some k) \<and> dated_pem k = answer_pem a"
  using honest_cache_serves [OF assms(1,2,6) hosted_honest [OF assms(7,1-5)] assms(8)]
  by (simp add: key_in_force_chosen)

section \<open>Worked examples\<close>

lemma weekly_keys_fine:
  "\<forall>k \<in> set weekly_keys. (\<exists>c. new_verify_only numbered (dated_pem k) = Ok c) \<and> \<bar>starts_at k\<bar> < 2 ^ 32"
  using numbered_readable by (simp add: weekly_keys_def dated_public_key_new_def)

text \<open>Asking the weekly schedule for minute 3 is answered with the key of minutes 1 to 9.\<close>

lemma weekly_request:
  "\<exists>body. public_key_response_at utc_seconds numbered (schedule_new weekly_keys) None (Some (lit ''3'')) 1577837000
       = Ok (200, body)
     \<and> (\<forall>url. request_public_key utc_seconds numbered
          (\<lambda>_. Ok \<lparr> response_status = 200, response_body = body \<rparr>) url = Ok (lit ''9'', Some 1, Some 10))"
proof -
  let ?a = "published_answer_new (lit ''9'') (Some 1577836860) (Some (1577837400 :: int))"
  have chosen: "chosen weekly_keys 1577836980 = Some (hd weekly_keys)"
    by (simp add: chosen_def weekly_keys_def dated_public_key_new_def)
  have hd: "hd weekly_keys = dated_public_key_new 1577836860 (lit ''9'')" by (simp add: weekly_keys_def)
  have nxt: "next_start_after (schedule_new weekly_keys) (hd weekly_keys) = Some 1577837400"
    unfolding next_start_after_def schedule_new_def
    by (simp add: weekly_keys_def dated_public_key_new_def)
  from answer_in_force [OF rfc3339_ok_utc chosen weekly_keys_fine] have
    v: "validate numbered ?a (Some 1577836980) = Ok ()" and
    j: "parse_answer utc_seconds (to_json utc_seconds ?a) = Ok ?a"
    by (simp_all add: nxt) (simp_all add: hd dated_public_key_new_def)
  have asked: "asked_moment utc_seconds (Some (lit ''3'')) 1577837000 = Ok (Some 1577836980)"
    by (simp add: asked_moment_def parse_u32_def from_str_radix_def lit_def to_digit_def
        utc_seconds_def base_date_def)
  have response: "public_key_response_at utc_seconds numbered (schedule_new weekly_keys) None
      (Some (lit ''3'')) 1577837000 = Ok (200, to_json utc_seconds ?a)"
    by (simp add: public_key_response_at_def serves_format_def asked key_in_force_chosen chosen
        public_key_answer_def nxt) (simp add: hd dated_public_key_new_def v)
  have "validate numbered ?a None = Ok ()"
    using v by (simp add: validate_Ok check_asked_cases(1))
  then have request: "request_public_key utc_seconds numbered
      (\<lambda>_. Ok \<lparr> response_status = 200, response_body = to_json utc_seconds ?a \<rparr>) url = Ok (lit ''9'', Some 1, Some 10)" for url
    unfolding request_public_key_Ok using j
    by (intro exI conjI) (auto simp: published_answer_new_def minutes_since_base_def utc_seconds_def
        base_date_def quot_def u32_try_from_def)
  with response show ?thesis by blast
qed

lemma weekly_fetched:
  "\<exists>c. hosted_run utc_seconds numbered weekly_keys [101] c
     \<and> held_for c [101] 7 True = Some (key_answer_known (lit ''9'') 1 9)"
proof -
  from weekly_request obtain body where
    response: "public_key_response_at utc_seconds numbered (schedule_new weekly_keys) None (Some (lit ''3'')) 1577837000
       = Ok (200, body)" and
    request: "request_public_key utc_seconds numbered
      (\<lambda>_. Ok \<lparr> response_status = 200, response_body = body \<rparr>) [] = Ok (lit ''9'', Some 1, Some 10)"
    by blast
  obtain a c where h: "hold 3 empty_cache [101] (Some 3) True (lit ''9'') (Some 1) (Some 10) = Ok (a, c)"
    using hold_inv [OF cache_inv_empty] by blast
  have "held_for c [101] 7 True = Some (key_answer_known (lit ''9'') 1 (10 - 1)) \<and> a = key_answer_known (lit ''9'') 1 (10 - 1)"
    by (rule stated_span_is_served [OF cache_inv_empty _ _ h]) (simp_all add: empty_cache_def)
  moreover have "hosted_run utc_seconds numbered weekly_keys [101] c"
    by (rule hosted_run.fetched [OF hosted_run.start response request h])
  ultimately show ?thesis by auto
qed

lemma weekly_minutes:
  "\<forall>k \<in> set weekly_keys. \<exists>m. starts_at k = minute_start utc_seconds m"
  "distinct (map dated_pem weekly_keys)"
proof -
  have "minute_start utc_seconds 1 = 1577836860" "minute_start utc_seconds 10 = 1577837400"
    by (simp_all add: minute_start_def utc_seconds_def base_date_def)
  then show "\<forall>k \<in> set weekly_keys. \<exists>m. starts_at k = minute_start utc_seconds m"
    by (auto simp: weekly_keys_def dated_public_key_new_def intro: exI [of _ 1] exI [of _ 10])
  show "distinct (map dated_pem weekly_keys)"
    by (simp add: weekly_keys_def dated_public_key_new_def lit_def)
qed

theorem cache_agrees_with_schedule_witness:
  "\<exists>c a k. hosted_run utc_seconds numbered weekly_keys [101] c \<and> held_for c [101] 7 True = Some a
     \<and> key_in_force (schedule_new weekly_keys) (minute_start utc_seconds 7) = Ok (Some k)
     \<and> dated_pem k = answer_pem a"
proof -
  obtain c where c: "hosted_run utc_seconds numbered weekly_keys [101] c"
    "held_for c [101] 7 True = Some (key_answer_known (lit ''9'') 1 9)" using weekly_fetched by blast
  from cache_agrees_with_schedule [OF dates_ok_utc dates_ordered_utc rfc3339_ok_utc weekly_keys_fine weekly_minutes c]
  show ?thesis using c by blast
qed

end
