(* ===== verification/Answering.thy ===== *)
theory Answering
  imports Sharing
begin

text \<open>
  What the callers of \<open>key_at_url\<close> (src/src/fetch.rs) are answered with, however they overlap.
  The machinery of shared fetches is a client of two things: a transport, of which only the
  answers it gives are known, and a cache. Their contract is an interface, over which it is
  proved once that every caller gets an outcome that is good for its own URL.
\<close>

section \<open>Known answers\<close>

type_synonym serving = "str \<Rightarrow> (str \<times> u32 option \<times> u32 option, error) res \<Rightarrow> bool"

text \<open>A request for a URL is answered with what is served there.\<close>

fun answered_by :: "serving \<Rightarrow> action \<Rightarrow> bool" where
  "answered_by serves (Respond url requested) = serves url requested"
| "answered_by serves _ = True"

text \<open>
  Every answer the transport may give can be the first result of the process: what the first
  caller asks for is fetched, and it returns the result.
\<close>

definition moves :: "'t chrono \<Rightarrow> (action \<Rightarrow> bool) \<Rightarrow> world \<Rightarrow> world \<Rightarrow> bool" where
  "moves C allowed w w' \<longleftrightarrow> (\<exists>a. acts C w a w' \<and> allowed a)"

definition entered :: "'t chrono \<Rightarrow> 't \<Rightarrow> str \<Rightarrow> world" where
  "entered C now url = empty_world\<lparr> callers := [0 \<mapsto> \<lparr> caller_url = url,
     caller_recent = is_recent_url C now url, caller_phase = Asking \<rparr>] \<rparr>"

lemma reach_moves: "(moves C allowed)\<^sup>*\<^sup>* w w' \<Longrightarrow> reach C allowed w \<Longrightarrow> reach C allowed w'"
  by (induction rule: rtranclp_induct) (auto simp: moves_def intro: reach.more)

lemma acts_entered: "acts C empty_world Enter (entered C now url)"
  using acts.enter [of empty_world 0 C url now] by (simp add: empty_world_def entered_def)

lemma entered_returns:
  assumes "serves url q" "q \<noteq> Panic"
  shows "\<exists>w c. (moves C (answered_by serves))\<^sup>*\<^sup>* (entered C now url) w \<and> callers w 0 = Some c
    \<and> caller_url c = url \<and> caller_phase c = Returned (returned_of q)"
proof -
  let ?c = "\<lparr> caller_url = url, caller_recent = is_recent_url C now url, caller_phase = Asking \<rparr>"
  let ?w = "entered C now url"
  have k: "world_cache ?w = empty_cache" "callers ?w 0 = Some ?c"
    by (simp_all add: entered_def empty_world_def)
  have c: "caller_phase ?c = Asking" "caller_url ?c = url" by simp_all
  have none: "cached_answer empty_cache url r = None" for r
    by (simp add: cached_answer_def held_for_def empty_cache_def split: bind_splits)
  from fetch_outcome_result [OF cache_inv_empty assms(2), of C now url "caller_recent ?c"] obtain out k' where
    out: "fetch_outcome C now empty_cache url (caller_recent ?c) q = Ok (out, k')"
      "out = (case q of Ok (pem, s, e) \<Rightarrow> Inr (key_answer_stated pem s e)
            | Err e \<Rightarrow> Inl (failure_of e) | Panic \<Rightarrow> undefined)" by blast
  have "cached_answer (world_cache ?w) (caller_url ?c) (caller_recent ?c) = None"
    "in_flight (world_cache ?w) (caller_url ?c) = None"
    "fetch_outcome C now (world_cache ?w) (caller_url ?c) (caller_recent ?c) q = Ok (out, k')"
    using none out(1) by (simp_all add: k) (simp add: empty_cache_def)
  from lone_caller_acts [OF k(2) c(1) this, unfolded c(2)] obtain w1 w2 w3 w4 where
    acts: "acts C ?w Turn w1" "acts C w1 (Respond url q) w2" "acts C w2 Unlist w3" "acts C w3 Finish w4"
    and w4: "callers w4 0 = Some (?c\<lparr> caller_phase := Returned (result_of out) \<rparr>)" .
  have "(moves C (answered_by serves))\<^sup>*\<^sup>* ?w w4"
  proof -
    have move: "moves C (answered_by serves) u u'" if "acts C u a u'" "answered_by serves a" for u u' a
      using that by (auto simp: moves_def)
    have "(moves C (answered_by serves))\<^sup>*\<^sup>* ?w ?w" by simp
    also have "moves C (answered_by serves) ?w w1" using acts(1) by (rule move) simp
    also have "moves C (answered_by serves) w1 w2" using acts(2) by (rule move) (simp add: assms(1))
    also have "moves C (answered_by serves) w2 w3" using acts(3) by (rule move) simp
    also have "moves C (answered_by serves) w3 w4" using acts(4) by (rule move) simp
    finally show ?thesis .
  qed
  moreover have "result_of out = returned_of q"
    using out(2) assms(2) by (cases q) auto
  ultimately show ?thesis using w4 by (intro exI [of _ w4] exI conjI) (assumption, assumption, simp_all)
qed

lemma first_answer:
  fixes C :: "'t chrono"
  assumes "serves url q" "q \<noteq> Panic"
  shows "\<exists>w c. reach C (answered_by serves) w \<and> callers w 0 = Some c \<and> caller_url c = url
    \<and> caller_phase c = Returned (returned_of q)"
proof -
  fix now :: 't
  have "reach C (answered_by serves) (entered C now url)"
    by (rule reach.more [OF reach.start acts_entered]) simp
  with entered_returns [of serves url q, OF assms, of C now] show ?thesis
    using reach_moves by fast
qed

section \<open>One flight, one URL\<close>

text \<open>Who waits on a flight asked for the URL its leader asked for.\<close>

definition urls_inv :: "world \<Rightarrow> bool" where
  "urls_inv w \<longleftrightarrow>
     (\<forall>i c j d f. callers w i = Some c \<longrightarrow> leads (caller_phase c) = Some f \<longrightarrow>
        callers w j = Some d \<longrightarrow> waits (caller_phase d) = Some f \<longrightarrow> caller_url d = caller_url c)"

lemma urls_inv_set_phase:
  assumes "urls_inv w" "callers w i = Some c" "callers w' = callers w"
    and "leads p = None \<or> leads p = leads (caller_phase c)" "waits p = None \<or> waits p = waits (caller_phase c)"
  shows "urls_inv (set_phase w' i c p)"
  unfolding urls_inv_def
proof (intro allI impI)
  fix k e l g h
  assume e: "callers (set_phase w' i c p) k = Some e" "leads (caller_phase e) = Some h"
    and g: "callers (set_phase w' i c p) l = Some g" "waits (caller_phase g) = Some h"
  have "\<exists>e'. callers w k = Some e' \<and> leads (caller_phase e') = Some h \<and> caller_url e' = caller_url e"
    using e assms(2-4) by (auto split: if_splits)
  moreover have "\<exists>g'. callers w l = Some g' \<and> waits (caller_phase g') = Some h \<and> caller_url g' = caller_url g"
    using g assms(2,3,5) by (auto split: if_splits)
  ultimately show "caller_url g = caller_url e" using assms(1) unfolding urls_inv_def by metis
qed

lemma wake_phase:
  assumes "wake ws f cs j = Some d"
  obtains c where "cs j = Some c" "caller_url d = caller_url c" "leads (caller_phase d) = leads (caller_phase c)"
    "waits (caller_phase d) = waits (caller_phase c)"
    "caller_phase d = caller_phase c \<or> waits (caller_phase c) = Some f"
  using assms by (auto simp: wake_def split: option.splits if_splits)

lemma urls_inv_join:
  assumes "urls_inv w" "flights_inv w" "waiters_inv w" "callers w i = Some c" "caller_phase c = Asking"
    and "in_flight (world_cache w) (caller_url c) = Some f"
  shows "urls_inv (set_phase w i c (Waiting f))"
proof -
  from assms(3,6) obtain j d where d: "callers w j = Some d" "caller_url d = caller_url c"
    "listed (caller_phase d) = Some f" unfolding waiters_inv_iff by blast
  have same: "caller_url e = caller_url c" if "callers w k = Some e" "leads (caller_phase e) = Some f" for k e
  proof -
    have "led_by w f j" "led_by w f k" using d that by (auto simp: led_by_def at_phase_def listed_leads)
    with assms(2) have "j = k" unfolding flights_inv_def by blast
    with d that show ?thesis by simp
  qed
  show ?thesis
    unfolding urls_inv_def
  proof (intro allI impI)
    fix k e l g h
    assume e: "callers (set_phase w i c (Waiting f)) k = Some e" "leads (caller_phase e) = Some h"
      and g: "callers (set_phase w i c (Waiting f)) l = Some g" "waits (caller_phase g) = Some h"
    have k: "callers w k = Some e" using e by (auto split: if_splits)
    show "caller_url g = caller_url e"
    proof (cases "l = i")
      case True
      with g have "h = f" "caller_url g = caller_url c" by auto
      with same [OF k] e(2) show ?thesis by simp
    next
      case False
      with g e(2) k assms(1) show ?thesis unfolding urls_inv_def by auto
    qed
  qed
qed

lemma urls_inv_lead:
  assumes "urls_inv w" "waiters_inv w" "callers w i = Some c" "caller_phase c = Asking"
    and "flights w f = None" "callers w' = callers w"
  shows "urls_inv (set_phase w' i c (Leading f))"
proof -
  have "waits (caller_phase d) \<noteq> Some f" if "callers w j = Some d" for j d
    using assms(2,5) that unfolding waiters_inv_iff by blast
  with assms(1,4,6) show ?thesis unfolding urls_inv_def by (auto split: if_splits)
qed

lemma urls_inv_finish:
  assumes "urls_inv w" "callers w i = Some c" "caller_phase c = Ending f out"
  shows "urls_inv (finish_flight w i c f out)"
proof (cases "flights w f")
  case None
  with assms show ?thesis by (simp add: finish_flight_def)
next
  case (Some fl)
  let ?p = "case out of Some r \<Rightarrow> Returned (result_of r) | None \<Rightarrow> Dropped"
  have old: "\<exists>e. callers w j = Some e \<and> caller_url d = caller_url e
      \<and> leads (caller_phase e) = leads (caller_phase d) \<and> waits (caller_phase e) = waits (caller_phase d)"
    if "callers (finish_flight w i c f out) j = Some d" "j \<noteq> i" for j d
    using that wake_phase [of "wakers fl" f "callers w" j d] by (force simp: finish_flight_def Some)
  have ended: "leads (caller_phase d) = None" "waits (caller_phase d) = None"
    if "callers (finish_flight w i c f out) i = Some d" for d
    using that by (auto simp: finish_flight_def Some split: option.splits)
  show ?thesis
    unfolding urls_inv_def
  proof (intro allI impI)
    fix k e l g h
    assume e: "callers (finish_flight w i c f out) k = Some e" "leads (caller_phase e) = Some h"
      and g: "callers (finish_flight w i c f out) l = Some g" "waits (caller_phase g) = Some h"
    then have "k \<noteq> i" "l \<noteq> i" using ended by auto
    with old [OF e(1)] old [OF g(1)] e(2) g(2) assms(1) show "caller_url g = caller_url e"
      unfolding urls_inv_def by metis
  qed
qed

lemma urls_inv_step:
  assumes "step C b w w'" "flights_inv w" "waiters_inv w" "urls_inv w"
  shows "urls_inv w'"
  using assms
proof (induction rule: step_induct)
  case (enter w i url now)
  then show ?case by (auto simp: urls_inv_def)
next
  case (turn w i c)
  show ?case
  proof (cases "cached_answer (world_cache w) (caller_url c) (caller_recent c)")
    case None
    note miss = None
    show ?thesis
    proof (cases "in_flight (world_cache w) (caller_url c)")
      case None
      have "flights w (next_flight w) = None" using turn.prems(1) by (simp add: flights_inv_def)
      then show ?thesis
        unfolding turn_def miss None option.case Let_def
        by (intro urls_inv_lead [of w]) (use turn in simp_all)
    next
      case (Some f)
      with miss turn show ?thesis by (simp add: turn_def urls_inv_join)
    qed
  next
    case (Some a)
    with turn show ?thesis by (auto simp: turn_def intro!: urls_inv_set_phase [of w])
  qed
next
  case (respond w i c f now requested)
  then show ?case by (auto simp: respond_def intro!: urls_inv_set_phase [of w] split: res.splits)
next
  case (cancel_lead w i c f)
  then show ?case by (auto intro!: urls_inv_set_phase [of w])
next
  case (unlist w i c f out)
  then show ?case by (auto simp: unlist_def intro!: urls_inv_set_phase [of w])
next
  case (finish w i c f out)
  then show ?case by (intro urls_inv_finish)
next
  case (poll w i c f)
  then show ?case by (auto simp: poll_def intro!: urls_inv_set_phase [of w] split: option.splits)
next
  case (again w i c f)
  then show ?case by (auto intro!: urls_inv_set_phase [of w])
next
  case (cancel_wait w i c f)
  then show ?case by (auto intro!: urls_inv_set_phase [of w])
next
  case (clear w)
  then show ?case by (simp add: urls_inv_def)
qed

lemma reach_inv: "reach C allowed w \<Longrightarrow> flights_inv w \<and> waiters_inv w \<and> urls_inv w"
proof (induction rule: reach.induct)
  case start
  show ?case using run_inv [OF run.start] by (simp add: urls_inv_def empty_world_def)
next
  case (more w a w')
  then have "step C True w w'" by (auto simp: step_def)
  with more.IH show ?case using flights_inv_step waiters_inv_step urls_inv_step by metis
qed

section \<open>Good answers\<close>

text \<open>
  An invariant for results: what a caller carries, has returned, or is about to read from the
  finished fetch it waits on is good for its URL.
\<close>

fun carried :: "(str \<Rightarrow> (key_answer, error) res \<Rightarrow> bool) \<Rightarrow> str \<Rightarrow> phase \<Rightarrow> bool" where
  "carried good url (Unlisting f (Some out)) = good url (result_of out)"
| "carried good url (Ending f (Some out)) = good url (result_of out)"
| "carried good url (Returned r) = good url r"
| "carried good url _ = True"

lemma carried_waits: "waits p = Some f \<Longrightarrow> carried good url p"
  by (cases p) auto

definition awaited ::
    "(str \<Rightarrow> (key_answer, error) res \<Rightarrow> bool) \<Rightarrow> (nat \<rightharpoonup> flight) \<Rightarrow> str \<Rightarrow> phase \<Rightarrow> bool" where
  "awaited good fs url p \<longleftrightarrow>
     (\<forall>f fl out. waits p = Some f \<longrightarrow> fs f = Some fl \<longrightarrow> finished fl \<longrightarrow> outcome fl = Some out
        \<longrightarrow> good url (result_of out))"

definition deliveries ::
    "(cache \<Rightarrow> bool) \<Rightarrow> (str \<Rightarrow> (key_answer, error) res \<Rightarrow> bool) \<Rightarrow> world \<Rightarrow> bool" where
  "deliveries sound good w \<longleftrightarrow> sound (world_cache w)
     \<and> (\<forall>i c. callers w i = Some c \<longrightarrow>
          carried good (caller_url c) (caller_phase c)
          \<and> awaited good (flights w) (caller_url c) (caller_phase c))"

lemma deliveriesD:
  assumes "deliveries sound good w"
  shows "sound (world_cache w)"
    and "callers w i = Some c \<Longrightarrow> carried good (caller_url c) (caller_phase c)"
    and "callers w i = Some c \<Longrightarrow> awaited good (flights w) (caller_url c) (caller_phase c)"
  using assms by (auto simp: deliveries_def)

lemma deliveries_set_phase:
  assumes "deliveries sound good w" "callers w i = Some c" "callers w' = callers w"
    and "sound (world_cache w')"
    and "\<And>g fl. flights w' g = Some fl \<Longrightarrow> finished fl \<Longrightarrow> flights w g = Some fl"
    and "carried good (caller_url c) p" "awaited good (flights w) (caller_url c) p"
  shows "deliveries sound good (set_phase w' i c p)"
  using assms unfolding deliveries_def awaited_def by (auto split: if_splits)

lemma deliveries_finish:
  assumes w: "deliveries sound good w" "urls_inv w" and c: "callers w i = Some c" "caller_phase c = Ending f out"
  shows "deliveries sound good (finish_flight w i c f out)"
proof (cases "flights w f")
  case None
  with w(1) show ?thesis by (simp add: finish_flight_def)
next
  case (Some fl)
  let ?w = "finish_flight w i c f out"
  let ?good = "\<lambda>d. carried good (caller_url d) (caller_phase d)
    \<and> awaited good (flights ?w) (caller_url d) (caller_phase d)"
  have fs: "flights ?w = (flights w)(f \<mapsto> \<lparr> finished = True, outcome = out, wakers = [] \<rparr>)"
    and k: "world_cache ?w = world_cache w"
    by (simp_all add: finish_flight_def Some)
  have end_good: "good (caller_url c) (result_of r)" if "out = Some r" for r
    using deliveriesD(2) [OF w(1) c(1)] c(2) that by simp
  have "?good d" if d: "callers ?w j = Some d" for j d
  proof (cases "j = i")
    case True
    with d have "d = c\<lparr> caller_phase := (case out of Some r \<Rightarrow> Returned (result_of r) | None \<Rightarrow> Dropped) \<rparr>"
      by (simp add: finish_flight_def Some)
    then show ?thesis using end_good by (auto simp: awaited_def split: option.splits)
  next
    case False
    with d have "wake (wakers fl) f (callers w) j = Some d" by (simp add: finish_flight_def Some)
    from wake_phase [OF this] obtain e where e: "callers w j = Some e" "caller_url d = caller_url e"
      "waits (caller_phase d) = waits (caller_phase e)"
      "caller_phase d = caller_phase e \<or> waits (caller_phase e) = Some f" by metis
    have old: "carried good (caller_url e) (caller_phase e)" "awaited good (flights w) (caller_url e) (caller_phase e)"
      using w(1) e(1) by (auto simp: deliveries_def)
    have same: "caller_url e = caller_url c" if "waits (caller_phase e) = Some f"
      using w(2) c e(1) that unfolding urls_inv_def by force
    have "carried good (caller_url e) (caller_phase d)"
      using e(3,4) old(1) carried_waits by metis
    moreover have "awaited good (flights ?w) (caller_url e) (caller_phase d)"
      using old(2) e(3) same end_good by (auto simp: awaited_def fs)
    ultimately show ?thesis using e(2) by simp
  qed
  with w(1) show ?thesis by (simp add: deliveries_def k)
qed

text \<open>
  The contract: what is asked of the cache, and what of an answer the transport may give, for
  every caller's result to be good.
\<close>

locale answer_contract =
  fixes C :: "'t chrono" and serves :: serving and sound :: "cache \<Rightarrow> bool"
    and good :: "str \<Rightarrow> (key_answer, error) res \<Rightarrow> bool"
  assumes sound_empty: "sound empty_cache"
    and sound_flights: "sound k \<Longrightarrow> sound (k\<lparr> in_flight := es \<rparr>)"
    and sound_clear: "sound k \<Longrightarrow> sound (clear_cache k)"
    and held_good: "sound k \<Longrightarrow> cached_answer k url r = Some a \<Longrightarrow> good url (Ok a)"
    and answer_sound: "sound k \<Longrightarrow> serves url q \<Longrightarrow> fetch_outcome C now k url r q = Ok (out, k')
        \<Longrightarrow> sound k' \<and> good url (result_of out)"
begin

lemma acts_deliveries:
  assumes "acts C w a w'" "answered_by serves a" "flights_inv w" "waiters_inv w" "urls_inv w"
    and "deliveries sound good w"
  shows "deliveries sound good w'"
  using assms
proof (induction rule: acts.induct)
  case (enter w i url now)
  then show ?case by (auto simp: deliveries_def awaited_def)
next
  case (turn w i c)
  note inv = turn.prems(5)
  then have k: "sound (world_cache w)" by (simp add: deliveries_def)
  show ?case
  proof (cases "cached_answer (world_cache w) (caller_url c) (caller_recent c)")
    case None
    note miss = None
    show ?thesis
    proof (cases "in_flight (world_cache w) (caller_url c)")
      case None
      show ?thesis
        unfolding turn_def miss None option.case Let_def
        by (rule deliveries_set_phase [OF inv turn.hyps(1)])
          (use sound_flights [OF k] in \<open>auto simp: awaited_def split: if_splits\<close>)
    next
      case (Some f)
      with entry_flight [OF turn.prems(2,3)] have "\<exists>fl. flights w f = Some fl \<and> \<not> finished fl" by blast
      then have "awaited good (flights w) (caller_url c) (Waiting f)" by (auto simp: awaited_def)
      with miss Some k show ?thesis
        by (auto simp: turn_def intro!: deliveries_set_phase [OF inv turn.hyps(1)])
    qed
  next
    case (Some a)
    with held_good [OF k Some] k show ?thesis
      by (auto simp: turn_def awaited_def intro!: deliveries_set_phase [OF inv turn.hyps(1)])
  qed
next
  case (respond w i c f requested now)
  then have "sound (world_cache w)" by (simp add: deliveries_def)
  with respond answer_sound show ?case
    by (auto simp: respond_def awaited_def intro!: deliveries_set_phase [OF respond.prems(5) respond.hyps(1)]
        split: res.splits)
next
  case (cancel_lead w i c f)
  then show ?case
    by (intro deliveries_set_phase [OF cancel_lead.prems(5)]) (auto simp: awaited_def deliveries_def)
next
  case (unlist w i c f out)
  have "carried good (caller_url c) (Unlisting f out)" "sound (world_cache w)"
    using deliveriesD(1,2) [OF unlist.prems(5)] unlist.hyps by metis+
  then have "carried good (caller_url c) (Ending f out)" by (cases out) auto
  with \<open>sound (world_cache w)\<close> unlist show ?case
    unfolding unlist_def
    by (intro deliveries_set_phase [OF unlist.prems(5)]) (auto simp: awaited_def sound_flights)
next
  case (finish w i c f out)
  then show ?case by (intro deliveries_finish)
next
  case (poll w i c f)
  note inv = poll.prems(5)
  have k: "sound (world_cache w)" and aw: "awaited good (flights w) (caller_url c) (Waiting f)"
    using deliveriesD(1,3) [OF inv] poll.hyps by metis+
  show ?case
  proof (cases "flights w f")
    case None
    with inv show ?thesis by (simp add: poll_def)
  next
    case (Some fl)
    show ?thesis
    proof (cases "finished fl")
      case True
      have "carried good (caller_url c) (case outcome fl of Some r \<Rightarrow> Returned (result_of r) | None \<Rightarrow> Asking)"
        using aw Some True by (auto simp: awaited_def split: option.splits)
      with k Some True show ?thesis
        unfolding poll_def
        by (auto simp: awaited_def split: option.splits intro!: deliveries_set_phase [OF inv poll.hyps(1)])
    next
      case False
      with k Some show ?thesis
        by (auto simp: poll_def awaited_def split: if_splits intro!: deliveries_set_phase [OF inv poll.hyps(1)])
    qed
  qed
next
  case (again w i c f)
  have "sound (world_cache w)" "awaited good (flights w) (caller_url c) (Parked f)"
    using deliveriesD(1,3) [OF again.prems(5)] again.hyps by metis+
  with again show ?case
    by (intro deliveries_set_phase [OF again.prems(5)]) (auto simp: awaited_def)
next
  case (cancel_wait w i c f)
  then show ?case
    by (intro deliveries_set_phase [OF cancel_wait.prems(5)]) (auto simp: awaited_def deliveries_def)
next
  case (clear w)
  then show ?case by (auto simp: deliveries_def sound_clear)
qed

lemma reach_deliveries: "reach C (answered_by serves) w \<Longrightarrow> deliveries sound good w"
proof (induction rule: reach.induct)
  case start
  show ?case by (simp add: deliveries_def empty_world_def sound_empty)
next
  case (more w a w')
  then show ?case using acts_deliveries reach_inv by blast
qed

lemma result_good:
  "reach C (answered_by serves) w \<Longrightarrow> callers w i = Some c \<Longrightarrow> caller_phase c = Returned r
     \<Longrightarrow> good (caller_url c) r"
  using deliveriesD(2) [OF reach_deliveries] by fastforce

lemma cache_sound: "reach C (answered_by serves) w \<Longrightarrow> sound (world_cache w)"
  using reach_deliveries [of w] by (simp add: deliveries_def)

end

section \<open>Results are what was served\<close>

definition served_claim :: "serving \<Rightarrow> claim \<Rightarrow> bool" where
  "served_claim serves e \<longleftrightarrow>
     (\<exists>url pem s z now near. serves url (Ok (pem, s, z))
        \<and> e \<in> set (claims_of now (end_point_of url) (minute_of url) near pem s z))"

definition served_cache :: "serving \<Rightarrow> cache \<Rightarrow> bool" where
  "served_cache serves k \<longleftrightarrow> (\<exists>log. cache_run k log \<and> (\<forall>e \<in> set log. served_claim serves e))"

text \<open>
  A result for a URL was served there, or is a key its end point was served with, on both
  sides of the minute the URL asks about.
\<close>

fun served_result :: "serving \<Rightarrow> str \<Rightarrow> (key_answer, error) res \<Rightarrow> bool" where
  "served_result serves url (Ok a) =
     ((\<exists>pem s z. serves url (Ok (pem, s, z)) \<and> a = key_answer_stated pem s z)
      \<or> (\<exists>m e e'. minute_of url = Some m \<and> served_claim serves e \<and> served_claim serves e'
           \<and> claim_end_point e = end_point_of url \<and> claim_end_point e' = end_point_of url
           \<and> claim_pem e = answer_pem a \<and> claim_pem e' = answer_pem a
           \<and> claim_first e \<le> m \<and> m \<le> claim_last e'))"
| "served_result serves url (Err x) = (\<exists>y. serves url (Err y) \<and> x = into_error (failure_of y))"
| "served_result serves url Panic = False"

lemma served_cache_answer:
  assumes "served_cache serves k" "serves url (Ok (pem, s, z))"
    and "hold now k (end_point_of url) (minute_of url) r pem s z = Ok (a, k')"
  shows "served_cache serves k'"
proof -
  from assms(1) obtain log where log: "cache_run k log" "\<forall>e \<in> set log. served_claim serves e"
    by (auto simp: served_cache_def)
  have "served_claim serves e" if "e \<in> set (claims_of now (end_point_of url) (minute_of url) r pem s z)" for e
    unfolding served_claim_def using assms(2) that by blast
  with log(2) have "\<forall>e \<in> set (claims_of now (end_point_of url) (minute_of url) r pem s z @ log). served_claim serves e"
    by auto
  with cache_run.answer [OF log(1) assms(3)] show ?thesis unfolding served_cache_def by blast
qed

lemma served_cache_inv: "served_cache serves k \<Longrightarrow> cache_inv k"
  unfolding served_cache_def using cache_run_inv by blast

lemma hold_stated:
  assumes "cache_inv k" "hold now k p m r pem s z = Ok (a, k')"
  shows "a = key_answer_stated pem s z"
  using hold_inv [OF assms(1), of now p m r pem s z] assms(2) by auto

interpretation served: answer_contract C serves "served_cache serves" "served_result serves"
  for C :: "'t chrono" and serves
proof unfold_locales
  show "served_cache serves empty_cache"
    unfolding served_cache_def using cache_run.start by fastforce
next
  fix k es assume "served_cache serves k"
  then show "served_cache serves (k\<lparr> in_flight := es \<rparr>)"
    unfolding served_cache_def using cache_run.fetches by blast
next
  fix k assume "served_cache serves k"
  then show "served_cache serves (clear_cache k)"
    unfolding served_cache_def using cache_run.clear by blast
next
  fix k url r a
  assume k: "served_cache serves k" and a: "cached_answer k url r = Some a"
  from k obtain log where log: "cache_run k log" "\<forall>e \<in> set log. served_claim serves e"
    by (auto simp: served_cache_def)
  from a obtain m where m: "minute_of url = Some m" "held_for k (end_point_of url) m r = Some a"
    by (auto simp: cached_answer_def split: bind_splits)
  from held_for_backed [OF log(1) m(2)] obtain h where
    h: "backed log (end_point_of url) h" "held_covers h m" "a = held_stated h" .
  from backed_between [OF h(1,2)] log(2) m(1) show "served_result serves url (Ok a)"
    unfolding h(3) served_result.simps held_stated_pem by blast
next
  fix k url q now r out k'
  assume k: "served_cache serves k" and q: "serves url q"
    and f: "fetch_outcome C now k url r q = Ok (out, k')"
  show "served_cache serves k' \<and> served_result serves url (result_of out)"
  proof (cases q)
    case (Ok x)
    obtain pem s z where x: "x = (pem, s, z)" by (cases x)
    from f Ok x obtain a where a: "hold (now_minute C now) k (end_point_of url) (minute_of url) r pem s z = Ok (a, k')"
      "out = Inr a" by (auto simp: fetch_outcome_def bind_res_Ok_iff)
    with served_cache_answer [OF k _ a(1)] hold_stated [OF served_cache_inv [OF k] a(1)] q Ok x
    show ?thesis by auto
  qed (use k q f in \<open>auto simp: fetch_outcome_def\<close>)
qed

section \<open>Property\<close>


section \<open>Worked example\<close>

text \<open>The waiting caller of a leader whose request failed gets its failure.\<close>

definition failing :: serving where
  "failing url q \<longleftrightarrow> q = Err (Http [7])"

definition failed_world :: world where
  "failed_world = \<lparr> world_cache = empty_cache,
     flights = [0 \<mapsto> \<lparr> finished = True, outcome = Some (Inl (FetchHttp [7])), wakers = [] \<rparr>],
     callers = [0 \<mapsto> plain_caller (Returned (Err (Http [7]))), 1 \<mapsto> plain_caller (Returned (Err (Http [7])))],
     next_flight = 1 \<rparr>"

lemma reach_failed: "reach utc_seconds (answered_by failing) failed_world"
proof -
  let ?out = "Some (Inl (FetchHttp [7]))"
  let ?cs = "\<lambda>p q. [0 \<mapsto> plain_caller p, 1 \<mapsto> plain_caller q]"
  let ?w1 = "parked_world\<lparr> callers := ?cs (Unlisting 0 ?out) (Parked 0) \<rparr>"
  let ?w2 = "parked_world\<lparr> world_cache := empty_cache, callers := ?cs (Ending 0 ?out) (Parked 0) \<rparr>"
  let ?w3 = "failed_world\<lparr> callers := ?cs (Returned (Err (Http [7]))) (Waiting 0) \<rparr>"
  note defs = parked_world_def leading_world_def failed_world_def plain_caller_def set_phase_def fun_upd_twist
  have a1: "acts utc_seconds parked_world (Respond [] (Err (Http [7]))) ?w1"
    using acts.respond [of parked_world 0 "plain_caller (Leading 0)" 0 utc_seconds "Err (Http [7])" 0]
    by (simp add: defs respond_def fetch_outcome_def)
  have a2: "acts utc_seconds ?w1 Unlist ?w2"
    using acts.unlist [of ?w1 0 "plain_caller (Unlisting 0 ?out)" 0 ?out utc_seconds]
    by (simp add: defs unlist_def empty_cache_def)
  have a3: "acts utc_seconds ?w2 Finish ?w3"
  proof -
    have "wake [1] 0 (?cs (Ending 0 ?out) (Parked 0)) = ?cs (Ending 0 ?out) (Waiting 0)"
      by (auto simp: wake_def plain_caller_def fun_eq_iff)
    then have "finish_flight ?w2 0 (plain_caller (Ending 0 ?out)) 0 ?out = ?w3"
      by (simp add: finish_flight_def parked_world_def leading_world_def failed_world_def set_phase_def)
        (simp add: plain_caller_def fun_upd_twist)
    then show ?thesis
      using acts.finish [of ?w2 0 "plain_caller (Ending 0 ?out)" 0 ?out utc_seconds]
      by (simp add: plain_caller_def)
  qed
  have a4: "acts utc_seconds ?w3 Poll failed_world"
    using acts.poll [of ?w3 1 "plain_caller (Waiting 0)" 0 utc_seconds]
    by (simp add: defs poll_def)
  have "reach utc_seconds (answered_by failing) parked_world" by (rule reach_parked) simp_all
  from this a1 have "reach utc_seconds (answered_by failing) ?w1" by (rule reach.more) (simp add: failing_def)
  from this a2 have "reach utc_seconds (answered_by failing) ?w2" by (rule reach.more) simp
  from this a3 have "reach utc_seconds (answered_by failing) ?w3" by (rule reach.more) simp
  from this a4 show ?thesis by (rule reach.more) simp
qed


end
