(* ===== verification/Concurrent.thy ===== *)
theory Concurrent
  imports Hosted Answering
begin

text \<open>
  Callers of \<open>key_at_url\<close> that overlap (src/src/fetch.rs) and ask a creator that hosts a schedule
  (src/src/schedule.rs, src/src/endpoints.rs): the contract of shared fetches, on a transport
  that reaches the creator's end point or fails, and the cache agreeing with the schedule.
\<close>

section \<open>Definitions\<close>

text \<open>
  What requests are answered with: those for the end point \<open>p\<close> by the schedule of \<open>keys\<close>, with the
  date of their URL and at any moment from \<open>since\<close> on, or by a failure; those for other end
  points by anything.
\<close>

definition hosted_serving ::
    "('t :: linorder) chrono \<Rightarrow> ('sk, 'vk, 'sg) p256 \<Rightarrow> 't dated_public_key list \<Rightarrow> str \<Rightarrow> 't \<Rightarrow> serving" where
  "hosted_serving C E keys p since url q \<longleftrightarrow>
     (end_point_of url = p \<longrightarrow> (\<exists>e. q = Err e)
        \<or> (\<exists>format date later status body. since \<le> later
             \<and> (\<forall>m. minute_of url = Some m \<longrightarrow> date = Some (decimal (unat m)))
             \<and> public_key_response_at C E (schedule_new keys) format date later = Ok (status, body)
             \<and> q = request_public_key C E
                     (\<lambda>_. Ok \<lparr> response_status = status, response_body = body \<rparr>) url))"

text \<open>
  A result is right where its key is one of the schedule, and the one the schedule chooses at
  the minute of the URL where the end point can be asked no earlier than that.
\<close>

definition right_result ::
    "('t :: linorder) chrono \<Rightarrow> 't dated_public_key list \<Rightarrow> str \<Rightarrow> 't
     \<Rightarrow> str \<Rightarrow> (key_answer, error) res \<Rightarrow> bool" where
  "right_result C keys p since url r \<longleftrightarrow> r \<noteq> Panic
     \<and> (\<forall>a. end_point_of url = p \<longrightarrow> r = Ok a \<longrightarrow> answer_pem a \<in> dated_pem ` set keys
          \<and> (\<forall>m. minute_of url = Some m \<longrightarrow> minute_start C m \<le> since
               \<longrightarrow> (\<exists>k. chosen keys (minute_start C m) = Some k \<and> dated_pem k = answer_pem a)))"

section \<open>Lemmas\<close>

lemma asked_minute:
  assumes "dates_ok C" "asked_moment C (Some (decimal (unat (m :: u32)))) later = Ok (Some t)"
    and "minute_start C m \<le> later"
  shows "t = minute_start C m"
proof -
  obtain d where "add_minutes C (base_date C) (uint m) = Some d" by (rule moment_of_minutes [OF assms(1)])
  then show ?thesis
    using assms(2,3) by (auto simp: asked_moment_def minute_start_def min_def split: if_splits)
qed

lemma result_of_total: "result_of out \<noteq> Panic"
  by (cases out) simp_all

text \<open>One answer of the hosted end point: what it claims is honest, and its key is right.\<close>

lemma hosted_serving_Ok:
  assumes "dates_ok C" "dates_ordered C" "rfc3339_ok C whole"
    and "\<forall>k \<in> set keys. (\<exists>c. new_verify_only E (dated_pem k) = Ok c) \<and> whole (starts_at k)"
    and "\<forall>k \<in> set keys. \<exists>m. starts_at k = minute_start C m"
    and "hosted_serving C E keys p since url (Ok (pem, s, e))" "end_point_of url = p"
  shows "x \<in> set (claims_of now p minute near pem s e) \<Longrightarrow> honest C keys x"
    and "right_result C keys p since url (Ok (key_answer_stated pem s e))"
proof -
  from assms(6,7) obtain format date later status body where later: "since \<le> later"
      "\<forall>m. minute_of url = Some m \<longrightarrow> date = Some (decimal (unat m))"
    and answer: "public_key_response_at C E (schedule_new keys) format date later = Ok (status, body)"
      "request_public_key C E (\<lambda>_. Ok \<lparr> response_status = status, response_body = body \<rparr>) url = Ok (pem, s, e)"
    by (auto simp: hosted_serving_def)
  from hosted_answer [OF assms(1,3,4) answer] obtain t k where
    t: "asked_moment C date later = Ok (Some t)" "chosen keys t = Some k" "pem = dated_pem k"
      "s = minutes_since_base C (starts_at k)"
      "e = Option.bind (next_start_after (schedule_new keys) k) (minutes_since_base C)" by blast
  show "honest C keys x" if "x \<in> set (claims_of now p minute near pem s e)"
    using answered_claims_honest [OF assms(1,2,5) t(2,4,5)] that t(3) by simp
  have "t = minute_start C m" if "minute_of url = Some m" "minute_start C m \<le> since" for m
    using asked_minute [OF assms(1)] t(1) later that by (metis order_trans)
  moreover have "k \<in> set keys" using chosen_Some [OF t(2)] by blast
  ultimately show "right_result C keys p since url (Ok (key_answer_stated pem s e))"
    using t(2,3) by (auto simp: right_result_def)
qed

lemma hosted_contract:
  assumes "dates_ok C" "dates_ordered C" "rfc3339_ok C whole"
    and "\<forall>k \<in> set keys. (\<exists>c. new_verify_only E (dated_pem k) = Ok c) \<and> whole (starts_at k)"
    and "\<forall>k \<in> set keys. \<exists>m. starts_at k = minute_start C m" "distinct (map dated_pem keys)"
  shows "answer_contract C (hosted_serving C E keys p since) (honest_cache C keys p)
    (right_result C keys p since)"
proof unfold_locales
  fix k url r a
  assume k: "honest_cache C keys p k" and a: "cached_answer k url r = Some a"
  have "\<exists>x. chosen keys (minute_start C m) = Some x \<and> dated_pem x = answer_pem a \<and> x \<in> set keys"
    if "minute_of url = Some m" "end_point_of url = p" for m
    using honest_cache_serves [OF assms(1,2,6) k] a that chosen_Some by (fastforce simp: cached_answer_def)
  moreover obtain m where "minute_of url = Some m" using a by (auto simp: cached_answer_def split: bind_splits)
  ultimately show "right_result C keys p since url (Ok a)" by (force simp: right_result_def)
next
  fix k url q now r out k'
  assume k: "honest_cache C keys p k" and q: "hosted_serving C E keys p since url q"
    and f: "fetch_outcome C now k url r q = Ok (out, k')"
  show "honest_cache C keys p k' \<and> right_result C keys p since url (result_of out)"
  proof (cases q)
    case (Ok x)
    obtain pem s e where x: "x = (pem, s, e)" by (cases x)
    from f Ok x obtain a where
      a: "hold (now_minute C now) k (end_point_of url) (minute_of url) r pem s e = Ok (a, k')" "out = Inr a"
      by (auto simp: fetch_outcome_def bind_res_Ok_iff)
    have "cache_inv k" using k cache_run_inv by (auto simp: honest_cache_def)
    with a have st: "a = key_answer_stated pem s e" by (blast intro: hold_stated)
    note served = hosted_serving_Ok [OF assms(1-5) q [unfolded Ok x]]
    have "honest_cache C keys p k'"
      by (rule honest_cache_hold [OF k a(1)]) (use served(1) in blast)
    moreover have "right_result C keys p since url (Ok a)"
      using served(2) st by (cases "end_point_of url = p") (simp_all add: right_result_def)
    ultimately show ?thesis by (simp add: a(2))
  qed (use k f in \<open>auto simp: fetch_outcome_def right_result_def result_of_total\<close>)
qed (simp_all add: honest_cache_keeps)

section \<open>Property\<close>


section \<open>Worked example\<close>

text \<open>The end point [101] hosts the weekly schedule, and its first caller asks about minute 3.\<close>

lemma weekly_serving:
  "hosted_serving utc_seconds numbered weekly_keys [101] 1577837000 (key_url_at [101] 3)
     (Ok (lit ''9'', Some 1, Some 10))"
proof -
  have "decimal (unat (3 :: u32)) = lit ''3''" by (simp add: decimal.simps lit_def)
  then have "minute_of (key_url_at [101] 3) = Some m \<Longrightarrow> Some (lit ''3'') = Some (decimal (unat m))" for m
    by (simp add: key_url_at_read_back)
  with weekly_request show ?thesis
    unfolding hosted_serving_def by (metis order_refl)
qed


end
