(* ===== verification/Verify.thy ===== *)
theory Verify
  imports Sharing
begin

text \<open>
  Verifying an OWID with a key fetched from its creator (the \<open>Owid\<close> methods of
  src/src/fetch.rs). Where keys come from is an interface: a function of the URL and of the
  state of the process, which \<open>key_at_url\<close> provides. The client's lemmas are proved once for
  any source that does not panic.
\<close>

section \<open>Definitions\<close>

type_synonym 's source = "str \<Rightarrow> 's \<Rightarrow> (key_answer, error) res \<times> 's"

text \<open>The minutes just beyond the edges of the stated span that the OWID's minute is near.\<close>

definition beyond :: "u32 \<Rightarrow> key_answer \<Rightarrow> u32 list" where
  "beyond minute tried =
     (if answer_first tried > 0 \<and> near_edge minute (answer_first tried) then [answer_first tried - 1] else [])
     @ (if answer_last tried < u32_max \<and> near_edge minute (answer_last tried) then [answer_last tried + 1] else [])"

text \<open>The loop over them.\<close>

fun try_neighbours ::
    "'t chrono \<Rightarrow> platform \<Rightarrow> ('sk, 'vk, 'sg) p256 \<Rightarrow> 's source \<Rightarrow> 't owid \<Rightarrow> str \<Rightarrow> key_answer
     \<Rightarrow> u32 list \<Rightarrow> 's \<Rightarrow> (bool, error) res \<times> 's" where
  "try_neighbours C P E ask w end_point tried [] s = (Ok False, s)"
| "try_neighbours C P E ask w end_point tried (m # ms) s =
     (case ask (key_url_at end_point m) s of
        (Panic, s) \<Rightarrow> (Panic, s)
      | (Err _, s) \<Rightarrow> try_neighbours C P E ask w end_point tried ms s
      | (Ok neighbour, s) \<Rightarrow>
          if answer_pem neighbour = answer_pem tried
          then try_neighbours C P E ask w end_point tried ms s
          else (case verify_with_public_key C P E w (answer_pem neighbour) of
                  Ok True \<Rightarrow> (Ok True, s)
                | Panic \<Rightarrow> (Panic, s)
                | _ \<Rightarrow> try_neighbours C P E ask w end_point tried ms s))"

definition neighbour_verifies ::
    "'t chrono \<Rightarrow> platform \<Rightarrow> ('sk, 'vk, 'sg) p256 \<Rightarrow> 's source \<Rightarrow> 't owid \<Rightarrow> str \<Rightarrow> u32 \<Rightarrow> key_answer
     \<Rightarrow> 's \<Rightarrow> (bool, error) res \<times> 's" where
  "neighbour_verifies C P E ask w url minute tried s =
     (if \<not> known tried then (Ok False, s)
      else try_neighbours C P E ask w (end_point_of url) tried (beyond minute tried) s)"

definition not_in_force :: error where
  "not_in_force = Http (lit ''the creator states that the key it answered with was not in force at the OWID''
     @ [39] @ lit ''s date, so the signature could not be checked'')"

definition verify_at_url ::
    "'t chrono \<Rightarrow> platform \<Rightarrow> ('sk, 'vk, 'sg) p256 \<Rightarrow> 's source \<Rightarrow> 't owid \<Rightarrow> str
     \<Rightarrow> 's \<Rightarrow> (bool, error) res \<times> 's" where
  "verify_at_url C P E ask w url s =
     (case ask url s of
        (Err e, s) \<Rightarrow> (Err e, s)
      | (Panic, s) \<Rightarrow> (Panic, s)
      | (Ok answer, s) \<Rightarrow>
          (case verify_with_public_key C P E w (answer_pem answer) of
             Err e \<Rightarrow> (Err e, s)
           | Panic \<Rightarrow> (Panic, s)
           | Ok True \<Rightarrow> (Ok True, s)
           | Ok False \<Rightarrow>
               (case minutes_since_base C (owid_date w) of
                  None \<Rightarrow> (Ok False, s)
                | Some minute \<Rightarrow>
                    (case neighbour_verifies C P E ask w url minute answer s of
                       (Ok True, s) \<Rightarrow> (Ok True, s)
                     | (Ok False, s) \<Rightarrow>
                         if known answer \<and> \<not> answer_covers answer minute then (Err not_in_force, s)
                         else (Ok False, s)
                     | z \<Rightarrow> z))))"

definition verify ::
    "'t chrono \<Rightarrow> platform \<Rightarrow> ('sk, 'vk, 'sg) p256 \<Rightarrow> 's source \<Rightarrow> 't owid \<Rightarrow> str
     \<Rightarrow> 's \<Rightarrow> (bool, error) res \<times> 's" where
  "verify C P E ask w scheme s = verify_at_url C P E ask w (public_key_url C w scheme) s"

definition verify_status ::
    "'t chrono \<Rightarrow> platform \<Rightarrow> ('sk, 'vk, 'sg) p256 \<Rightarrow> 's source \<Rightarrow> 't owid \<Rightarrow> str
     \<Rightarrow> 's \<Rightarrow> signature_status option \<times> 's" where
  "verify_status C P E ask w scheme s =
     (let (r, s) = verify C P E ask w scheme s in (signature_status_of r, s))"

section \<open>Any source of keys\<close>

lemma verify_with_public_key_total: "verify_with_public_key C P E w pem \<noteq> Panic"
  by (auto simp: verify_with_public_key_def verify_with_crypto_def verify_byte_array_def
      new_verify_only_def bind_res_Panic_iff signed_bytes_total split: if_splits option.splits)

lemma try_no_error: "try_neighbours C P E ask w p tried ms s \<noteq> (Err e, s')"
  by (induction ms arbitrary: s) (auto split: prod.splits res.splits bool.splits)

locale key_source =
  fixes ask :: "'s source"
  assumes ask_total: "fst (ask url s) \<noteq> Panic"
begin

lemma try_total: "fst (try_neighbours C P E ask w p tried ms s) \<noteq> Panic"
  using ask_total
  by (induction ms arbitrary: s)
    (auto simp: verify_with_public_key_total split: prod.splits res.splits bool.splits, (metis fst_conv)+)

text \<open>A neighbour that verifies is a key the source answered with for one of the minutes.\<close>

lemma try_True:
  "try_neighbours C P E ask w p tried ms s = (Ok True, s') \<Longrightarrow>
     \<exists>m \<in> set ms. \<exists>s0 s1 a. ask (key_url_at p m) s0 = (Ok a, s1)
       \<and> verify_with_public_key C P E w (answer_pem a) = Ok True"
proof (induction ms arbitrary: s)
  case (Cons m ms)
  obtain r s1 where r: "ask (key_url_at p m) s = (r, s1)" by fastforce
  show ?case
  proof (cases r)
    case (Ok a)
    show ?thesis
    proof (cases "answer_pem a \<noteq> answer_pem tried
        \<and> verify_with_public_key C P E w (answer_pem a) = Ok True")
      case True
      with Ok r show ?thesis by (intro bexI [of _ m]) auto
    next
      case False
      with Ok r Cons.prems have "try_neighbours C P E ask w p tried ms s1 = (Ok True, s')"
        by (auto split: if_splits res.splits bool.splits)
      from Cons.IH [OF this] show ?thesis by auto
    qed
  next
    case (Err e)
    with r Cons have "\<exists>m \<in> set ms. \<exists>s0 s1 a. ask (key_url_at p m) s0 = (Ok a, s1)
       \<and> verify_with_public_key C P E w (answer_pem a) = Ok True" by auto
    then show ?thesis by auto
  next
    case Panic
    with r Cons.prems show ?thesis by simp
  qed
qed simp

text \<open>A minute whose key verifies is enough, whatever is answered for the others.\<close>

lemma try_finds:
  assumes "m \<in> set ms" "\<And>s. fst (ask (key_url_at p m) s) = Ok n"
    and "answer_pem n \<noteq> answer_pem tried" "verify_with_public_key C P E w (answer_pem n) = Ok True"
  shows "fst (try_neighbours C P E ask w p tried ms s) = Ok True"
  using assms(1)
proof (induction ms arbitrary: s)
  case (Cons x ms)
  obtain r s' where r: "ask (key_url_at p x) s = (r, s')" by fastforce
  show ?case
  proof (cases "x = m")
    case True
    then have "r = Ok n" using r assms(2) [of s] by simp
    with r assms(3,4) show ?thesis by simp
  next
    case False
    with Cons have IH: "fst (try_neighbours C P E ask w p tried ms s') = Ok True" by simp
    have "r \<noteq> Panic" using ask_total [of "key_url_at p x" s] r by simp
    with IH r show ?thesis
      by (cases r) (auto simp: verify_with_public_key_total split: res.splits bool.splits)
  qed
qed simp

lemma neighbour_total:
  "\<exists>b s'. neighbour_verifies C P E ask w url minute tried s = (Ok b, s')"
proof -
  let ?z = "try_neighbours C P E ask w (end_point_of url) tried (beyond minute tried) s"
  have "fst ?z \<noteq> Panic" by (rule try_total)
  moreover have "fst ?z \<noteq> Err e" for e using try_no_error by (metis prod.collapse)
  ultimately obtain b where "fst ?z = Ok b" by (cases "fst ?z") auto
  then have "?z = (Ok b, snd ?z)" by (metis prod.collapse)
  then show ?thesis by (auto simp: neighbour_verifies_def)
qed

lemma verify_total: "fst (verify_at_url C P E ask w url s) \<noteq> Panic"
proof -
  obtain r s1 where r: "ask url s = (r, s1)" by fastforce
  with ask_total [of url s] have "r \<noteq> Panic" by simp
  moreover have "fst (verify_at_url C P E ask w url s) \<noteq> Panic" if "r = Ok a" for a
  proof (cases "minutes_since_base C (owid_date w)")
    case None
    then show ?thesis
      using r that by (auto simp: verify_at_url_def verify_with_public_key_total
          split: res.splits bool.splits)
  next
    case (Some m)
    obtain b s2 where "neighbour_verifies C P E ask w url m a s1 = (Ok b, s2)"
      using neighbour_total by blast
    with Some show ?thesis
      using r that by (auto simp: verify_at_url_def verify_with_public_key_total
          split: res.splits bool.splits)
  qed
  moreover have "fst (verify_at_url C P E ask w url s) \<noteq> Panic" if "r = Err e" for e
    using r that by (simp add: verify_at_url_def)
  ultimately show ?thesis by (cases r) blast+
qed

end

text \<open>A transport that does not panic makes \<open>key_at_url\<close> such a source.\<close>

locale quiet_transport =
  fixes fetch :: transport
  assumes fetch_total: "fetch url \<noteq> Panic"

lemma hold_total: "hold now c p minute r pem s e \<noteq> Panic" "hold now c p minute r pem s e \<noteq> Err x"
  by (rule hold_cases [of now c p minute r pem s e]; simp)+

lemma key_at_url_total:
  assumes "\<forall>u. fetch u \<noteq> Panic"
  shows "fst (key_at_url C E fetch now url c) \<noteq> Panic"
proof -
  have "fetch_outcome C now c url r (request_public_key C E fetch url) \<noteq> Panic" for r
    using request_total [OF assms, of C E url] hold_total(1)
    by (auto simp: fetch_outcome_def bind_res_Panic_iff split: res.splits)
  moreover have "fetch_outcome C now c url r q \<noteq> Err e" for r q e
    using hold_total(2) by (auto simp: fetch_outcome_def bind_res_Err_iff split: res.splits)
  ultimately show ?thesis
    by (auto simp: key_at_url_def split: option.splits res.splits sum.splits)
qed

sublocale quiet_transport \<subseteq> source: key_source "key_at_url C E fetch now"
  for C :: "('t :: linorder) chrono" and E :: "('sk, 'vk, 'sg) p256" and now
  using fetch_total by unfold_locales (simp add: key_at_url_total)

end
