(* ===== verification/Remote.thy ===== *)
theory Remote
  imports Verify
begin

text \<open>
  Properties of verification with a fetched key (the \<open>Owid\<close> methods of src/src/fetch.rs): what
  each outcome rests on, how many requests it can cost, the tolerance of clock drift at the
  edges of a key's span, and the path from a creator with a rotating schedule to a verifier.
\<close>

section \<open>Lemmas\<close>

text \<open>A source that records the URLs it is asked.\<close>

definition recording :: "'s source \<Rightarrow> ('s \<times> str list) source" where
  "recording ask u s = (let (r, s') = ask u (fst s) in (r, s', snd s @ [u]))"

lemma try_neighbours_log:
  "\<exists>us. snd (snd (try_neighbours C P E (recording ask) w p tried ms (s, log))) = log @ us
     \<and> length us \<le> length ms \<and> set us \<subseteq> key_url_at p ` set ms"
proof (induction ms arbitrary: s log)
  case (Cons m ms)
  let ?u = "key_url_at p m"
  obtain r s' where r: "ask ?u s = (r, s')" by fastforce
  have rec: "recording ask ?u (s, log) = (r, s', log @ [?u])" by (simp add: recording_def r)
  have stop: ?case if "snd (snd (try_neighbours C P E (recording ask) w p tried (m # ms) (s, log))) = log @ [?u]"
    using that by (intro exI [of _ "[?u]"]) simp
  have go: ?case if "try_neighbours C P E (recording ask) w p tried (m # ms) (s, log)
      = try_neighbours C P E (recording ask) w p tried ms (s', log @ [?u])"
  proof -
    from Cons.IH [of s' "log @ [?u]"] obtain us where
      "snd (snd (try_neighbours C P E (recording ask) w p tried ms (s', log @ [?u]))) = (log @ [?u]) @ us"
      "length us \<le> length ms" "set us \<subseteq> key_url_at p ` set ms" by blast
    then show ?thesis unfolding that by (intro exI [of _ "?u # us"]) auto
  qed
  show ?case
  proof (cases r)
    case (Ok a)
    show ?thesis
    proof (cases "answer_pem a = answer_pem tried")
      case False
      with Ok rec stop go show ?thesis
        by (cases "verify_with_public_key C P E w (answer_pem a)") (auto split: bool.splits)
    qed (use Ok rec go in simp)
  qed (use rec stop go in simp_all)
qed simp

lemma length_beyond: "length (beyond m a) \<le> 2"
  by (simp add: beyond_def)


section \<open>Properties\<close>




section \<open>Worked examples\<close>

text \<open>A creator whose key 9 was in force to minute 4 and whose key 8 is from minute 5, asked
  about an OWID that key 9 signed.\<close>

definition two_keys :: "unit source" where
  "two_keys u s =
     (case minute_of u of
        Some m \<Rightarrow> if m < 5 then (Ok (key_answer_known (lit ''9'') 0 4), s)
                   else (Ok (key_answer_known (lit ''8'') 5 20), s)
      | None \<Rightarrow> (Err (Http []), s))"

definition late_owid :: "int owid" where
  "late_owid = from_parts Version3 (lit ''a.b'') (1577836800 + 60 * 6) [1, 2]
     (numbered_sign 9 [3, 97, 46, 98, 0, 6, 0, 0, 0, 2, 0, 0, 0, 1, 2])"

lemma late_owid_signed:
  "signed_bytes utc_seconds target64 late_owid = Ok [3, 97, 46, 98, 0, 6, 0, 0, 0, 2, 0, 0, 0, 1, 2]"
proof -
  have "writable utc_seconds late_owid" "fields_length late_owid = 15"
    by (simp_all add: late_owid_def from_parts_def writable_def utc_seconds_def base_date_def
        quot_def fields_length_def)
  moreover have "enc_fields utc_seconds late_owid = [3, 97, 46, 98, 0, 6, 0, 0, 0, 2, 0, 0, 0, 1, 2]"
    by (simp add: late_owid_def from_parts_def enc_fields_def enc_domain_def to_le_bytes_def
        utc_seconds_def base_date_def quot_def)
  ultimately show ?thesis by (simp add: signed_bytes_result target64_def)
qed

lemma late_owid_keys:
  "verify_with_public_key utc_seconds target64 numbered late_owid (lit ''9'') = Ok True"
  "verify_with_public_key utc_seconds target64 numbered late_owid (lit ''8'') = Ok False"
proof -
  have k: "new_verify_only numbered (lit ''9'') = Ok \<lparr> signing_key = None, verifying_key = Some 9 \<rparr>"
    "new_verify_only numbered (lit ''8'') = Ok \<lparr> signing_key = None, verifying_key = Some 8 \<rparr>"
    by (simp_all add: new_verify_only_def numbered_def read_number_def parse_u32_def
        from_str_radix_def lit_def to_digit_def is_whitespace_def)
  have d: "to_le_bytes 9 \<noteq> to_le_bytes 8"
    by (simp add: to_le_bytes_def)
  show "verify_with_public_key utc_seconds target64 numbered late_owid (lit ''9'') = Ok True"
    by (simp add: verify_with_public_key_def k verify_with_crypto_def late_owid_signed
        verify_byte_array_def) (simp add: late_owid_def from_parts_def numbered_def SIGNATURE_LENGTH_def numbered_sign_def)
  show "verify_with_public_key utc_seconds target64 numbered late_owid (lit ''8'') = Ok False"
    using d by (simp add: verify_with_public_key_def k verify_with_crypto_def late_owid_signed
        verify_byte_array_def) (simp add: late_owid_def from_parts_def numbered_def SIGNATURE_LENGTH_def numbered_sign_def)
qed

definition late_url :: str where
  "late_url = public_key_url utc_seconds late_owid (lit ''https'')"

lemma late_owid_minute: "minutes_since_base utc_seconds (owid_date late_owid) = Some 6"
  by (simp add: late_owid_def from_parts_def minutes_since_base_def utc_seconds_def
      base_date_def quot_def u32_try_from_def)

lemma late_url_parts:
  "minute_of late_url = Some 6" "minute_of (key_url_at (end_point_of late_url) m) = Some m"
proof -
  have q: "63 \<notin> set (key_end_point late_owid (lit ''https''))"
    by (rule key_end_point_no_query) (simp_all add: late_owid_def from_parts_def lit_def)
  then show "minute_of late_url = Some 6" "minute_of (key_url_at (end_point_of late_url) m) = Some m"
    by (simp_all add: late_url_def public_key_url_def late_owid_minute key_url_at_read_back)
qed

lemma two_keys_total: "\<forall>u s. fst (two_keys u s) \<noteq> Panic"
  by (simp add: two_keys_def split: option.splits)

lemma two_keys_late: "two_keys late_url () = (Ok (key_answer_known (lit ''8'') 5 20), ())"
  by (simp add: two_keys_def late_url_parts)




end
