(* ===== verification/StandIn.thy ===== *)
theory StandIn
  imports Remote
begin

text \<open>
  The stand in key end point that the tests of src/src/fetch.rs answer requests with, and its
  agreement with the end point of src/src/endpoints.rs. It is a transport with no network, so
  it also provides the transports of the worked examples.
\<close>

section \<open>Definitions\<close>

record 't scheduled_key =
  scheduled_start :: 't
  scheduled_pem :: str

definition stand_in_key_in_force ::
    "('t :: linorder) scheduled_key list \<Rightarrow> 't \<Rightarrow> 't scheduled_key option" where
  "stand_in_key_in_force schedule date =
     List.find (\<lambda>key. scheduled_start key \<le> date) (rev schedule)"

definition query_value :: "str \<Rightarrow> str \<Rightarrow> str option" where
  "query_value target name =
     (case split_once 63 target of
        None \<Rightarrow> None
      | Some (_, query) \<Rightarrow> find_map (strip_prefix (name @ lit ''='')) (split_at 38 query))"

datatype span = SpanStated | SpanNone | SpanPemOnly

definition next_start ::
    "('t :: linorder) scheduled_key list \<Rightarrow> 't scheduled_key \<Rightarrow> 't option" where
  "next_start schedule key =
     iter_min (map scheduled_start (filter (\<lambda>other. scheduled_start other > scheduled_start key) schedule))"

text \<open>\<open>parse::<i64>\<close>: one sign, then digits, in the range of the type.\<close>

fun digits_value :: "str \<Rightarrow> int \<Rightarrow> int option" where
  "digits_value [] acc = Some acc"
| "digits_value (c # cs) acc =
     (if 48 \<le> c \<and> c \<le> 57 then digits_value cs (10 * acc + int (c - 48)) else None)"

definition parse_i64 :: "str \<Rightarrow> int option" where
  "parse_i64 s =
     (let negative = (s \<noteq> [] \<and> hd s = 45);
          digits = (if s \<noteq> [] \<and> (hd s = 45 \<or> hd s = 43) then tl s else s)
      in if digits = [] then None
         else case digits_value digits 0 of
           None \<Rightarrow> None
         | Some v \<Rightarrow>
             let v = (if negative then - v else v) in
             if - (2 ^ 63) \<le> v \<and> v < 2 ^ 63 then Some v else None)"

text \<open>The moment asked about: a date that is not a number is \<open>None\<close>.\<close>

definition stand_in_asked :: "('t :: linorder) chrono \<Rightarrow> 't \<Rightarrow> str \<Rightarrow> ('t option, error) res" where
  "stand_in_asked C request_moment target =
     (case query_value target (lit ''date'') of
        None \<Rightarrow> Ok (Some request_moment)
      | Some minutes \<Rightarrow>
          (case parse_i64 minutes of
             None \<Rightarrow> Ok None
           | Some minutes \<Rightarrow>
               (case add_minutes C (base_date C) minutes of
                  None \<Rightarrow> Panic
                | Some d \<Rightarrow> Ok (Some (min d request_moment)))))"

definition end_point_answer ::
    "('t :: linorder) chrono \<Rightarrow> ('sk, 'vk, 'sg) p256 \<Rightarrow> 't \<Rightarrow> 't scheduled_key list \<Rightarrow> str \<Rightarrow> span
     \<Rightarrow> (fetch_response, error) res" where
  "end_point_answer C E request_moment schedule target sp =
     bind_res (stand_in_asked C request_moment target) (\<lambda>asked.
     Ok (case (asked, Option.bind asked (stand_in_key_in_force schedule)) of
           (None, _) \<Rightarrow> \<lparr> response_status = 400, response_body = [] \<rparr>
         | (Some asked, Some key) \<Rightarrow>
             (case sp of
                SpanPemOnly \<Rightarrow> \<lparr> response_status = 200, response_body = scheduled_pem key \<rparr>
              | SpanNone \<Rightarrow>
                  \<lparr> response_status = 200,
                    response_body = to_json C (published_answer_new (scheduled_pem key) None None) \<rparr>
              | SpanStated \<Rightarrow>
                  let answer = published_answer_new (scheduled_pem key) (Some (scheduled_start key))
                                 (next_start schedule key) in
                  (case validate E answer (Some asked) of
                     Ok _ \<Rightarrow> \<lparr> response_status = 200, response_body = to_json C answer \<rparr>
                   | _ \<Rightarrow> \<lparr> response_status = 500, response_body = [] \<rparr>))
         | (Some _, None) \<Rightarrow> \<lparr> response_status = 404, response_body = [] \<rparr>))"

definition stand_in_transport ::
    "('t :: linorder) chrono \<Rightarrow> ('sk, 'vk, 'sg) p256 \<Rightarrow> 't \<Rightarrow> 't scheduled_key list \<Rightarrow> span \<Rightarrow> transport" where
  "stand_in_transport C E request_moment schedule sp url =
     end_point_answer C E request_moment schedule url sp"

section \<open>Lemmas\<close>

lemma digits_value_append:
  "digits_value (xs @ ys) acc = Option.bind (digits_value xs acc) (digits_value ys)"
  by (induction xs arbitrary: acc) auto

lemma digits_value_decimal: "digits_value (decimal n) 0 = Some (int n)"
proof (induction n rule: decimal.induct)
  case (1 n)
  show ?case
  proof (cases "n < 10")
    case True
    then show ?thesis by (subst decimal.simps) simp
  next
    case False
    with 1 have "digits_value (decimal (n div 10)) 0 = Some (int (n div 10))" by blast
    moreover from False have "decimal n = decimal (n div 10) @ [48 + n mod 10]"
      by (simp only: decimal.simps [of n] if_False)
    moreover have "10 * int (n div 10) + int (n mod 10) = int n"
      by (metis mult_div_mod_eq of_nat_add of_nat_mult of_nat_numeral)
    ultimately show ?thesis by (simp add: digits_value_append del: decimal.simps)
  qed
qed

lemma parse_i64_decimal: "parse_i64 (decimal (unat (m :: u32))) = Some (uint m)"
proof -
  obtain c cs where d: "decimal (unat m) = c # cs" by (cases "decimal (unat m)") auto
  with decimal_digits [of "unat m"] have "c \<noteq> 45" "c \<noteq> 43" by auto
  moreover have "- (2 ^ 63) \<le> uint m" by (rule order_trans [of _ 0]) simp_all
  ultimately show ?thesis
    using digits_value_decimal [of "unat m"] uint_lt2p [of m]
    by (simp add: parse_i64_def Let_def d del: digits_value.simps)
qed

lemma query_value_date:
  "63 \<notin> set p \<Longrightarrow> query_value (key_url_at p m) (lit ''date'') = Some (decimal (unat m))"
  using find_date [of "decimal (unat m)" FORMAT_QUERY]
  by (simp add: query_value_def key_url_at_shape split_once_url decimal_no_char) (simp add: lit_def)

definition dated_of :: "'t scheduled_key \<Rightarrow> 't dated_public_key" where
  "dated_of k = dated_public_key_new (scheduled_start k) (scheduled_pem k)"

lemma dated_of_simps [simp]: "starts_at (dated_of k) = scheduled_start k" "dated_pem (dated_of k) = scheduled_pem k"
  by (simp_all add: dated_of_def dated_public_key_new_def)

lemma next_start_eq: "next_start_after (schedule_new (map dated_of ks)) (dated_of k) = next_start ks k"
proof -
  have "starts_at ` {x \<in> dated_of ` set ks. scheduled_start k < starts_at x}
      = scheduled_start ` {x \<in> set ks. scheduled_start k < scheduled_start x}" by force
  then show ?thesis
    by (simp add: next_start_after_def schedule_new_def next_start_def iter_min_eq filter_empty_conv
        del: sort_key_simps)
qed

text \<open>With starts that ascend, the last key that had started is the first of the latest.\<close>

lemma key_in_force_eq:
  assumes "sorted_wrt (<) (map scheduled_start ks)"
  shows "chosen (map dated_of ks) t = map_option dated_of (stand_in_key_in_force ks t)"
proof (cases "stand_in_key_in_force ks t")
  case None
  then have "\<forall>k \<in> set (map dated_of ks). t < starts_at k"
    by (auto simp: stand_in_key_in_force_def find_None_iff not_le)
  with None show ?thesis by (simp add: chosen_None [THEN iffD2])
next
  case (Some k)
  then obtain j where j: "j < length ks" "rev ks ! j = k" "scheduled_start k \<le> t"
    and before: "\<forall>i < j. \<not> scheduled_start (rev ks ! i) \<le> t"
    by (auto simp: stand_in_key_in_force_def find_Some_iff)
  define i where "i = length ks - Suc j"
  have i: "i < length ks" "ks ! i = k" using j by (simp_all add: i_def rev_nth)
  have "scheduled_start (ks ! a) < scheduled_start k" if "a < i" for a
    using sorted_wrt_nth_less [OF assms, of a i] that i by simp
  moreover have "\<not> scheduled_start (ks ! a) \<le> t" if "i < a" "a < length ks" for a
  proof -
    have "length ks - Suc a < j" using that by (simp add: i_def)
    with before have "\<not> scheduled_start (rev ks ! (length ks - Suc a)) \<le> t" by blast
    then show ?thesis using that by (simp add: rev_nth)
  qed
  ultimately have "\<forall>a < length ks. scheduled_start (ks ! a) \<le> t \<longrightarrow>
      scheduled_start (ks ! a) \<le> scheduled_start k \<and> (scheduled_start (ks ! a) = scheduled_start k \<longrightarrow> i \<le> a)"
    using i(2) by (metis leI less_imp_le nat_neq_iff order.refl order.irrefl)
  then have "chosen (map dated_of ks) t = Some (dated_of k)"
    unfolding chosen_Some_iff using i j(3) by (intro exI [of _ i]) simp
  with Some show ?thesis by simp
qed

lemma stand_in_asked_eq:
  "63 \<notin> set p \<Longrightarrow>
     stand_in_asked C now (key_url_at p m) = asked_moment C (Some (decimal (unat m))) now"
  by (simp add: stand_in_asked_def query_value_date parse_i64_decimal asked_moment_def)

section \<open>Properties\<close>

text \<open>The stand in that the tests ask is the end point a creator hosts: for a schedule of
  readable keys whose starts ascend, and a request for a minute, it answers what
  \<open>public_key_response_at\<close> answers for that minute, status and body.\<close>

theorem stand_in_is_the_end_point:
  assumes "63 \<notin> set p" "sorted_wrt (<) (map scheduled_start ks)"
    and "\<forall>k \<in> set ks. \<exists>c. new_verify_only E (scheduled_pem k) = Ok c"
  shows "end_point_answer C E now ks (key_url_at p m) SpanStated
    = (case public_key_response_at C E (schedule_new (map dated_of ks)) (Some SPKI_FORMAT)
          (Some (decimal (unat m))) now of
        Ok (status, body) \<Rightarrow> Ok \<lparr> response_status = status, response_body = body \<rparr>
      | Err e \<Rightarrow> Err e | Panic \<Rightarrow> Panic)"
proof (cases "asked_moment C (Some (decimal (unat m))) now")
  case (Ok asked)
  note asked = stand_in_asked_eq [OF assms(1), of C now m]
  show ?thesis
  proof (cases asked)
    case None
    then show ?thesis
      by (simp add: end_point_answer_def asked Ok public_key_response_at_def serves_format_def)
  next
    case (Some t)
    show ?thesis
    proof (cases "stand_in_key_in_force ks t")
      case None
      then show ?thesis
        by (simp add: end_point_answer_def asked Ok Some public_key_response_at_def serves_format_def
            key_in_force_chosen key_in_force_eq [OF assms(2)])
    next
      case key: (Some k)
      then have "k \<in> set ks" by (auto simp: stand_in_key_in_force_def find_Some_iff rev_nth)
      then have "\<exists>c. new_verify_only E (dated_pem (dated_of k)) = Ok c" using assms(3) by simp
      moreover have "chosen (map dated_of ks) t = Some (dated_of k)"
        by (simp add: key_in_force_eq [OF assms(2)] key)
      ultimately have "validate E (published_answer_new (scheduled_pem k) (Some (scheduled_start k))
          (next_start ks k)) (Some t) = Ok ()"
        using validate_in_force [of "map dated_of ks" t "dated_of k" E] by (simp add: next_start_eq)
      then show ?thesis
        by (simp add: end_point_answer_def asked Ok Some key public_key_response_at_def
            serves_format_def key_in_force_chosen key_in_force_eq [OF assms(2)] public_key_answer_def
            next_start_eq Let_def)
    qed
  qed
qed (use assms(1) in \<open>simp_all add: end_point_answer_def stand_in_asked_eq public_key_response_at_def serves_format_def\<close>)

definition weekly_stand_in :: "int scheduled_key list" where
  "weekly_stand_in = [\<lparr> scheduled_start = 1577836860, scheduled_pem = lit ''9'' \<rparr>,
     \<lparr> scheduled_start = 1577837400, scheduled_pem = lit ''8'' \<rparr>]"

theorem stand_in_is_the_end_point_witness:
  "\<exists>status body.
     public_key_response_at utc_seconds numbered (schedule_new weekly_keys) (Some SPKI_FORMAT)
       (Some (decimal (unat (5 :: u32)))) 1577837500 = Ok (status, body)
     \<and> end_point_answer utc_seconds numbered 1577837500 weekly_stand_in
       (key_url_at (lit ''a.b'') 5) SpanStated = Ok \<lparr> response_status = status, response_body = body \<rparr>"
proof -
  have ks: "map dated_of weekly_stand_in = weekly_keys"
    by (simp add: weekly_stand_in_def weekly_keys_def dated_of_def)
  have p: "63 \<notin> set (lit ''a.b'')" by (simp add: lit_def)
  have q: "sorted_wrt (<) (map scheduled_start weekly_stand_in)"
    by (simp add: weekly_stand_in_def)
  have r: "\<forall>k \<in> set weekly_stand_in. \<exists>c. new_verify_only numbered (scheduled_pem k) = Ok c"
    using numbered_readable by (simp add: weekly_stand_in_def)
  have eq: "end_point_answer utc_seconds numbered 1577837500 weekly_stand_in
      (key_url_at (lit ''a.b'') 5) SpanStated
    = (case public_key_response_at utc_seconds numbered (schedule_new weekly_keys) (Some SPKI_FORMAT)
          (Some (decimal (unat (5 :: u32)))) 1577837500 of
        Ok (status, body) \<Rightarrow> Ok \<lparr> response_status = status, response_body = body \<rparr>
      | Err e \<Rightarrow> Err e | Panic \<Rightarrow> Panic)"
    by (rule stand_in_is_the_end_point [OF p q r, unfolded ks])
  have "end_point_answer utc_seconds numbered 1577837500 weekly_stand_in
      (key_url_at (lit ''a.b'') 5) SpanStated \<noteq> Panic"
    by (auto simp: end_point_answer_def stand_in_asked_def bind_res_Panic_iff utc_seconds_def
        split: option.splits)
  moreover have "end_point_answer utc_seconds numbered 1577837500 weekly_stand_in
      (key_url_at (lit ''a.b'') 5) SpanStated \<noteq> Err e" for e
    by (auto simp: end_point_answer_def stand_in_asked_def bind_res_Err_iff utc_seconds_def
        split: option.splits)
  ultimately show ?thesis unfolding eq by (auto split: res.splits)
qed

text \<open>The stand in never panics on a calendar that has every date, so it is a transport.\<close>

interpretation stand_in: quiet_transport "stand_in_transport utc_seconds E request_moment schedule sp"
  for E :: "('sk, 'vk, 'sg) p256" and request_moment schedule sp
  by unfold_locales
    (auto simp: stand_in_transport_def end_point_answer_def stand_in_asked_def bind_res_Panic_iff
      utc_seconds_def split: option.splits)

end
