(* ===== verification/KeyMap.thy ===== *)
theory KeyMap
  imports KeyHistory
begin

text \<open>
  What the key cache of src/src/fetch.rs promises, without its lists, counts and spans: a
  partial map from an end point and a minute to a key, which answers only ever extend. The
  cache's operations refine it.
\<close>

section \<open>Specification\<close>

type_synonym key_map = "str \<Rightarrow> u32 \<Rightarrow> str option"

text \<open>\<open>B\<close> knows what \<open>A\<close> knew, and besides it only of the key \<open>pem\<close> of the end point \<open>p\<close>.\<close>

definition learns :: "str \<Rightarrow> str \<Rightarrow> key_map \<Rightarrow> key_map \<Rightarrow> bool" where
  "learns p pem A B \<longleftrightarrow>
     (\<forall>q m x. A q m = Some x \<longrightarrow> B q m = Some x)
     \<and> (\<forall>q m x. B q m = Some x \<longrightarrow> A q m = Some x \<or> (q = p \<and> x = pem))"

definition nothing_known :: key_map where
  "nothing_known q m = None"

text \<open>The map a cache stands for.\<close>

definition key_of :: "cache \<Rightarrow> key_map" where
  "key_of c p m =
     (case cache_keys c p of
        None \<Rightarrow> None
      | Some ks \<Rightarrow> map_option held_pem (List.find (\<lambda>k. held_covers k m) ks))"

section \<open>Lemmas\<close>

lemma key_of_new_entry: "cache_keys c p = None \<Longrightarrow> key_of c p m = None"
  by (simp add: key_of_def)

lemma find_unique:
  assumes "k \<in> set ks" "P k" "\<And>k'. k' \<in> set ks \<Longrightarrow> P k' \<Longrightarrow> k' = k"
  shows "List.find P ks = Some k"
proof (cases "List.find P ks")
  case None
  then show ?thesis using assms(1,2) by (auto simp: find_None_iff)
next
  case (Some k')
  then have "k' \<in> set ks" "P k'" by (auto simp: find_Some_iff)
  with assms(3) Some show ?thesis by blast
qed

lemma key_of_iff:
  assumes "cache_inv c"
  shows "key_of c p m = Some x \<longleftrightarrow>
    (\<exists>ks k. cache_keys c p = Some ks \<and> k \<in> set ks \<and> held_covers k m \<and> held_pem k = x)"
proof
  assume "key_of c p m = Some x"
  then obtain ks k where k: "cache_keys c p = Some ks" "List.find (\<lambda>k. held_covers k m) ks = Some k"
    "held_pem k = x" by (auto simp: key_of_def split: option.splits)
  then have "k \<in> set ks" "held_covers k m" by (auto simp: find_Some_iff)
  with k show "\<exists>ks k. cache_keys c p = Some ks \<and> k \<in> set ks \<and> held_covers k m \<and> held_pem k = x"
    by blast
next
  assume "\<exists>ks k. cache_keys c p = Some ks \<and> k \<in> set ks \<and> held_covers k m \<and> held_pem k = x"
  then obtain ks k where k: "cache_keys c p = Some ks" "k \<in> set ks" "held_covers k m" "held_pem k = x" by blast
  have "keys_inv ks" using assms k(1) by (auto simp: cache_inv_def ran_def)
  from find_unique [of k ks "\<lambda>k. held_covers k m", OF k(2,3)] keys_inv_cover [OF this _ k(2) _ k(3)]
  show "key_of c p m = Some x" by (simp add: key_of_def k(1,4))
qed

lemma key_of_held:
  assumes "cache_inv c" "held_for c p m r = Some a"
  shows "key_of c p m = Some (answer_pem a)"
  using held_for_Some [OF assms(2)] by (metis assms(1) held_stated_pem key_of_iff)

lemma learns_refl: "learns p pem A A"
  by (simp add: learns_def)

lemma learns_new:
  assumes "cache_inv c" "cache_inv (hold_new c p k)"
  shows "learns p (held_pem k) (if cache_held c \<ge> MAXIMUM_CACHED_KEYS then nothing_known else key_of c)
           (key_of (hold_new c p k))"
    and "held_covers k m \<Longrightarrow> key_of (hold_new c p k) p m = Some (held_pem k)"
proof -
  have keys: "cache_keys (hold_new c p k) q =
      (if q = p then Some ((if cache_held c \<ge> MAXIMUM_CACHED_KEYS then []
          else case cache_keys c p of None \<Rightarrow> [] | Some ks \<Rightarrow> ks) @ [k])
       else if cache_held c \<ge> MAXIMUM_CACHED_KEYS then None else cache_keys c q)" for q
    by (simp add: hold_new_def Let_def)
  show "learns p (held_pem k) (if cache_held c \<ge> MAXIMUM_CACHED_KEYS then nothing_known else key_of c)
           (key_of (hold_new c p k))"
  proof (cases "cache_held c \<ge> MAXIMUM_CACHED_KEYS")
    case True
    then show ?thesis
      unfolding learns_def key_of_iff [OF assms(2)] by (auto simp: keys nothing_known_def)
  next
    case False
    then show ?thesis
      unfolding learns_def if_not_P [OF False] key_of_iff [OF assms(1)] key_of_iff [OF assms(2)]
      by (cases "cache_keys c p") (auto simp: keys)
  qed
  show "held_covers k m \<Longrightarrow> key_of (hold_new c p k) p m = Some (held_pem k)"
    unfolding key_of_iff [OF assms(2)] by (auto simp: keys)
qed

lemma learns_wider:
  assumes inv: "cache_inv c" "cache_inv (c\<lparr> cache_keys := (cache_keys c)(p \<mapsto> ks[i := k]) \<rparr>)"
    and ks: "cache_keys c p = Some ks" "i < length ks" "held_pem k = held_pem (ks ! i)"
      "first_minute k \<le> first_minute (ks ! i)" "last_minute (ks ! i) \<le> last_minute k"
  shows "learns p (held_pem k) (key_of c) (key_of (c\<lparr> cache_keys := (cache_keys c)(p \<mapsto> ks[i := k]) \<rparr>))"
    and "held_covers k m \<Longrightarrow> key_of (c\<lparr> cache_keys := (cache_keys c)(p \<mapsto> ks[i := k]) \<rparr>) p m = Some (held_pem k)"
proof -
  have k: "k \<in> set (ks[i := k])" using ks(2) by (rule set_update_memI)
  have keep: "\<exists>k'' \<in> set (ks[i := k]). held_covers k'' m \<and> held_pem k'' = held_pem k'"
    if "k' \<in> set ks" "held_covers k' m" for k' m
  proof (cases "k' = ks ! i")
    case True
    with that(2) ks(3-5) k show ?thesis
      by (intro bexI [of _ k]) (auto simp: held_covers_def intro: order_trans)
  next
    case False
    with that(1) obtain j where "j < length ks" "ks ! j = k'" "j \<noteq> i" by (auto simp: in_set_conv_nth)
    then have "k' \<in> set (ks[i := k])" by (metis length_list_update nth_list_update_neq nth_mem)
    with that(2) show ?thesis by blast
  qed
  show "learns p (held_pem k) (key_of c) (key_of (c\<lparr> cache_keys := (cache_keys c)(p \<mapsto> ks[i := k]) \<rparr>))"
    unfolding learns_def key_of_iff [OF inv(1)] key_of_iff [OF inv(2)]
  proof (intro conjI allI impI)
    fix q m x
    assume "\<exists>ks k. cache_keys c q = Some ks \<and> k \<in> set ks \<and> held_covers k m \<and> held_pem k = x"
    then obtain ks' k' where k': "cache_keys c q = Some ks'" "k' \<in> set ks'" "held_covers k' m" "held_pem k' = x"
      by blast
    then show "\<exists>ks' k'. cache_keys (c\<lparr> cache_keys := (cache_keys c)(p \<mapsto> ks[i := k]) \<rparr>) q = Some ks'
        \<and> k' \<in> set ks' \<and> held_covers k' m \<and> held_pem k' = x"
      using ks(1) keep [of k' m] by (cases "q = p") auto
  next
    fix q m x
    assume "\<exists>ks' k'. cache_keys (c\<lparr> cache_keys := (cache_keys c)(p \<mapsto> ks[i := k]) \<rparr>) q = Some ks'
        \<and> k' \<in> set ks' \<and> held_covers k' m \<and> held_pem k' = x"
    then show "(\<exists>ks k. cache_keys c q = Some ks \<and> k \<in> set ks \<and> held_covers k m \<and> held_pem k = x)
        \<or> q = p \<and> x = held_pem k"
      using ks(1) set_update_subset_insert [of ks i k] by (auto split: if_splits)
  qed
  show "held_covers k m \<Longrightarrow> key_of (c\<lparr> cache_keys := (cache_keys c)(p \<mapsto> ks[i := k]) \<rparr>) p m = Some (held_pem k)"
    unfolding key_of_iff [OF inv(2)] using k by auto
qed

section \<open>Properties\<close>

text \<open>C11: The cache refines a map from an end point and a minute to a key. Recording an answer
  only ever adds minutes of the answered key: a minute already answered for keeps its key,
  unless the cache was full and was emptied. Where anything is recorded, every minute of the
  span to hold is answered with the key. What a lookup serves is what the map says, and a
  cleared cache knows nothing.\<close>

theorem cache_refines_growing_map:
  assumes "cache_inv c" "hold now c p minute recent pem s e = Ok (a, c')"
  shows "(learns p pem (key_of c) (key_of c')
      \<or> cache_held c = 1024 \<and> learns p pem nothing_known (key_of c'))
    \<and> (c' = c \<or> (\<exists>f l expl opn. span_to_hold now minute recent s e = Some (f, l, expl, opn)
         \<and> (\<forall>m. f \<le> m \<and> m \<le> l \<longrightarrow> key_of c' p m = Some pem)))
    \<and> (\<forall>q m r b. held_for c' q m r = Some b \<longrightarrow> key_of c' q m = Some (answer_pem b))
    \<and> key_of (clear_cache c) = nothing_known"
proof -
  have inv: "cache_inv c'" using hold_inv [OF assms(1), of now p minute recent pem s e] assms(2) by simp
  have full: "cache_held c \<ge> MAXIMUM_CACHED_KEYS \<longleftrightarrow> cache_held c = 1024"
    using assms(1) by (auto simp: cache_inv_def MAXIMUM_CACHED_KEYS_def)
  have "(learns p pem (key_of c) (key_of c')
      \<or> cache_held c = 1024 \<and> learns p pem nothing_known (key_of c'))
    \<and> (c' = c \<or> (\<exists>f l expl opn. span_to_hold now minute recent s e = Some (f, l, expl, opn)
         \<and> (\<forall>m. f \<le> m \<and> m \<le> l \<longrightarrow> key_of c' p m = Some pem)))"
  proof (rule hold_cases [of now c p minute recent pem s e])
    assume "hold now c p minute recent pem s e = Ok (key_answer_stated pem s e, c)"
    then show ?thesis using assms(2) by (simp add: learns_refl)
  next
    fix f l expl opn
    let ?k = "\<lparr> held_pem = pem, first_minute = f, last_minute = l, explicit = expl, open_ended = opn \<rparr>"
    assume "span_to_hold now minute recent s e = Some (f, l, expl, opn)"
      and "hold now c p minute recent pem s e = Ok (key_answer_stated pem s e, hold_new c p ?k)"
    then show ?thesis
      using learns_new [OF assms(1), of p ?k] inv assms(2)
      by (auto simp: full held_covers_def split: if_splits)
  next
    fix f l expl opn ks i
    assume "span_to_hold now minute recent s e = Some (f, l, expl, opn)" "cache_keys c p = Some ks"
      "i < length ks" "held_pem (ks ! i) = pem"
      "hold now c p minute recent pem s e = Ok (key_answer_stated pem s e,
        c\<lparr> cache_keys := (cache_keys c)(p \<mapsto> ks[i := widened (ks ! i) f l expl opn]) \<rparr>)"
    then show ?thesis
      using learns_wider [OF assms(1), of p ks i "widened (ks ! i) f l expl opn"] inv assms(2)
      by (auto simp: held_covers_def min_le_iff_disj le_max_iff_disj)
  qed
  moreover have "key_of (clear_cache c) = nothing_known"
    by (simp add: fun_eq_iff key_of_def clear_cache_def nothing_known_def)
  ultimately show ?thesis using key_of_held [OF inv] by blast
qed

text \<open>A key stated for less than a minute starts and ends in one minute. It is held, and served,
  for every minute from then to the drift allowance behind now, as if no end had been stated.\<close>

theorem brief_span_is_held_to_now:
  assumes "cache_keys c p = None" "cache_held c < 1024"
    and "hold now c p minute recent pem (Some start) (Some start) = Ok (a, c')"
    and "start \<le> m" "m \<le> saturating_sub now CLOCK_DRIFT_ALLOWANCE_MINUTES"
  shows "held_for c' p m False = Some (key_answer_known pem start u32_max)"
  using assms
  by (auto simp: hold_def span_to_hold_def hold_new_def Let_def MAXIMUM_CACHED_KEYS_def
      held_for_def held_covers_def held_stated_def le_max_iff_disj)

section \<open>Worked examples\<close>

theorem cache_refines_growing_map_witness:
  "learns [101] [1] (key_of empty_cache) (key_of one_cache) \<and> key_of one_cache [101] 8 = Some [1]"
  using cache_refines_growing_map [OF cache_inv_empty one_cache_held]
  by (auto simp: empty_cache_def one_cache_def span_to_hold_def)

theorem brief_span_is_held_to_now_witness:
  "\<exists>a c. hold 100 empty_cache [101] (Some 5) False [1] (Some 5) (Some 5) = Ok (a, c)
     \<and> held_for c [101] 80 False = Some (key_answer_known [1] 5 u32_max)"
proof -
  obtain a c where h: "hold 100 empty_cache [101] (Some 5) False [1] (Some 5) (Some 5) = Ok (a, c)"
    using hold_inv [OF cache_inv_empty] by blast
  have "held_for c [101] 80 False = Some (key_answer_known [1] 5 u32_max)"
    by (rule brief_span_is_held_to_now [OF _ _ h])
      (simp_all add: empty_cache_def saturating_sub_def CLOCK_DRIFT_ALLOWANCE_MINUTES_def)
  with h show ?thesis by blast
qed

end
