(* ===== verification/Rotation.thy ===== *)
theory Rotation
  imports StandIn KeyMap Remote
begin

text \<open>
  The whole path of src/src/: a creator signs an OWID, sends it, rotates its keys and hosts
  its schedule; a verifier reads the OWID, fetches the key for its minute and checks the
  signature.
\<close>

section \<open>Lemmas\<close>

text \<open>The date a reader sees is the start of the minute of creation.\<close>

lemma minute_of_creation:
  assumes "dates_ok C" "date_in_range C Version3 now"
  obtains m d where "uint m = num_minutes C now (base_date C)" "add_minutes C (base_date C) (uint m) = Some d"
    "minutes_since_base C d = Some m" "wire_date C Version3 now = d"
proof -
  let ?i = "num_minutes C now (base_date C)"
  have r: "uint (of_int ?i :: u32) = ?i" using assms(2) by (intro u32_of_range) simp_all
  obtain d where d: "add_minutes C (base_date C) (uint (of_int ?i :: u32)) = Some d"
    by (rule moment_of_minutes [OF assms(1)])
  show thesis
    by (rule that [OF r d])
      (use d r count_of_minutes [OF assms(1) d] in \<open>simp_all add: minutes_since_base_def u32_try_from_Some\<close>)
qed

lemma validate_unasked: "validate E a (Some t) = Ok () \<Longrightarrow> validate E a None = Ok ()"
  by (simp add: validate_Ok check_asked_cases(1))

text \<open>Asking a hosted schedule for a minute.\<close>

lemma request_hosted:
  assumes "rfc3339_ok C whole" "chosen keys (min d later) = Some k"
    and "\<forall>k \<in> set keys. (\<exists>c. new_verify_only E (dated_pem k) = Ok c) \<and> whole (starts_at k)"
    and "add_minutes C (base_date C) (uint (m :: u32)) = Some d"
    and "public_key_response_at C E (schedule_new keys) (Some SPKI_FORMAT) (Some (decimal (unat m))) later
      = Ok (status, body)"
    and "fetch url = Ok \<lparr> response_status = status, response_body = body \<rparr>"
  shows "\<exists>s e. request_public_key C E fetch url = Ok (dated_pem k, s, e)"
proof -
  note a = answer_in_force [OF assms(1-3)]
  have "status = 200" "body = to_json C (published_answer_new (dated_pem k) (Some (starts_at k))
      (next_start_after (schedule_new keys) k))"
    using assms(2,4,5) a(1)
    by (simp_all add: public_key_response_at_def serves_format_def asked_moment_def
        key_in_force_chosen public_key_answer_def Let_def)
  then show ?thesis
    using a(2) validate_unasked [OF a(1)] assms(6)
    by (auto simp: request_public_key_Ok published_answer_new_def)
qed

text \<open>A key had from the cache or the transport, where the cache knows no other for the minute.\<close>

lemma key_at_url_known:
  assumes "cache_inv c" "minute_of url = Some m" "key_of c (end_point_of url) m \<in> {None, Some pem}"
    and "request_public_key C E fetch url = Ok (pem, s, e)"
  shows "\<exists>a c'. key_at_url C E fetch now url c = (Ok a, c') \<and> answer_pem a = pem"
proof (cases "cached_answer c url (is_recent_url C now url)")
  case (Some a)
  then have "held_for c (end_point_of url) m (is_recent_url C now url) = Some a"
    by (simp add: cached_answer_def assms(2))
  from key_of_held [OF assms(1) this] assms(3) Some show ?thesis by (auto simp: key_at_url_def)
next
  case None
  from fetch_outcome_result [OF assms(1), of "Ok (pem, s, e)" C now url "is_recent_url C now url"]
  show ?thesis by (auto simp: key_at_url_def None assms(4))
qed

section \<open>Properties\<close>


section \<open>A key that starts within a minute\<close>

text \<open>
  A key that starts after the first moment of a minute is not the key served for that minute,
  and the key served says it covers the minutes before. An OWID signed with the new key in
  the rest of the minute is not judged: the edge it is near to is asked for by its own minute
  again, and answered with the same key.
\<close>

lemma key_at_url_stated:
  assumes "cached_answer c url (is_recent_url C now url) = None" "cache_inv c"
    and "request_public_key C E fetch url = Ok (pem, s, e)"
  shows "\<exists>c'. key_at_url C E fetch now url c = (Ok (key_answer_stated pem s e), c')
    \<and> hold (now_minute C now) c (end_point_of url) (minute_of url) (is_recent_url C now url) pem s e
      = Ok (key_answer_stated pem s e, c')"
  using hold_inv [OF assms(2), of "now_minute C now" "end_point_of url" "minute_of url"
      "is_recent_url C now url" pem s e] assms(1,3)
  by (auto simp: key_at_url_def fetch_outcome_def)

theorem mid_minute_start_is_not_judged:
  assumes "minutes_since_base C (owid_date w) = Some m" "63 \<notin> set (key_end_point w scheme)"
    and "request_public_key C E fetch (key_url_at (key_end_point w scheme) m) = Ok (pem, Some f, Some m)"
    and "f < m" "f = 0 \<or> \<not> near_edge m f"
    and "verify_with_public_key C P E w pem = Ok False"
  shows "fst (verify C P E (key_at_url C E fetch now) w scheme empty_cache) = Err not_in_force"
proof -
  let ?p = "key_end_point w scheme"
  let ?url = "key_url_at ?p m" and ?a = "key_answer_known pem f (m - 1)"
  let ?k = "\<lparr> held_pem = pem, first_minute = f, last_minute = m - 1, explicit = True, open_ended = False \<rparr>"
  have rb: "end_point_of ?url = ?p" "minute_of ?url = Some m"
    using assms(2) by (simp_all add: key_url_at_read_back)
  have less: "m - 1 < m" "m - 1 + 1 = m" using assms(4) by unat_arith simp_all
  have st: "key_answer_stated pem (Some f) (Some m) = ?a" using assms(4) by (simp add: key_answer_stated_def)
  have none: "cached_answer empty_cache ?url r = None" for r
    by (simp add: cached_answer_def held_for_def empty_cache_def rb)
  from key_at_url_stated [OF none cache_inv_empty assms(3), of now] obtain c where
    first: "key_at_url C E fetch now ?url empty_cache = (Ok ?a, c)"
    and held: "hold (now_minute C now) empty_cache ?p (Some m) (is_recent_url C now ?url) pem (Some f) (Some m)
      = Ok (?a, c)"
    by (auto simp: rb st)
  from held assms(4) have c: "c = hold_new empty_cache ?p ?k"
    by (simp add: hold_def span_to_hold_def empty_cache_def Let_def)
  have inv: "cache_inv c"
    using hold_inv [OF cache_inv_empty, of "now_minute C now" ?p "Some m" "is_recent_url C now ?url" pem
        "Some f" "Some m"] held by simp
  have "cached_answer c ?url r = None" for r
    using less(1) by (simp add: cached_answer_def rb c held_for_def hold_new_def empty_cache_def
        held_covers_def Let_def MAXIMUM_CACHED_KEYS_def not_le)
  from key_at_url_stated [OF this inv assms(3), of now] obtain c' where
    second: "key_at_url C E fetch now ?url c = (Ok ?a, c')" by (auto simp: st)
  have top: "m - 1 < u32_max"
    using less(1) by (rule order.strict_trans2) (simp add: u32_max_def)
  have "beyond m ?a = (if near_edge m (m - 1) then [m] else [])"
    using assms(5) less top by (auto simp: beyond_def key_answer_known_def)
  then have "fst (neighbour_verifies C P E (key_at_url C E fetch now) w ?url m ?a c) = Ok False"
    using second by (simp add: neighbour_verifies_def rb)
  moreover have "public_key_url C w scheme = ?url" by (simp add: public_key_url_def assms(1))
  moreover have "\<not> answer_covers ?a m" "known ?a" "answer_pem ?a = pem"
    using less(1) by (simp_all add: answer_covers_def key_answer_known_def not_le)
  ultimately show ?thesis
    using first assms(1,6) by (auto simp: verify_def verify_at_url_def split: prod.splits)
qed

section \<open>Worked examples\<close>

text \<open>A creator hosting a schedule, asked by URL.\<close>

definition hosting ::
    "('t :: linorder) chrono \<Rightarrow> ('sk, 'vk, 'sg) p256 \<Rightarrow> 't public_key_schedule \<Rightarrow> 't \<Rightarrow> transport" where
  "hosting C E schedule later url =
     (case public_key_response_at C E schedule (Some SPKI_FORMAT)
             (map_option (\<lambda>m. decimal (unat m)) (minute_of url)) later of
        Ok (status, body) \<Rightarrow> Ok \<lparr> response_status = status, response_body = body \<rparr>
      | Err e \<Rightarrow> Err e
      | Panic \<Rightarrow> Panic)"

definition rotating_keys :: "int dated_public_key list" where
  "rotating_keys = [dated_public_key_new 1577836800 (lit ''9''), dated_public_key_new 1577837400 (lit ''8'')]"

lemma rotating_keys_fine:
  "\<forall>k \<in> set rotating_keys. (\<exists>c. new_verify_only numbered (dated_pem k) = Ok c) \<and> \<bar>starts_at k\<bar> < 2 ^ 32"
  using numbered_readable by (simp add: rotating_keys_def dated_public_key_new_def)

lemma hosting_answers:
  assumes "63 \<notin> set p"
  shows "\<exists>status body. hosting utc_seconds numbered (schedule_new rotating_keys) later (key_url_at p m)
      = Ok \<lparr> response_status = status, response_body = body \<rparr>
    \<and> public_key_response_at utc_seconds numbered (schedule_new rotating_keys) (Some SPKI_FORMAT)
        (Some (decimal (unat m))) later = Ok (status, body)"
  using response_at [OF dates_ok_utc rfc3339_ok_utc rotating_keys_fine, of "Some SPKI_FORMAT"
      "Some (decimal (unat m))" later]
  by (auto simp: hosting_def key_url_at_read_back [OF assms])

text \<open>A hosted schedule is a transport that does not panic, so no check against one panics.\<close>

interpretation hosted: quiet_transport "hosting utc_seconds E (schedule_new keys) later"
  for E :: "('sk, 'vk, 'sg) p256" and keys later
  by unfold_locales
    (auto simp: hosting_def public_key_response_at_def key_in_force_chosen asked_moment_def
      utc_seconds_def public_key_answer_def validate_total bind_res_Panic_iff Let_def
      split: res.splits option.splits)

lemma hosted_verification_total:
  "fst (verify C P E (key_at_url C' E' (hosting utc_seconds E (schedule_new keys) later) now) w scheme c) \<noteq> Panic"
  by (simp add: verify_def hosted.source.verify_total)


end
