(* ===== verification/Plan.thy ===== *)
theory Plan
  imports Concurrent Rotation
begin

text \<open>
  Verification among callers that overlap (src/src/fetch.rs). The async functions \<open>verify\<close>,
  \<open>verify_at_url\<close> and \<open>neighbour_verifies\<close> suspend at each key they ask for, and the rest of the
  process runs there. They are written out as a resumption, proved equal to the functions of
  Verify where nothing runs between, and run in the world of Fetching where anything may.
\<close>

section \<open>Definitions\<close>

text \<open>A check that has its verdict, or asks for the key at a URL and goes on with the result.\<close>

datatype check = Verdict "(bool, error) res" | Ask str "(key_answer, error) res \<Rightarrow> check"

fun neighbours_plan ::
    "'t chrono \<Rightarrow> platform \<Rightarrow> ('sk, 'vk, 'sg) p256 \<Rightarrow> 't owid \<Rightarrow> str \<Rightarrow> key_answer
     \<Rightarrow> u32 list \<Rightarrow> (bool \<Rightarrow> check) \<Rightarrow> check" where
  "neighbours_plan C P E w end_point tried [] go = go False"
| "neighbours_plan C P E w end_point tried (m # ms) go =
     Ask (key_url_at end_point m) (\<lambda>r.
       case r of
         Panic \<Rightarrow> Verdict Panic
       | Err _ \<Rightarrow> neighbours_plan C P E w end_point tried ms go
       | Ok neighbour \<Rightarrow>
           if answer_pem neighbour = answer_pem tried
           then neighbours_plan C P E w end_point tried ms go
           else (case verify_with_public_key C P E w (answer_pem neighbour) of
                   Ok True \<Rightarrow> go True
                 | Panic \<Rightarrow> Verdict Panic
                 | _ \<Rightarrow> neighbours_plan C P E w end_point tried ms go))"

definition verify_plan ::
    "'t chrono \<Rightarrow> platform \<Rightarrow> ('sk, 'vk, 'sg) p256 \<Rightarrow> 't owid \<Rightarrow> str \<Rightarrow> check" where
  "verify_plan C P E w url =
     Ask url (\<lambda>r.
       case r of
         Err e \<Rightarrow> Verdict (Err e)
       | Panic \<Rightarrow> Verdict Panic
       | Ok answer \<Rightarrow>
           (case verify_with_public_key C P E w (answer_pem answer) of
              Err e \<Rightarrow> Verdict (Err e)
            | Panic \<Rightarrow> Verdict Panic
            | Ok True \<Rightarrow> Verdict (Ok True)
            | Ok False \<Rightarrow>
                (case minutes_since_base C (owid_date w) of
                   None \<Rightarrow> Verdict (Ok False)
                 | Some minute \<Rightarrow>
                     if \<not> known answer then Verdict (Ok False)
                     else neighbours_plan C P E w (end_point_of url) answer (beyond minute answer)
                       (\<lambda>b. Verdict
                          (if b then Ok True
                           else if answer_covers answer minute then Ok False
                           else Err not_in_force)))))"

text \<open>A check whose requests are answered one after the other, with nothing between.\<close>

primrec run_plan :: "'s source \<Rightarrow> check \<Rightarrow> 's \<Rightarrow> (bool, error) res \<times> 's" where
  "run_plan ask (Verdict v) s = (v, s)"
| "run_plan ask (Ask url go) s = (let (r, s') = ask url s in run_plan ask (go r) s')"

text \<open>
  A check among the callers of the process: it starts in any state, asks by arriving as a
  caller, goes on when that caller has returned, and whatever else may happen happens at any
  point. The caller it waits for is the last argument.
\<close>

inductive checks ::
    "'t chrono \<Rightarrow> (action \<Rightarrow> bool) \<Rightarrow> check \<Rightarrow> world \<Rightarrow> check \<Rightarrow> nat option \<Rightarrow> bool"
  for C :: "'t chrono" and allowed plan where
  start: "reach C allowed w \<Longrightarrow> checks C allowed plan w plan None"
| ask: "checks C allowed plan w (Ask url go) None \<Longrightarrow> callers w i = None \<Longrightarrow> allowed Enter
    \<Longrightarrow> checks C allowed plan
         (w\<lparr> callers := (callers w)(i \<mapsto> \<lparr> caller_url = url, caller_recent = is_recent_url C now url,
            caller_phase = Asking \<rparr>) \<rparr>) (Ask url go) (Some i)"
| other: "checks C allowed plan w p waiting \<Longrightarrow> acts C w a w' \<Longrightarrow> allowed a
    \<Longrightarrow> checks C allowed plan w' p waiting"
| resume: "checks C allowed plan w (Ask url go) (Some i) \<Longrightarrow> callers w i = Some c
    \<Longrightarrow> caller_phase c = Returned r \<Longrightarrow> checks C allowed plan w (go r) None"

text \<open>Every verdict a check can reach is one of \<open>Q\<close>, where the results it is given are good.\<close>

primrec ensures ::
    "(str \<Rightarrow> (key_answer, error) res \<Rightarrow> bool) \<Rightarrow> ((bool, error) res \<Rightarrow> bool) \<Rightarrow> check \<Rightarrow> bool" where
  "ensures good Q (Verdict v) = Q v"
| "ensures good Q (Ask url go) = (\<forall>r. good url r \<longrightarrow> ensures good Q (go r))"

section \<open>Lemmas\<close>

lemma run_neighbours_plan:
  "run_plan ask (neighbours_plan C P E w p tried ms go) s
   = (case try_neighbours C P E ask w p tried ms s of
        (Ok b, s') \<Rightarrow> run_plan ask (go b) s' | (_, s') \<Rightarrow> (Panic, s'))"
proof (induction ms arbitrary: s)
  case (Cons m ms)
  obtain r s' where r: "ask (key_url_at p m) s = (r, s')" by fastforce
  show ?case
    by (cases r) (auto simp: r Cons.IH split: res.splits bool.splits)
qed simp

lemma acts_caller_url:
  assumes "acts C w a w'" "callers w i = Some c"
  shows "\<exists>c'. callers w' i = Some c' \<and> caller_url c' = caller_url c"
  using assms
proof (induction rule: acts.induct)
  case (finish w j d f out)
  then show ?case using wake_keeps [where cs = "callers w", OF finish.prems]
    by (auto simp: finish_flight_def split: option.splits)
qed (auto simp: turn_def respond_def unlist_def poll_def Let_def split: option.splits res.splits)

lemma checks_waits:
  "checks C allowed plan w p waiting \<Longrightarrow> reach C allowed w
     \<and> (\<forall>i. waiting = Some i \<longrightarrow> (\<exists>url go c. p = Ask url go \<and> callers w i = Some c \<and> caller_url c = url))"
proof (induction rule: checks.induct)
  case (ask w url go i now)
  then show ?case using acts.enter [of w i C url now] by (auto intro: reach.more)
next
  case (other w p waiting a w')
  then have "reach C allowed w'" using reach.more [of C allowed w a w'] by simp
  with other show ?case using acts_caller_url [OF other.hyps(2)] by fastforce
qed auto

context answer_contract
begin

lemma checks_ensures:
  "checks C (answered_by serves) plan w p waiting \<Longrightarrow> ensures good Q plan \<Longrightarrow> ensures good Q p"
proof (induction rule: checks.induct)
  case (resume w url go i c r)
  from checks_waits [OF resume.hyps(1)] resume.hyps(2) have
    "reach C (answered_by serves) w" "caller_url c = url" by auto
  with result_good [OF _ resume.hyps(2,3)] have "good url r" by simp
  with resume.IH resume.prems show ?case by simp
qed

end

lemma ensures_neighbours:
  assumes "\<And>url. \<not> good url Panic" "ensures good Q (go False)"
    and "\<And>m a. m \<in> set ms \<Longrightarrow> good (key_url_at p m) (Ok a)
      \<Longrightarrow> verify_with_public_key C P E w (answer_pem a) = Ok True \<Longrightarrow> ensures good Q (go True)"
  shows "ensures good Q (neighbours_plan C P E w p tried ms go)"
  using assms(3)
proof (induction ms)
  case (Cons m ms)
  then show ?case
    by (auto simp: assms(1) verify_with_public_key_total split: res.splits bool.splits)
qed (simp add: assms(2))

lemma right_result_total: "\<not> right_result C keys p since url Panic"
  by (simp add: right_result_def)

text \<open>What a verdict says of the schedule, where every key asked for is right.\<close>

lemma verify_plan_sound:
  fixes keys :: "('t :: linorder) dated_public_key list"
  assumes "minutes_since_base C (owid_date w) = Some m" "minute_start C m \<le> since" "63 \<notin> set p"
  shows "ensures (right_result C keys p since)
    (\<lambda>v. v \<noteq> Panic
       \<and> (v = Ok True \<longrightarrow> (\<exists>k \<in> set keys. verify_with_public_key C P E w (dated_pem k) = Ok True))
       \<and> (v = Ok False \<longrightarrow> (\<exists>k. chosen keys (minute_start C m) = Some k
            \<and> verify_with_public_key C P E w (dated_pem k) = Ok False)))
    (verify_plan C P E w (key_url_at p m))"
    (is "ensures ?good ?Q _")
proof -
  note parts = key_url_at_read_back [OF assms(3)]
  have known_key: "\<exists>k \<in> set keys. dated_pem k = answer_pem a" if "?good (key_url_at p x) (Ok a)" for x a
    using that by (auto simp: right_result_def parts)
  have in_force: "\<exists>k. chosen keys (minute_start C m) = Some k \<and> dated_pem k = answer_pem a"
    if "?good (key_url_at p m) (Ok a)" for a
    using that assms(2) by (auto simp: right_result_def parts)
  have "ensures ?good ?Q (neighbours_plan C P E w p a ms
      (\<lambda>b. Verdict (if b then Ok True else if answer_covers a m then Ok False else Err not_in_force)))"
    if a: "?good (key_url_at p m) (Ok a)" "verify_with_public_key C P E w (answer_pem a) = Ok False" for a ms
  proof (rule ensures_neighbours)
    fix x n
    assume "?good (key_url_at p x) (Ok n)" "verify_with_public_key C P E w (answer_pem n) = Ok True"
    then have "\<exists>k \<in> set keys. verify_with_public_key C P E w (dated_pem k) = Ok True"
      using known_key by metis
    then show "ensures ?good ?Q (Verdict
        (if True then Ok True else if answer_covers a m then Ok False else Err not_in_force))"
      by simp
  qed (use in_force [OF a(1)] a(2) in \<open>auto simp: not_in_force_def right_result_total\<close>)
  moreover have "?Q (Ok False)"
    if a: "?good (key_url_at p m) (Ok a)" "verify_with_public_key C P E w (answer_pem a) = Ok False" for a
    using in_force [OF a(1)] a(2) by simp metis
  moreover have "?Q (Ok True)"
    if a: "?good (key_url_at p m) (Ok a)" "verify_with_public_key C P E w (answer_pem a) = Ok True" for a
    using known_key [OF a(1)] a(2) by simp metis
  ultimately show ?thesis
    by (auto simp: verify_plan_def parts assms(1) right_result_total verify_with_public_key_total
        split: res.splits bool.splits)
qed

section \<open>Properties\<close>

text \<open>Verification as a sequence of suspensions and the verification functions agree: with
  requests answered one after the other, the check asks what \<open>verify_at_url\<close> asks, leaves the
  state it leaves and reaches its verdict.\<close>

theorem plan_is_verify_at_url:
  "run_plan ask (verify_plan C P E w url) s = verify_at_url C P E ask w url s"
proof -
  obtain r s1 where r: "ask url s = (r, s1)" by fastforce
  show ?thesis
  proof (cases r)
    case (Ok a)
    let ?z = "try_neighbours C P E ask w (end_point_of url) a (beyond m a) s1"
    show ?thesis
    proof (cases "verify_with_public_key C P E w (answer_pem a)")
      case v: (Ok b)
      show ?thesis
        by (auto simp: verify_plan_def verify_at_url_def neighbour_verifies_def r Ok v run_neighbours_plan try_no_error
            split: option.splits res.splits bool.splits prod.splits)
    qed (simp_all add: verify_plan_def verify_at_url_def r Ok)
  qed (simp_all add: verify_plan_def verify_at_url_def r)
qed



section \<open>Worked examples\<close>

text \<open>A check that is the first of its process, and gets the key it asks for.\<close>

lemma checks_moves:
  "(moves C allowed)\<^sup>*\<^sup>* w w' \<Longrightarrow> checks C allowed plan w p waiting \<Longrightarrow> checks C allowed plan w' p waiting"
  by (induction rule: rtranclp_induct) (auto simp: moves_def intro: checks.other)

lemma first_check:
  fixes C :: "'t chrono"
  assumes "serves url q" "q \<noteq> Panic"
  shows "\<exists>w. checks C (answered_by serves) (Ask url go) w (go (returned_of q)) None"
proof -
  fix now :: 't
  have "checks C (answered_by serves) (Ask url go) empty_world (Ask url go) None"
    by (intro checks.start reach.start)
  from checks.ask [OF this, where i = 0 and now = now]
  have "checks C (answered_by serves) (Ask url go) (entered C now url) (Ask url go) (Some 0)"
    by (simp add: entered_def empty_world_def)
  with entered_returns [of serves url q, OF assms, of C now] show ?thesis by (meson checks_moves checks.resume)
qed

text \<open>The OWID of minute 6 under key 9, whose creator's keys are 9 and from minute 10 key 8.\<close>

abbreviation rotating_serving :: serving where
  "rotating_serving \<equiv> hosted_serving utc_seconds numbered rotating_keys
     (key_end_point late_owid (lit ''https'')) 1577900000"

lemma late_no_query: "63 \<notin> set (lit ''https'')" "63 \<notin> set (owid_domain late_owid)"
  by (simp_all add: late_owid_def from_parts_def lit_def)

lemma late_url_at: "late_url = key_url_at (key_end_point late_owid (lit ''https'')) 6"
  by (simp add: late_url_def public_key_url_def late_owid_minute)

lemma rotating_minutes:
  "\<forall>k \<in> set rotating_keys. \<exists>m. starts_at k = minute_start utc_seconds m"
  "distinct (map dated_pem rotating_keys)"
proof -
  have "minute_start utc_seconds 0 = 1577836800" "minute_start utc_seconds 10 = 1577837400"
    by (simp_all add: minute_start_def utc_seconds_def base_date_def)
  then show "\<forall>k \<in> set rotating_keys. \<exists>m. starts_at k = minute_start utc_seconds m"
    by (auto simp: rotating_keys_def dated_public_key_new_def intro: exI [of _ 0] exI [of _ 10])
  show "distinct (map dated_pem rotating_keys)"
    by (simp add: rotating_keys_def dated_public_key_new_def lit_def)
qed

lemma rotating_request: "\<exists>s e. rotating_serving late_url (Ok (lit ''9'', s, e))"
proof -
  note q = key_end_point_no_query [OF late_no_query]
  from hosting_answers [OF q, of 1577900000 6] obtain status body where
    r: "public_key_response_at utc_seconds numbered (schedule_new rotating_keys) (Some SPKI_FORMAT)
        (Some (decimal (unat (6 :: u32)))) 1577900000 = Ok (status, body)" by blast
  let ?fetch = "\<lambda>u :: str. Ok \<lparr> response_status = status, response_body = body \<rparr> :: (fetch_response, error) res"
  have "chosen rotating_keys (min 1577837160 1577900000) = Some (dated_public_key_new 1577836800 (lit ''9''))"
    by (simp add: chosen_def rotating_keys_def dated_public_key_new_def)
  moreover have "add_minutes utc_seconds (base_date utc_seconds) (uint (6 :: u32)) = Some 1577837160"
    by (simp add: utc_seconds_def base_date_def)
  ultimately have "\<exists>s e. request_public_key utc_seconds numbered ?fetch late_url = Ok (lit ''9'', s, e)"
    using request_hosted [OF rfc3339_ok_utc _ rotating_keys_fine _ r, of _ _ ?fetch late_url]
    by (simp add: dated_public_key_new_def)
  moreover have "minute_of late_url = Some m \<Longrightarrow> m = 6" for m by (simp add: late_url_parts)
  ultimately show ?thesis
    using r unfolding hosted_serving_def by (metis order_refl)
qed



end
