(* ===== verification/Settling.thy ===== *)
theory Settling
  imports Draining Plan
begin

text \<open>
  Verification among callers that overlap comes to an end (src/src/fetch.rs): a check asks for
  one key after another, each time as a caller beside the others, and whatever the order of
  all their steps it reaches its verdict unless the caller it waits for was dropped.
\<close>

section \<open>Definitions\<close>

text \<open>
  A check with the callers of its process: the callers take their steps, the check asks where
  it waits for no caller, and goes on when the one it waits for has returned.
\<close>

inductive proceeds ::
    "'t chrono \<Rightarrow> bool \<Rightarrow> world \<times> check \<times> nat option \<Rightarrow> world \<times> check \<times> nat option \<Rightarrow> bool"
  for C :: "'t chrono" and drops where
  callers: "advance C drops w w' \<Longrightarrow> proceeds C drops (w, p, waiting) (w', p, waiting)"
| ask: "callers w i = None \<Longrightarrow> proceeds C drops (w, Ask url go, None)
    (w\<lparr> callers := (callers w)(i \<mapsto> \<lparr> caller_url = url, caller_recent = is_recent_url C now url,
       caller_phase = Asking \<rparr>) \<rparr>, Ask url go, Some i)"
| resume: "callers w i = Some c \<Longrightarrow> caller_phase c = Returned r
    \<Longrightarrow> proceeds C drops (w, Ask url go, Some i) (w, go r, None)"

section \<open>Lemmas\<close>

text \<open>What is left of a check after a result is smaller, so a check asks finitely often.\<close>

definition rests :: "(check \<times> check) set" where
  "rests = {(q, p). \<exists>url go r. p = Ask url go \<and> q = go r}"

lemma wf_rests: "wf rests"
proof (rule wfUNIVI)
  fix P p
  assume step: "\<forall>p. (\<forall>q. (q, p) \<in> rests \<longrightarrow> P q) \<longrightarrow> P p"
  show "P p"
  proof (induction p)
    case (Verdict v)
    show ?case using step by (auto simp: rests_def)
  next
    case (Ask url go)
    then have "P q" if "(q, Ask url go) \<in> rests" for q using that by (auto simp: rests_def)
    with step show ?case by blast
  qed
qed

text \<open>The check comes first, then whether it has yet to ask, then the work of the callers.\<close>

definition lessens :: "((world \<times> check \<times> nat option) \<times> (world \<times> check \<times> nat option)) set" where
  "lessens = inv_image (rests <*lex*> less_than <*lex*> less_than)
     (\<lambda>(w, p, waiting). (p, if waiting = None then 1 else 0, work w))"

lemma wf_lessens: "wf lessens"
  unfolding lessens_def by (intro wf_inv_image wf_lex_prod wf_rests wf_less_than)

lemma proceeds_run:
  assumes "proceeds C drops (w, p, waiting) (w', p', waiting')" "run C b w"
  shows "run C b w'"
  using assms
proof (cases rule: proceeds.cases)
  case (callers)
  with assms(2) show ?thesis using advance_step run.more by metis
next
  case (ask i url go now)
  with assms(2) show ?thesis using step_enter [of w i C b url now] run.more by metis
qed simp

lemma proceeds_lessens:
  assumes "proceeds C drops (w, p, waiting) (w', p', waiting')" "run C b w"
  shows "((w', p', waiting'), (w, p, waiting)) \<in> lessens"
  using assms
proof (cases rule: proceeds.cases)
  case (callers)
  with advance_works run_inv [OF assms(2)] finite_live [OF assms(2)] have "work w' < work w" by blast
  with callers show ?thesis by (simp add: lessens_def)
qed (auto simp: lessens_def rests_def)

text \<open>While it has no verdict, something can be done.\<close>

lemma free_caller: "run C b w \<Longrightarrow> \<exists>i. callers w i = None"
  using finite_callers [of C b w] ex_new_if_finite [OF infinite_UNIV_nat] by fastforce

lemma check_proceeds:
  assumes "run C b w" "\<And>i. waiting = Some i \<Longrightarrow> \<exists>c. callers w i = Some c \<and> caller_phase c \<noteq> Dropped"
  shows "\<exists>s. proceeds C drops (w, Ask url go, waiting) s"
proof (cases waiting)
  case None
  with free_caller [OF assms(1)] show ?thesis by (blast intro: proceeds.ask)
next
  case (Some i)
  with assms(2) obtain c where c: "callers w i = Some c" "caller_phase c \<noteq> Dropped" by blast
  show ?thesis
  proof (cases "ongoing (caller_phase c)")
    case True
    with ongoing_advances [OF assms(1) c(1)] show ?thesis by (blast intro: proceeds.callers)
  next
    case False
    with c(2) obtain r where "caller_phase c = Returned r" by (cases "caller_phase c") auto
    with c(1) Some show ?thesis by (blast intro: proceeds.resume)
  qed
qed

lemma proceeds_waits:
  assumes "proceeds C drops (w, p, waiting) (w', p', waiting')"
    and "\<forall>i. waiting = Some i \<longrightarrow> (\<exists>url go. p = Ask url go) \<and> callers w i \<noteq> None"
  shows "\<forall>i. waiting' = Some i \<longrightarrow> (\<exists>url go. p' = Ask url go) \<and> callers w' i \<noteq> None"
  using assms
proof (cases rule: proceeds.cases)
  case (callers)
  then show ?thesis using assms(2) acts_caller_url unfolding advance_def by fastforce
qed auto

lemma proceeds_reaches:
  assumes "(proceeds C drops)\<^sup>*\<^sup>* s (w', p', waiting')" "s = (w, p, None)" "run C b w"
  shows "run C b w' \<and> (\<forall>i. waiting' = Some i \<longrightarrow> (\<exists>url go. p' = Ask url go) \<and> callers w' i \<noteq> None)"
  using assms
proof (induction "(w', p', waiting')" arbitrary: w' p' waiting' rule: rtranclp_induct)
  case (step y)
  obtain v q o' where y: "y = (v, q, o')" by (cases y)
  with step have "run C b v" "\<forall>i. o' = Some i \<longrightarrow> (\<exists>url go. q = Ask url go) \<and> callers v i \<noteq> None" by auto
  with step.hyps(2) y proceeds_run proceeds_waits show ?case by metis
qed simp

section \<open>Property\<close>

text \<open>C13: Verification terminates and never deadlocks, whatever runs beside it. A check among any
  callers of its process has no infinite schedule, whatever the order of their steps, whatever
  the transport answers and whichever callers drop out; and it stops only with its verdict, or
  where the caller it waits for was dropped.\<close>

theorem checks_end:
  assumes "run C b w"
  shows "\<not> (\<exists>s. s 0 = (w, verify_plan C' P E ow url, None) \<and> (\<forall>n. proceeds C drops (s n) (s (Suc n))))
    \<and> ((proceeds C drops)\<^sup>*\<^sup>* (w, verify_plan C' P E ow url, None) (w', p, waiting)
         \<longrightarrow> (\<nexists>s. proceeds C drops (w', p, waiting) s)
         \<longrightarrow> (\<exists>v. p = Verdict v)
           \<or> (\<exists>i c. waiting = Some i \<and> callers w' i = Some c \<and> caller_phase c = Dropped))"
proof (intro conjI notI impI)
  assume "\<exists>s. s 0 = (w, verify_plan C' P E ow url, None) \<and> (\<forall>n. proceeds C drops (s n) (s (Suc n)))"
  then obtain s where s: "s 0 = (w, verify_plan C' P E ow url, None)" "\<And>n. proceeds C drops (s n) (s (Suc n))"
    by blast
  have "run C b (fst (s n))" for n
  proof (induction n)
    case (Suc n)
    then show ?case using s(2) [of n] proceeds_run by (metis prod.collapse)
  qed (use s(1) assms in simp)
  then have "(s (Suc n), s n) \<in> lessens" for n
    using s(2) [of n] proceeds_lessens by (metis prod.collapse)
  with wf_lessens show False unfolding wf_iff_no_infinite_down_chain by blast
next
  assume reached: "(proceeds C drops)\<^sup>*\<^sup>* (w, verify_plan C' P E ow url, None) (w', p, waiting)"
    and stuck: "\<nexists>s. proceeds C drops (w', p, waiting) s"
  from proceeds_reaches [OF reached refl assms] have
    "run C b w'" "\<forall>i. waiting = Some i \<longrightarrow> (\<exists>url go. p = Ask url go) \<and> callers w' i \<noteq> None" by auto
  with stuck check_proceeds [of C b w' waiting drops] show "(\<exists>v. p = Verdict v)
      \<or> (\<exists>i c. waiting = Some i \<and> callers w' i = Some c \<and> caller_phase c = Dropped)"
    by (cases p) (blast, metis not_None_eq)
qed

theorem checks_end_witness:
  "\<not> (\<exists>s. s 0 = (parked_world, verify_plan utc_seconds target64 numbered late_owid late_url, None)
     \<and> (\<forall>n. proceeds utc_seconds True (s n) (s (Suc n))))"
  using checks_end [OF run_parked] by blast

end
