(* ===== verification/Transport.thy ===== *)
theory Transport
  imports Verify
begin

text \<open>
  The built in transport over reqwest (src/src/reqwest_fetch.rs). The reqwest crate is a
  parameter, a record of the calls made on it; a call that can fail yields the text of its
  error on the left. What is relied on is that a client built with the policy that follows no
  redirect answers with what the host the URL names answered.
\<close>

section \<open>The reqwest crate\<close>

text \<open>
  \<open>client_build\<close> stands for \<open>Client::builder().redirect(..).timeout(..).build()\<close>, the timeout in
  seconds, and \<open>client_send\<close> for \<open>get(url).send().await\<close>.
\<close>

record ('p, 'c, 'r) reqwest =
  policy_none :: 'p
  client_build :: "'p \<Rightarrow> nat \<Rightarrow> str + 'c"
  client_send :: "'c \<Rightarrow> str \<Rightarrow> str + 'r"
  status_code :: "'r \<Rightarrow> u16"
  response_text :: "'r \<Rightarrow> str + str"

definition never_redirected :: "('p, 'c, 'r) reqwest \<Rightarrow> (str \<Rightarrow> str + 'r) \<Rightarrow> bool" where
  "never_redirected R host \<longleftrightarrow>
     (\<forall>t c url r. client_build R (policy_none R) t = Inr c \<longrightarrow> client_send R c url = Inr r
        \<longrightarrow> host url = Inr r)"

section \<open>Definitions\<close>

definition KEY_FETCH_TIMEOUT_SECONDS :: nat where
  "KEY_FETCH_TIMEOUT_SECONDS = 10"

record 'c reqwest_client =
  client :: 'c

definition reqwest_new :: "('p, 'c, 'r) reqwest \<Rightarrow> ('c reqwest_client, error) res" where
  "reqwest_new R =
     bind_res (map_err Http (of_sum (client_build R (policy_none R) KEY_FETCH_TIMEOUT_SECONDS)))
       (\<lambda>c. Ok \<lparr> client = c \<rparr>)"

definition reqwest_fetch :: "('p, 'c, 'r) reqwest \<Rightarrow> 'c reqwest_client \<Rightarrow> transport" where
  "reqwest_fetch R f url =
     bind_res (map_err Http (of_sum (client_send R (client f) url))) (\<lambda>response.
     let status = unat (status_code R response) in
     bind_res (map_err Http (of_sum (response_text R response))) (\<lambda>body.
     Ok \<lparr> response_status = status, response_body = body \<rparr>))"

section \<open>Lemmas\<close>

lemma reqwest_fetch_Ok:
  "reqwest_fetch R f url = Ok z \<longleftrightarrow>
     (\<exists>r body. client_send R (client f) url = Inr r \<and> response_text R r = Inr body
        \<and> z = \<lparr> response_status = unat (status_code R r), response_body = body \<rparr>)"
  by (auto simp: reqwest_fetch_def bind_res_Ok_iff)

lemma reqwest_fetch_Err: "reqwest_fetch R f url = Err e \<Longrightarrow> \<exists>m. e = Http m"
  by (auto simp: reqwest_fetch_def bind_res_Err_iff)

lemma reqwest_fetch_total: "reqwest_fetch R f url \<noteq> Panic"
  by (auto simp: reqwest_fetch_def bind_res_Panic_iff)

interpretation reqwest: quiet_transport "reqwest_fetch R f"
  for R :: "('p, 'c, 'r) reqwest" and f
  by unfold_locales (rule reqwest_fetch_total)

section \<open>Property\<close>

text \<open>C26: The built in transport never takes a key from another host. A key it yields is the one
  the host the URL names answered with, in a 200 that it accepts; a redirect, any other status
  and a request that failed are an HTTP failure; and a verification over it never panics.\<close>

theorem built_in_transport_asks_the_host:
  assumes "never_redirected R host" "reqwest_new R = Ok f"
    and "cache_inv k" "cached_answer k url (is_recent_url C now url) = None"
  shows "(\<forall>a. fst (key_at_url C E (reqwest_fetch R f) now url k) = Ok a \<longrightarrow>
       (\<exists>r body b. host url = Inr r \<and> status_code R r = 200 \<and> response_text R r = Inr body
          \<and> parse_answer C body = Ok b \<and> validate E b None = Ok ()
          \<and> answer_pem a = answer_public_key b))
    \<and> ((\<forall>r. host url = Inr r \<longrightarrow> status_code R r \<noteq> 200) \<longrightarrow>
         (\<exists>m. key_at_url C E (reqwest_fetch R f) now url k = (Err (Http m), k)))
    \<and> fst (verify_at_url C P E (key_at_url C E (reqwest_fetch R f) now) w url k) \<noteq> Panic"
proof -
  let ?q = "request_public_key C E (reqwest_fetch R f) url"
  obtain t where "client_build R (policy_none R) t = Inr (client f)"
    using assms(2) by (auto simp: reqwest_new_def bind_res_Ok_iff)
  with assms(1) have host: "host url = Inr r" if "client_send R (client f) url = Inr r" for r
    using that unfolding never_redirected_def by blast
  have total: "?q \<noteq> Panic" by (rule request_total) (simp add: reqwest_fetch_total)
  from key_at_url_miss [OF assms(4,3) total] obtain k' where
    r: "key_at_url C E (reqwest_fetch R f) now url k = (returned_of ?q, k')"
    and same: "(\<forall>x. ?q \<noteq> Ok x) \<longrightarrow> k' = k" by blast
  have word: "status_code R r = 200 \<longleftrightarrow> unat (status_code R r) = 200" for r
    by (simp add: word_unat_eq_iff)
  have "\<exists>r body b. host url = Inr r \<and> status_code R r = 200 \<and> response_text R r = Inr body
      \<and> parse_answer C body = Ok b \<and> validate E b None = Ok () \<and> answer_pem a = answer_public_key b"
    if "returned_of ?q = Ok a" for a
    using that host
    by (cases ?q) (auto simp: request_public_key_Ok reqwest_fetch_Ok word)
  moreover have "\<exists>m. ?q = Err (Http m)" if "\<forall>r. host url = Inr r \<longrightarrow> status_code R r \<noteq> 200"
  proof (cases "reqwest_fetch R f url")
    case (Ok z)
    with that host have "response_status z \<noteq> 200" by (auto simp: reqwest_fetch_Ok word)
    with Ok show ?thesis by (simp add: request_public_key_def)
  next
    case (Err e)
    with reqwest_fetch_Err [OF Err] show ?thesis by (auto simp: request_public_key_def)
  qed (simp add: reqwest_fetch_total)
  ultimately show ?thesis
    using r same by (auto simp: reqwest.source.verify_total)
qed

section \<open>Worked example\<close>

text \<open>A host that moved permanently, on a client that sends what it is asked.\<close>

definition moved :: "(unit, unit, u16) reqwest" where
  "moved = \<lparr> policy_none = (), client_build = (\<lambda>_ _. Inr ()), client_send = (\<lambda>_ _. Inr 301),
     status_code = id, response_text = (\<lambda>_. Inr []) \<rparr>"

theorem built_in_transport_asks_the_host_witness:
  "\<exists>m. key_at_url utc_seconds numbered (reqwest_fetch moved \<lparr> client = () \<rparr>) 0 [97] empty_cache
     = (Err (Http m), empty_cache)"
proof -
  have "never_redirected moved (\<lambda>_. Inr 301)" by (simp add: never_redirected_def moved_def)
  moreover have "reqwest_new moved = Ok \<lparr> client = () \<rparr>" by (simp add: reqwest_new_def moved_def)
  moreover have "cached_answer empty_cache [97] (is_recent_url utc_seconds 0 [97]) = None"
    by (simp add: cached_answer_def minute_of_def split_once_def)
  moreover have "\<forall>r. Inr 301 = (Inr r :: str + u16) \<longrightarrow> status_code moved r \<noteq> 200"
    by (simp add: moved_def)
  ultimately show ?thesis
    using built_in_transport_asks_the_host [of moved "\<lambda>_. Inr 301" "\<lparr> client = () \<rparr>" empty_cache "[97]"
        utc_seconds 0 numbered] cache_inv_empty by blast
qed

end
