(* ===== verification/Walkthrough.thy ===== *)
theory Walkthrough
  imports Signing
begin

text \<open>
  The example program src/examples/create_and_verify.rs: an OWID is created, sent as base 64,
  read and verified, and then read again after one bit of its bytes was changed. The key the
  random generator yields and the moment \<open>Utc::now()\<close> answers are arguments, and the lines
  printed are its result.
\<close>

section \<open>Definition\<close>

definition bool_to_string :: "bool \<Rightarrow> str" where
  "bool_to_string b = (if b then lit ''true'' else lit ''false'')"

definition create_and_verify ::
    "'t chrono \<Rightarrow> platform \<Rightarrow> ('sk, 'vk, 'sg) p256 \<Rightarrow> base64 \<Rightarrow> 'sk \<Rightarrow> 't \<Rightarrow> (str list, error) res" where
  "create_and_verify C P E B random_key now =
     (let crypto = crypto_new E random_key in
     bind_res (creator_new (lit ''example.com'') crypto) (\<lambda>cr.
     let printed = [lit ''Public key for example.com:''] in
     bind_res (public_key_pem E crypto) (\<lambda>pem.
     let printed = printed @ [pem] in
     bind_res (create C P E now cr (as_bytes (lit ''Hello World''))) (\<lambda>w.
     bind_res (as_base64 C P B w) (\<lambda>encoded.
     let printed = printed @ [lit ''Signed OWID: '' @ encoded] in
     bind_res (map_err error_from_parse (from_base64 C P B encoded)) (\<lambda>copy.
     bind_res (verify_with_crypto C P E copy crypto) (\<lambda>verifies.
     let printed = printed @ [lit ''Payload '' @ [39] @ payload_as_string copy @ [39] @ lit '' created by ''
           @ [39] @ owid_domain copy @ [39] @ lit '' verifies: '' @ bool_to_string verifies] in
     bind_res (as_byte_array C P copy) (\<lambda>bytes.
     bind_res (usub (length bytes) 1) (\<lambda>last.
     bind_res (index bytes last) (\<lambda>b.
     let bytes = bytes[last := b XOR 1] in
     bind_res (map_err error_from_parse (from_byte_array C P bytes)) (\<lambda>tampered.
     bind_res (verify_with_crypto C P E tampered crypto) (\<lambda>verifies.
     let printed = printed @ [lit ''Tampered OWID verifies: '' @ bool_to_string verifies] in
     (case verify_status_with_crypto C P E tampered crypto of
        None \<Rightarrow> Panic
      | Some status \<Rightarrow>
          Ok (printed @ [lit ''Tampered OWID signature status: '' @ signature_status_as_str status]))
     ))))))))))))"

section \<open>Lemmas\<close>

text \<open>The OWID the example creates, with the signature of the key.\<close>

definition example_fields :: "'t \<Rightarrow> 't owid" where
  "example_fields now = from_parts Version3 (lit ''example.com'') now (as_bytes (lit ''Hello World'')) []"

definition example_signature :: "'t chrono \<Rightarrow> ('sk, 'vk, 'sg) p256 \<Rightarrow> 'sk \<Rightarrow> 't \<Rightarrow> bytes" where
  "example_signature C E k now = sig_to_bytes E (ecdsa_sign E k (enc_fields C (example_fields now)))"

lemma example_domain:
  "length (as_bytes (lit ''example.com'')) = 11" "is_text (lit ''example.com'')"
  "valid_domain (lit ''example.com'')"
proof -
  show "length (as_bytes (lit ''example.com'')) = 11" "is_text (lit ''example.com'')"
    by (simp_all add: lit_def as_bytes_def encode_char_def is_text_def scalar_def)
  then show "valid_domain (lit ''example.com'')"
    by (simp add: valid_domain_def MAXIMUM_DOMAIN_LENGTH_def) (simp add: lit_def)
qed

lemma example_payload:
  "length (as_bytes (lit ''Hello World'')) = 11" "is_text (lit ''Hello World'')"
  by (simp_all add: lit_def as_bytes_def encode_char_def is_text_def scalar_def)

lemma example_writable:
  assumes "date_in_range C Version3 now"
  shows "writable C (example_fields now)" "fields_length (example_fields now) = 32"
  using assms example_domain example_payload
  by (simp_all add: example_fields_def from_parts_def writable_def fields_length_def)

text \<open>The same OWID with any signature of 64 bytes is written, read back and checked over the same fields.\<close>

definition example_copy :: "'t chrono \<Rightarrow> 't \<Rightarrow> bytes \<Rightarrow> 't owid" where
  "example_copy C now s = wire_form C ((example_fields now)\<lparr> owid_signature := s \<rparr>)"

lemma example_bytes:
  assumes "dates_ok C" "ample P" "date_in_range C Version3 now" "length s = SIGNATURE_LENGTH"
  shows "signed_bytes C P (example_copy C now s) = Ok (enc_fields C (example_fields now))"
    and "as_byte_array C P (example_copy C now s) = Ok (enc_fields C (example_fields now) @ s)"
    and "from_byte_array C P (enc_fields C (example_fields now) @ s) = Ok (example_copy C now s)"
proof -
  let ?w = "(example_fields now)\<lparr> owid_signature := s \<rparr>"
  have w: "writable C ?w" "length (owid_signature ?w) = SIGNATURE_LENGTH" "length (owid_payload ?w) < 2 ^ 31"
    using example_writable [OF assms(3)] assms(4) example_payload
    by (simp_all add: writable_def example_fields_def)
  note carried = written_and_read [OF assms(1,2) w]
  then show "signed_bytes C P (example_copy C now s) = Ok (enc_fields C (example_fields now))"
    "as_byte_array C P (example_copy C now s) = Ok (enc_fields C (example_fields now) @ s)"
    "from_byte_array C P (enc_fields C (example_fields now) @ s) = Ok (example_copy C now s)"
    by (simp_all add: example_copy_def enc_owid_def)
qed

lemma example_creates:
  assumes "dates_ok C" "ample P" "signatures_ok E" "date_in_range C Version3 now"
  shows "creator_new (lit ''example.com'') (crypto_new E k)
      = Ok \<lparr> creator_domain = lit ''example.com'', creator_crypto = crypto_new E k \<rparr>"
    and "create C P E now \<lparr> creator_domain = lit ''example.com'', creator_crypto = crypto_new E k \<rparr>
        (as_bytes (lit ''Hello World''))
      = Ok (set_signature (example_fields now) (example_signature C E k now))"
proof -
  have "trim (lit ''example.com'') \<noteq> []" by (simp add: lit_def is_whitespace_def)
  then show "creator_new (lit ''example.com'') (crypto_new E k)
      = Ok \<lparr> creator_domain = lit ''example.com'', creator_crypto = crypto_new E k \<rparr>"
    using example_domain by (simp add: creator_new_def MAXIMUM_DOMAIN_LENGTH_def can_sign_def crypto_new_def)
  note w = example_writable [OF assms(4)]
  have "signed_bytes C P (example_fields now) = Ok (enc_fields C (example_fields now))"
    using w assms(2) by (simp add: signed_bytes_result ample_def)
  then show "create C P E now \<lparr> creator_domain = lit ''example.com'', creator_crypto = crypto_new E k \<rparr>
        (as_bytes (lit ''Hello World''))
      = Ok (set_signature (example_fields now) (example_signature C E k now))"
    using assms(3)
    by (simp add: create_def create_version_def version_default_def sign_byte_array_def crypto_new_def
        signatures_ok_def SIGNATURE_LENGTH_def example_signature_def example_fields_def Let_def)
qed

lemma tampered_bytes:
  assumes "length s = SIGNATURE_LENGTH"
  shows "(bs @ s)[length (bs @ s) - 1 := z] = bs @ s[63 := z]" "(bs @ s) ! (length (bs @ s) - 1) = s ! 63"
  using assms by (simp_all add: SIGNATURE_LENGTH_def list_update_append nth_append)

section \<open>Property\<close>

text \<open>C39: The example runs to its end on any key whose public half is exported and at any moment
  the format can hold: the copy read back verifies and prints the payload and domain it was
  made with, and the changed bytes are still read as an OWID, whose verdict and status are
  what the signature scheme says of the signature with its last bit changed.\<close>

theorem example_runs_to_its_end:
  assumes "dates_ok C" "ample P" "signatures_ok E" "base64_ok B" "date_in_range C Version3 now"
    and "to_public_key_pem E (verifying_key_of E k) = Inr pem"
  shows "\<exists>encoded b. b64_decode B encoded
        = Some (enc_fields C (example_fields now) @ example_signature C E k now)
    \<and> b = (let s = example_signature C E k now in
           case sig_from_slice E (s[63 := s ! 63 XOR 1]) of
             None \<Rightarrow> False
           | Some sg \<Rightarrow> ecdsa_verify E (verifying_key_of E k) (enc_fields C (example_fields now)) sg)
    \<and> create_and_verify C P E B k now
      = Ok [lit ''Public key for example.com:'', pem, lit ''Signed OWID: '' @ encoded,
          lit ''Payload '' @ [39] @ lit ''Hello World'' @ [39] @ lit '' created by '' @ [39]
            @ lit ''example.com'' @ [39] @ lit '' verifies: true'',
          lit ''Tampered OWID verifies: '' @ bool_to_string b,
          lit ''Tampered OWID signature status: ''
            @ (if b then lit ''SignatureValid'' else lit ''SignatureInvalid'')]"
proof -
  let ?s = "example_signature C E k now" and ?f = "enc_fields C (example_fields now)"
  let ?w = "set_signature (example_fields now) ?s" and ?c = "example_copy C now"
  let ?b = "case sig_from_slice E (?s[63 := ?s ! 63 XOR 1]) of None \<Rightarrow> False
      | Some sg \<Rightarrow> ecdsa_verify E (verifying_key_of E k) ?f sg"
  have len: "length ?s = SIGNATURE_LENGTH" "length (?s[63 := z]) = SIGNATURE_LENGTH" for z
    using assms(3) by (simp_all add: example_signature_def signatures_ok_def SIGNATURE_LENGTH_def)
  note made = example_creates [OF assms(1-3,5), of k]
  note copy = example_bytes [OF assms(1,2,5) len(1)] and changed = example_bytes [OF assms(1,2,5) len(2)]
  have bytes: "as_byte_array C P ?w = Ok (?f @ ?s)"
  proof -
    note wr = example_writable [OF assms(5)]
    have "writable C ?w" "enc_owid C ?w = ?f @ ?s" "length (owid_signature ?w) = SIGNATURE_LENGTH"
      using wr(1) len(1) by (simp_all add: set_signature_def writable_def enc_owid_def)
    with as_byte_array_ample [OF assms(2), of C ?w] wr(2) assms(2) len(1) show ?thesis
      by (simp add: ample_def SIGNATURE_LENGTH_def)
  qed
  have encoded: "as_base64 C P B ?w = Ok (b64_encode B (?f @ ?s))" by (simp add: as_base64_def bytes)
  have "b64_encode B (?f @ ?s) \<noteq> []" using assms(4) by (auto simp: base64_ok_def)
  then have read: "from_base64 C P B (b64_encode B (?f @ ?s)) = Ok (?c ?s)"
    using assms(4) copy(3) by (simp add: from_base64_def base64_ok_def)
  have shown: "payload_as_string (?c ?s) = lit ''Hello World''" "owid_domain (?c ?s) = lit ''example.com''"
    by (simp_all add: example_copy_def example_fields_def from_parts_def payload_as_string_def
        example_payload from_utf8_as_bytes from_utf8_lossy_text)
  have genuine: "verify_with_crypto C P E (?c ?s) (crypto_new E k) = Ok True"
    using verify_byte_array_signed [OF assms(3), of "Some k" k ?f]
    by (simp add: verify_with_crypto_def copy(1) crypto_new_def) (simp add: example_copy_def example_signature_def)
  have verdict: "verify_with_crypto C P E (?c (?s[63 := ?s ! 63 XOR 1])) (crypto_new E k) = Ok ?b"
    using len(2) by (simp add: verify_with_crypto_def changed(1) crypto_new_def verify_byte_array_def)
      (simp add: example_copy_def split: option.splits)
  have "create_and_verify C P E B k now
      = Ok [lit ''Public key for example.com:'', pem, lit ''Signed OWID: '' @ b64_encode B (?f @ ?s),
          lit ''Payload '' @ [39] @ lit ''Hello World'' @ [39] @ lit '' created by '' @ [39]
            @ lit ''example.com'' @ [39] @ lit '' verifies: true'',
          lit ''Tampered OWID verifies: '' @ bool_to_string ?b,
          lit ''Tampered OWID signature status: ''
            @ (if ?b then lit ''SignatureValid'' else lit ''SignatureInvalid'')]"
  proof -
    have pem: "public_key_pem E (crypto_new E k) = Ok pem"
      by (simp add: public_key_pem_def subject_public_key_info_def crypto_new_def assms(6))
    have one: "usub (length (?f @ ?s)) 1 = Ok (length (?f @ ?s) - 1)"
      "index (?f @ ?s) (length (?f @ ?s) - 1) = Ok (?s ! 63)"
      using len(1) tampered_bytes(2) [OF len(1), of ?f] by (simp_all add: SIGNATURE_LENGTH_def)
    show ?thesis
      unfolding create_and_verify_def Let_def made pem encoded read shown genuine copy(2) one
        bind_res.simps map_err.simps tampered_bytes(1) [OF len(1)] changed(3) verdict
        verify_status_with_crypto_def
      by (cases ?b) (simp_all add: bool_to_string_def lit_def)
  qed
  moreover have "b64_decode B (b64_encode B (?f @ ?s)) = Some (?f @ ?s)"
    using assms(4) by (simp add: base64_ok_def)
  ultimately show ?thesis
    by (intro exI [of _ "b64_encode B (?f @ ?s)"] exI [of _ ?b]) (simp add: Let_def)
qed

theorem example_runs_to_its_end_witness:
  "\<exists>printed. create_and_verify utc_seconds target64 numbered plain64 9 1577836800 = Ok printed
     \<and> length printed = 6 \<and> printed ! 4 = lit ''Tampered OWID verifies: false''"
proof -
  define s where "s = example_signature utc_seconds numbered 9 1577836800"
  have pem: "to_public_key_pem numbered (verifying_key_of numbered 9) = Inr (lit ''9'')"
    by (simp add: numbered_def decimal.simps lit_def)
  have now: "date_in_range utc_seconds Version3 1577836800"
    by (simp add: utc_seconds_def base_date_def quot_def)
  have z: "s ! 63 = 0" "length s = 64"
    by (simp_all add: s_def example_signature_def numbered_def numbered_sign_def nth_append)
  have "s[63 := s ! 63 XOR 1] \<noteq> s"
  proof
    assume "s[63 := s ! 63 XOR 1] = s"
    then have "s[63 := s ! 63 XOR 1] ! 63 = s ! 63" by simp
    then show False by (simp add: z)
  qed
  then have refused: "sig_from_slice numbered (s[63 := s ! 63 XOR 1]) = Some (s[63 := s ! 63 XOR 1])"
    "\<not> ecdsa_verify numbered (verifying_key_of numbered 9)
      (enc_fields utc_seconds (example_fields 1577836800)) (s[63 := s ! 63 XOR 1])"
    by (simp_all add: numbered_def s_def example_signature_def)
  from example_runs_to_its_end [OF dates_ok_utc ample_target64 signatures_ok_numbered base64_ok_plain now pem]
  obtain encoded b where b: "b = (case sig_from_slice numbered (s[63 := s ! 63 XOR 1]) of None \<Rightarrow> False
      | Some sg \<Rightarrow> ecdsa_verify numbered (verifying_key_of numbered 9)
          (enc_fields utc_seconds (example_fields 1577836800)) sg)"
    and run: "create_and_verify utc_seconds target64 numbered plain64 9 1577836800
      = Ok [lit ''Public key for example.com:'', lit ''9'', lit ''Signed OWID: '' @ encoded,
          lit ''Payload '' @ [39] @ lit ''Hello World'' @ [39] @ lit '' created by '' @ [39]
            @ lit ''example.com'' @ [39] @ lit '' verifies: true'',
          lit ''Tampered OWID verifies: '' @ bool_to_string b,
          lit ''Tampered OWID signature status: ''
            @ (if b then lit ''SignatureValid'' else lit ''SignatureInvalid'')]"
    unfolding Let_def s_def by blast
  have "\<not> b" using refused unfolding b by simp
  moreover have "lit ''Tampered OWID verifies: '' @ lit ''false'' = lit ''Tampered OWID verifies: false''"
    by (simp add: lit_def)
  ultimately show ?thesis unfolding run by (simp add: bool_to_string_def)
qed

end
