(* ===== verification/Fixtures.thy ===== *)
theory Fixtures
  imports StandIn
begin

text \<open>
  The fixtures of the tests of src/src/fetch.rs and the stub they ask: reading the records of a
  fixture file and the published schedule in one, and a transport that keeps a list of what
  it was asked. The text of the fixture files is an argument.
\<close>

section \<open>Lines and chunks\<close>

text \<open>\<open>str::lines\<close>: a line ends at a line feed, and a carriage return before it is not part of it.\<close>

definition without_return :: "str \<Rightarrow> str" where
  "without_return l = (if l \<noteq> [] \<and> last l = 13 then butlast l else l)"

lemma split_once_shorter: "split_once c s = Some (a, b) \<Longrightarrow> length b < length s"
  by (auto simp: split_once_def position_Some_iff split: option.splits)

function lines :: "str \<Rightarrow> str list" where
  "lines s =
     (case split_once 10 s of
        None \<Rightarrow> if s = [] then [] else [s]
      | Some (l, rest) \<Rightarrow> without_return l # lines rest)"
  by auto
termination by (relation "measure length") (auto dest: split_once_shorter)

declare lines.simps [simp del]

text \<open>\<open>slice::chunks\<close> for a size above zero, and \<open>join\<close>.\<close>

function chunks :: "nat \<Rightarrow> 'a list \<Rightarrow> 'a list list" where
  "chunks n xs = (if xs = [] \<or> n = 0 then [] else take n xs # chunks n (drop n xs))"
  by auto
termination by (relation "measure (\<lambda>(n, xs). length xs)") auto

declare chunks.simps [simp del]

fun join :: "str \<Rightarrow> str list \<Rightarrow> str" where
  "join sep [] = []"
| "join sep [x] = x"
| "join sep (x # xs) = x @ sep @ join sep xs"

fun map_res :: "('a \<Rightarrow> ('b, 'e) res) \<Rightarrow> 'a list \<Rightarrow> ('b list, 'e) res" where
  "map_res f [] = Ok []"
| "map_res f (x # xs) = bind_res (f x) (\<lambda>y. bind_res (map_res f xs) (\<lambda>ys. Ok (y # ys)))"

section \<open>Fixtures\<close>

definition records :: "str \<Rightarrow> str list" where
  "records fixture = filter (\<lambda>l. l \<noteq> [] \<and> hd l \<noteq> 35) (map trim (lines fixture))"

text \<open>The identifier: an assertion that fails and an \<open>expect\<close> on an error are \<open>Panic\<close>.\<close>

definition genuine_identifier :: "'t chrono \<Rightarrow> platform \<Rightarrow> base64 \<Rightarrow> str \<Rightarrow> ('t owid, error) res" where
  "genuine_identifier C P B fixture =
     (let value = records fixture in
      if length value \<noteq> 1 then Panic
      else bind_res (index value 0) (\<lambda>v.
           case from_base64 C P B v of Ok w \<Rightarrow> Ok w | _ \<Rightarrow> Panic))"

definition scheduled_record :: "'t chrono \<Rightarrow> str \<Rightarrow> ('t scheduled_key, error) res" where
  "scheduled_record C record =
     (case split_once 32 record of
        None \<Rightarrow> Panic
      | Some (date, body) \<Rightarrow>
          let wrapped = join [10] (map from_utf8_lossy (chunks 64 (as_bytes body))) in
          (case parse_from_rfc3339 C date of
             None \<Rightarrow> Panic
           | Some starts \<Rightarrow>
               Ok \<lparr> scheduled_start = starts,
                    scheduled_pem = lit ''-----BEGIN PUBLIC KEY-----'' @ [10] @ wrapped
                      @ [10] @ lit ''-----END PUBLIC KEY-----'' @ [10] \<rparr>))"

definition schedule_of :: "'t chrono \<Rightarrow> str \<Rightarrow> ('t scheduled_key list, error) res" where
  "schedule_of C fixture = map_res (scheduled_record C) (records fixture)"

definition request_moment :: "'t chrono \<Rightarrow> ('t, error) res" where
  "request_moment C =
     (case parse_from_rfc3339 C (lit ''2026-09-14T00:00:00Z'') of None \<Rightarrow> Panic | Some d \<Rightarrow> Ok d)"

section \<open>The stub\<close>

text \<open>
  A transport and the URLs it was asked, in order. What is answered does not depend on what was
  asked before, so \<open>stub_answer\<close> is a \<open>transport\<close>. A request is recorded before it yields.
\<close>

record stub =
  stub_answer :: transport
  requests :: "str list"

definition stub_new :: "transport \<Rightarrow> stub" where
  "stub_new f = \<lparr> stub_answer = f, requests = [] \<rparr>"

definition end_point_stating ::
    "('t :: linorder) chrono \<Rightarrow> ('sk, 'vk, 'sg) p256 \<Rightarrow> str \<Rightarrow> span \<Rightarrow> (stub, error) res" where
  "end_point_stating C E fixture sp =
     bind_res (schedule_of C fixture) (\<lambda>schedule.
     Ok (stub_new (\<lambda>url. bind_res (request_moment C) (\<lambda>moment. end_point_answer C E moment schedule url sp))))"

definition end_point ::
    "('t :: linorder) chrono \<Rightarrow> ('sk, 'vk, 'sg) p256 \<Rightarrow> str \<Rightarrow> (stub, error) res" where
  "end_point C E fixture = end_point_stating C E fixture SpanStated"

definition stub_dates :: "stub \<Rightarrow> str option list" where
  "stub_dates s = map (\<lambda>url. query_value url (lit ''date'')) (requests s)"

definition stub_fetch :: "str \<Rightarrow> stub \<Rightarrow> (fetch_response, error) res \<times> stub" where
  "stub_fetch url s = (stub_answer s url, s\<lparr> requests := requests s @ [url] \<rparr>)"

section \<open>Lemmas\<close>

lemma lines_hit:
  assumes "10 \<notin> set l" "l = [] \<or> last l \<noteq> 13"
  shows "lines (l @ 10 # rest) = l # lines rest"
  using assms by (subst lines.simps) (auto simp: split_once_hit without_return_def)

lemma dropWhile_hd: "l \<noteq> [] \<Longrightarrow> \<not> P (hd l) \<Longrightarrow> dropWhile P l = l"
  by (cases l) auto

lemma trim_id:
  assumes "l \<noteq> []" "\<not> is_whitespace (hd l)" "\<not> is_whitespace (last l)"
  shows "trim l = l"
  using assms by (simp add: trim_def dropWhile_hd hd_rev)

lemma records_line:
  assumes "l \<noteq> []" "10 \<notin> set l" "\<not> is_whitespace (hd l)" "\<not> is_whitespace (last l)"
  shows "records (l @ 10 # rest) = (if hd l = 35 then [] else [l]) @ records rest"
proof -
  have "last l \<noteq> 13" using assms(4) by (auto simp: is_whitespace_def)
  then show ?thesis using assms by (simp add: records_def lines_hit trim_id)
qed

lemma records_Nil [simp]: "records [] = []"
  by (simp add: records_def lines.simps split_once_def)

text \<open>A body of ASCII characters is wrapped by characters.\<close>

lemma chunks_map: "chunks n (map f xs) = map (map f) (chunks n xs)"
  by (induction n xs rule: chunks.induct) (subst (1 2) chunks.simps, auto simp: take_map drop_map)

lemma chunks_subset: "c \<in> set (chunks n xs) \<Longrightarrow> set c \<subseteq> set xs"
proof (induction n xs rule: chunks.induct)
  case (1 n xs)
  show ?case
  proof (cases "xs = [] \<or> n = 0")
    case False
    with "1.prems" have "c = take n xs \<or> c \<in> set (chunks n (drop n xs))"
      by (subst (asm) chunks.simps) auto
    then show ?thesis using "1.IH" [OF False] by (auto dest: in_set_takeD in_set_dropD)
  qed (use 1 in \<open>simp add: chunks.simps\<close>)
qed

lemma ascii_lossy: "\<forall>c \<in> set s. c < 128 \<Longrightarrow> from_utf8_lossy (map byte s) = s"
  by (rule from_utf8_lossy_text)
    (use from_utf8_as_bytes [of s] in \<open>simp add: as_bytes_ascii is_text_def scalar_ascii\<close>)

lemma wrapped_ascii:
  assumes "\<forall>c \<in> set s. c < 128"
  shows "map from_utf8_lossy (chunks n (as_bytes s)) = chunks n s"
proof -
  have "map (\<lambda>c. from_utf8_lossy (map byte c)) (chunks n s) = map id (chunks n s)"
    using assms chunks_subset [of _ n s] by (intro map_cong) (auto intro!: ascii_lossy)
  then show ?thesis by (simp add: as_bytes_ascii [OF assms] chunks_map comp_def)
qed

text \<open>Unwrapping gives the body back.\<close>

lemma concat_chunks: "0 < n \<Longrightarrow> concat (chunks n xs) = xs"
  by (induction n xs rule: chunks.induct) (subst chunks.simps, auto)

text \<open>A fixture of comments and entries, as the files are.\<close>

datatype line = Comment str | Entry str str

definition word :: "str \<Rightarrow> bool" where
  "word s \<longleftrightarrow> s \<noteq> [] \<and> (\<forall>c \<in> set s. \<not> is_whitespace c \<and> c < 128)"

fun line_ok :: "line \<Rightarrow> bool" where
  "line_ok (Comment l) \<longleftrightarrow> 10 \<notin> set l \<and> (l = [] \<or> \<not> is_whitespace (last l))"
| "line_ok (Entry date body) \<longleftrightarrow> word date \<and> hd date \<noteq> 35 \<and> word body"

fun line_text :: "line \<Rightarrow> str" where
  "line_text (Comment l) = 35 # l"
| "line_text (Entry date body) = date @ 32 # body"

fun entry_of :: "line \<Rightarrow> (str \<times> str) option" where
  "entry_of (Comment _) = None"
| "entry_of (Entry date body) = Some (date, body)"

definition fixture_text :: "line list \<Rightarrow> str" where
  "fixture_text ls = concat (map (\<lambda>l. line_text l @ [10]) ls)"

definition entries :: "line list \<Rightarrow> (str \<times> str) list" where
  "entries ls = List.map_filter entry_of ls"

lemma word_chars: "word s \<Longrightarrow> 10 \<notin> set s \<and> 32 \<notin> set s \<and> s \<noteq> [] \<and> \<not> is_whitespace (hd s) \<and> \<not> is_whitespace (last s)"
proof -
  assume s: "word s"
  have "is_whitespace 10" "is_whitespace 32" by (simp_all add: is_whitespace_def)
  then have "c \<noteq> 10" "c \<noteq> 32" if "c \<in> set s" for c using s that by (auto simp: word_def)
  with s show ?thesis by (auto simp: word_def)
qed

lemma line_text_ok:
  assumes "line_ok l"
  shows "line_text l \<noteq> [] \<and> 10 \<notin> set (line_text l) \<and> \<not> is_whitespace (hd (line_text l))
    \<and> \<not> is_whitespace (last (line_text l)) \<and> (hd (line_text l) = 35 \<longleftrightarrow> entry_of l = None)"
proof (cases l)
  case (Comment t)
  moreover have "\<not> is_whitespace 35" by (simp add: is_whitespace_def)
  ultimately show ?thesis using assms by auto
next
  case (Entry date body)
  with assms word_chars [of date] word_chars [of body] show ?thesis by simp
qed

lemma records_fixture:
  assumes "\<forall>l \<in> set ls. line_ok l"
  shows "records (fixture_text ls) = map (\<lambda>(date, body). date @ 32 # body) (entries ls)"
  using assms
proof (induction ls)
  case (Cons l ls)
  have "records (fixture_text (l # ls)) = records (line_text l @ 10 # fixture_text ls)"
    by (simp add: fixture_text_def)
  also have "\<dots> = (if entry_of l = None then [] else [line_text l]) @ records (fixture_text ls)"
    using records_line [of "line_text l" "fixture_text ls"] line_text_ok [of l] Cons.prems by auto
  finally show ?case
    using Cons by (cases l) (simp_all add: entries_def map_filter_simps)
qed (simp add: fixture_text_def entries_def map_filter_simps)

text \<open>Reading the schedule back from such a fixture: one key per entry, in order, its PEM the body wrapped.\<close>

definition key_pem :: "str \<Rightarrow> str" where
  "key_pem body = lit ''-----BEGIN PUBLIC KEY-----'' @ [10] @ join [10] (chunks 64 body)
     @ [10] @ lit ''-----END PUBLIC KEY-----'' @ [10]"

lemma schedule_of_fixture:
  assumes "\<forall>l \<in> set ls. line_ok l" "\<forall>(date, body) \<in> set (entries ls). parse_from_rfc3339 C date \<noteq> None"
  shows "schedule_of C (fixture_text ls) = Ok (map (\<lambda>(date, body).
    \<lparr> scheduled_start = the (parse_from_rfc3339 C date), scheduled_pem = key_pem body \<rparr>) (entries ls))"
proof -
  have words: "word date \<and> word body" if "(date, body) \<in> set (entries ls)" for date body
  proof -
    from that obtain l where "l \<in> set ls" "entry_of l = Some (date, body)"
      by (auto simp: entries_def map_filter_def)
    with assms(1) show ?thesis by (cases l) auto
  qed
  have one: "scheduled_record C (date @ 32 # body)
      = Ok \<lparr> scheduled_start = the (parse_from_rfc3339 C date), scheduled_pem = key_pem body \<rparr>"
    if "(date, body) \<in> set (entries ls)" for date body
  proof -
    note w = words [OF that]
    then have "split_once 32 (date @ 32 # body) = Some (date, body)"
      using word_chars [of date] by (simp add: split_once_hit)
    moreover have "map from_utf8_lossy (chunks 64 (as_bytes body)) = chunks 64 body"
      using w by (intro wrapped_ascii) (simp add: word_def)
    ultimately show ?thesis using assms(2) that by (auto simp: scheduled_record_def key_pem_def)
  qed
  have "map_res (scheduled_record C) (map (\<lambda>(date, body). date @ 32 # body) es)
      = Ok (map (\<lambda>(date, body). \<lparr> scheduled_start = the (parse_from_rfc3339 C date),
          scheduled_pem = key_pem body \<rparr>) es)"
    if "set es \<subseteq> set (entries ls)" for es
    using that by (induction es) (auto simp: one)
  then show ?thesis by (simp add: schedule_of_def records_fixture [OF assms(1)])
qed

text \<open>What the stub is asked and what it says: the requests are the URLs asked in order, and the dates their minutes.\<close>

lemma stub_fetch_key:
  assumes "63 \<notin> set p"
  shows "stub_dates (snd (stub_fetch (key_url_at p m) s)) = stub_dates s @ [Some (decimal (unat m))]"
  using query_value_date [OF assms] by (simp add: stub_dates_def stub_fetch_def)

end
