(* ===== verification/Assertions.thy ===== *)
theory Assertions
  imports Walkthrough "HOL-Library.Monad_Syntax"
begin

text \<open>
  What the unit tests of the crate are made of. A test is a value of \<open>unit option\<close>: a failed
  assertion, an \<open>expect\<close> on an error and any other panic are \<open>None\<close>, and a test that runs to
  its end is \<open>Some ()\<close>. What a test takes from its surroundings (the clock, the random
  generator) is an argument.
\<close>

section \<open>Definitions\<close>

definition assert_that :: "bool \<Rightarrow> unit option" where
  "assert_that b = (if b then Some () else None)"

definition expect :: "('a, 'e) res \<Rightarrow> 'a option" where
  "expect r = (case r of Ok x \<Rightarrow> Some x | Err _ \<Rightarrow> None | Panic \<Rightarrow> None)"

definition expect_err :: "('a, 'e) res \<Rightarrow> 'e option" where
  "expect_err r = (case r of Ok _ \<Rightarrow> None | Err e \<Rightarrow> Some e | Panic \<Rightarrow> None)"

text \<open>A result that is only looked at: a panic ends the test.\<close>

definition looked_at :: "('a, 'e) res \<Rightarrow> ('a, 'e) res option" where
  "looked_at r = (case r of Panic \<Rightarrow> None | _ \<Rightarrow> Some r)"

text \<open>A writer whose refusal ends the test, and the buffer it leaves.\<close>

definition expect_written :: "(unit, 'e) res \<times> bytes \<Rightarrow> bytes option" where
  "expect_written z = (case z of (Ok _, buffer) \<Rightarrow> Some buffer | _ \<Rightarrow> None)"

text \<open>A \<open>for\<close> over what a test goes through.\<close>

fun for_each :: "'a list \<Rightarrow> ('a \<Rightarrow> unit option) \<Rightarrow> unit option" where
  "for_each [] f = Some ()"
| "for_each (x # xs) f = do { f x; for_each xs f }"

definition is_err :: "('a, 'e) res \<Rightarrow> bool" where
  "is_err r \<longleftrightarrow> (\<exists>e. r = Err e)"

section \<open>Lemmas\<close>

lemma assert_that [simp]: "assert_that b = Some () \<longleftrightarrow> b" "assert_that True = Some ()"
  by (simp_all add: assert_that_def)

lemma expect_simps [simp]:
  "expect (Ok x) = Some x" "expect (Err e) = None" "expect Panic = None"
  "expect_err (Err e) = Some e" "expect_err (Ok x) = None" "expect_err Panic = None"
  "looked_at (Ok x) = Some (Ok x)" "looked_at (Err e) = Some (Err e)" "looked_at Panic = None"
  "expect_written (Ok (), buffer) = Some buffer"
  by (simp_all add: expect_def expect_err_def looked_at_def expect_written_def)

lemma is_err_simps [simp]: "is_err (Err e)" "\<not> is_err (Ok x)" "\<not> is_err Panic"
  by (simp_all add: is_err_def)

lemma is_err_code [code]: "is_err r = (case r of Err _ \<Rightarrow> True | _ \<Rightarrow> False)"
  by (cases r) simp_all

lemma bind_unit: "(m \<bind> f) = Some () \<longleftrightarrow> (\<exists>x. m = Some x \<and> f x = Some ())"
  by (cases m) simp_all

lemma for_each: "for_each xs f = Some () \<longleftrightarrow> (\<forall>x \<in> set xs. f x = Some ())"
  by (induction xs) (auto simp: bind_unit)

text \<open>A creator's domain made of ASCII characters that are not white space.\<close>

lemma ascii_domain:
  assumes "d \<noteq> []" "\<forall>c \<in> set d. 32 < c \<and> c < 127"
  shows "is_text d" "0 \<notin> set d" "trim d \<noteq> []" "length (as_bytes d) = length d"
proof -
  show "is_text d" "0 \<notin> set d" using assms(2) by (fastforce simp: is_text_def intro: scalar_ascii)+
  have "32 < hd d \<and> hd d < 127" using assms by simp
  then have "\<not> is_whitespace (hd d)" by (simp add: is_whitespace_def)
  with assms(1) show "trim d \<noteq> []" using hd_in_set by fastforce
  show "length (as_bytes d) = length d" using assms(2) by (subst as_bytes_ascii) fastforce+
qed

text \<open>What a new creator makes: it is written, read back with the date it is written with, and verifies.\<close>

definition fresh_creator :: "('sk, 'vk, 'sg) p256 \<Rightarrow> 'sk \<Rightarrow> str \<Rightarrow> ('sk, 'vk) creator" where
  "fresh_creator E k d = \<lparr> creator_domain = d, creator_crypto = crypto_new E k \<rparr>"

definition fresh_owid ::
    "'t chrono \<Rightarrow> ('sk, 'vk, 'sg) p256 \<Rightarrow> 'sk \<Rightarrow> 't \<Rightarrow> str \<Rightarrow> version \<Rightarrow> bytes \<Rightarrow> 't owid" where
  "fresh_owid C E k now d v p =
     (let w = from_parts v d now p [] in
      set_signature w (sig_to_bytes E (ecdsa_sign E k (enc_fields C w))))"

lemma creator_new_fresh:
  "trim d \<noteq> [] \<Longrightarrow> length (as_bytes d) \<le> MAXIMUM_DOMAIN_LENGTH
   \<Longrightarrow> creator_new d (crypto_new E k) = Ok (fresh_creator E k d)"
  by (simp add: creator_new_def can_sign_def crypto_new_def fresh_creator_def)

lemma fresh_owid_simps [simp]:
  "owid_version (fresh_owid C E k now d v p) = v" "owid_domain (fresh_owid C E k now d v p) = d"
  "owid_payload (fresh_owid C E k now d v p) = p" "owid_date (fresh_owid C E k now d v p) = now"
  by (simp_all add: fresh_owid_def Let_def)

lemma fresh_owid_made:
  assumes "dates_ok C" "ample P" "signatures_ok E"
    and "v \<noteq> Empty" "valid_domain d" "date_in_range C v now" "length p < 2 ^ 31"
  shows "create_version C P E now (fresh_creator E k d) v p = Ok (fresh_owid C E k now d v p)"
    and "as_byte_array C P (fresh_owid C E k now d v p) = Ok (enc_owid C (fresh_owid C E k now d v p))"
    and "from_byte_array C P (enc_owid C (fresh_owid C E k now d v p))
      = Ok (wire_form C (fresh_owid C E k now d v p))"
    and "verify_with_crypto C P E (wire_form C (fresh_owid C E k now d v p)) (crypto_new E k) = Ok True"
proof -
  let ?u = "from_parts v d now p []" and ?w = "fresh_owid C E k now d v p"
  have wr: "writable C ?u" "writable C ?w"
    using assms(4-7) by (simp_all add: writable_def)
  have sig: "length (owid_signature ?w) = SIGNATURE_LENGTH"
    using assms(3) by (simp add: fresh_owid_def Let_def signatures_ok_def SIGNATURE_LENGTH_def)
  have enc: "enc_fields C ?w = enc_fields C ?u" by (simp add: fresh_owid_def Let_def enc_fields_def)
  have "signed_bytes C P ?u = Ok (enc_fields C ?u)"
    using signed_bytes_written [OF assms(2) wr(1)] assms(7) by simp
  then show "create_version C P E now (fresh_creator E k d) v p = Ok ?w"
    using assms(3) by (simp add: create_version_def fresh_creator_def sign_byte_array_def crypto_new_def
        signatures_ok_def SIGNATURE_LENGTH_def fresh_owid_def Let_def)
  note carried = written_and_read [OF assms(1,2) wr(2) sig]
  then show "as_byte_array C P ?w = Ok (enc_owid C ?w)"
    "from_byte_array C P (enc_owid C ?w) = Ok (wire_form C ?w)" using assms(7) by simp_all
  have "signed_bytes C P (wire_form C ?w) = Ok (enc_fields C ?u)" using carried(3) assms(7) enc by simp
  moreover have "owid_signature (wire_form C ?w) = sig_to_bytes E (ecdsa_sign E k (enc_fields C ?u))"
    by (simp add: fresh_owid_def Let_def)
  ultimately show "verify_with_crypto C P E (wire_form C ?w) (crypto_new E k) = Ok True"
    using verify_byte_array_signed [OF assms(3), of "Some k" k "enc_fields C ?u"]
    by (simp add: verify_with_crypto_def crypto_new_def)
qed

text \<open>The same over base 64.\<close>

lemma fresh_owid_text:
  fixes k :: 'sk
  assumes "dates_ok C" "ample P" "signatures_ok E" "base64_ok B"
    and "v \<noteq> Empty" "valid_domain d" "date_in_range C v now" "length p < 2 ^ 31"
  defines "w \<equiv> fresh_owid C E k now d v p"
  shows "as_base64 C P B w = Ok (b64_encode B (enc_owid C w))"
    and "from_base64 C P B (b64_encode B (enc_owid C w)) = Ok (wire_form C w)"
proof -
  note made = fresh_owid_made [OF assms(1-3,5-8)]
  show "as_base64 C P B w = Ok (b64_encode B (enc_owid C w))"
    using made(2) by (simp add: as_base64_def w_def)
  have "b64_encode B (enc_owid C w) \<noteq> []" using assms(4) by (auto simp: base64_ok_def)
  then show "from_base64 C P B (b64_encode B (enc_owid C w)) = Ok (wire_form C w)"
    using made(3) assms(4) by (simp add: from_base64_def base64_ok_def w_def)
qed

end
