(* ===== verification/StatusTests.thy ===== *)
theory StatusTests
  imports Assertions
begin

text \<open>
  The unit tests of the statuses (the \<open>tests\<close> module of src/src/status.rs): the names, the
  outcome behind every signature status, and an input for every parse status. They pass for
  any key of a scheme that keeps its laws, at any moment the format can hold.
\<close>

section \<open>Definitions\<close>

definition parse_status_names_are_the_cross_language_ones :: "unit option" where
  "parse_status_names_are_the_cross_language_ones = do {
     assert_that (parse_status_as_str Parsed = lit ''Parsed'');
     assert_that (parse_status_as_str AbsentNode = lit ''AbsentNode'');
     assert_that (parse_status_as_str ByteCountMismatch = lit ''ByteCountMismatch'');
     assert_that (parse_status_as_str parse_status.ImplementationCapacityExceeded
       = lit ''ImplementationCapacityExceeded'')
   }"

definition signature_status_names_are_the_cross_language_ones :: "unit option" where
  "signature_status_names_are_the_cross_language_ones = do {
     assert_that (signature_status_as_str Valid = lit ''SignatureValid'');
     assert_that (signature_status_as_str Invalid = lit ''SignatureInvalid'');
     assert_that (signature_status_as_str InvalidKey = lit ''InvalidKey'')
   }"

fun outcomes_for :: "signature_status \<Rightarrow> (bool, error) res list" where
  "outcomes_for Valid = [Ok True]"
| "outcomes_for Invalid = [Ok False]"
| "outcomes_for signature_status.InvalidSignatureLength = [Err (error.InvalidSignatureLength 63)]"
| "outcomes_for KeyUnavailable =
     [Err (KeyMissing (lit ''verify a signature'')), Err (Http (lit ''connection refused''))]"
| "outcomes_for InvalidKey = [Err (Key (lit ''bad PEM'')), Err (InvalidKeyFormat (lit ''xyz''))]"
| "outcomes_for signature_status.ImplementationCapacityExceeded =
     [Err (error.ImplementationCapacityExceeded 1)]"
| "outcomes_for VerificationError = [Err DateOutOfRange]"

definition every_signature_status_is_mapped_from_the_outcome_that_means_it :: "unit option" where
  "every_signature_status_is_mapped_from_the_outcome_that_means_it =
     for_each [Valid, Invalid, signature_status.InvalidSignatureLength, KeyUnavailable, InvalidKey,
       signature_status.ImplementationCapacityExceeded, VerificationError] (\<lambda>status.
     for_each (outcomes_for status) (\<lambda>outcome. do {
       let was_error = is_err outcome;
       assert_that (signature_status_of outcome = Some status);
       if was_error then do {
         assert_that (status \<noteq> Invalid);
         assert_that (status \<noteq> Valid)
       } else Some ()
     }))"

text \<open>A complete envelope, for the key and the moment drawn.\<close>

definition signed_envelope ::
    "'t chrono \<Rightarrow> platform \<Rightarrow> ('sk, 'vk, 'sg) p256 \<Rightarrow> 'sk \<times> 't \<Rightarrow> bytes option" where
  "signed_envelope C P E drawn = (
     let (random_key, now) = drawn in do {
     cr <- expect (creator_new (lit ''test.com'') (crypto_new E random_key));
     w <- expect (create C P E now cr (as_bytes (lit ''Hello World'')));
     expect (as_byte_array C P w)
   })"

text \<open>
  What has to be read to produce each status. \<open>draw\<close> gives the key and the moment of the
  first and the second envelope made for a status.
\<close>

datatype parse_case =
    Bytes bytes parse_status
  | Text str
  | CannotBeProduced

fun case_for ::
    "'t chrono \<Rightarrow> platform \<Rightarrow> ('sk, 'vk, 'sg) p256 \<Rightarrow> (parse_status \<Rightarrow> bool \<Rightarrow> 'sk \<times> 't)
     \<Rightarrow> parse_status \<Rightarrow> parse_case option" where
  "case_for C P E draw Parsed = do {
     bs <- signed_envelope C P E (draw Parsed True);
     Some (Bytes bs Parsed)
   }"
| "case_for C P E draw MissingInput = Some (Bytes [] MissingInput)"
| "case_for C P E draw InvalidBase64 = Some (Text (lit ''not base 64!''))"
| "case_for C P E draw parse_status.UnsupportedVersion =
     Some (Bytes [9, 9, 9] parse_status.UnsupportedVersion)"
| "case_for C P E draw AbsentNode = Some (Bytes [0] AbsentNode)"
| "case_for C P E draw UnexpectedEnd = Some (Bytes [3, 97, 98] UnexpectedEnd)"
| "case_for C P E draw InvalidDomainEncoding = (
     let bs = [3, 0xFF, 0xFE, 0];
         bs = bs @ to_le_bytes 1000;
         bs = bs @ to_le_bytes 0;
         bs = bs @ replicate SIGNATURE_LENGTH 0x99
     in Some (Bytes bs InvalidDomainEncoding))"
| "case_for C P E draw ByteCountMismatch = do {
     bs <- signed_envelope C P E (draw ByteCountMismatch True);
     Some (Bytes (bs @ [0]) Parsed)
   }"
| "case_for C P E draw parse_status.ImplementationCapacityExceeded = Some CannotBeProduced"
| "case_for C P E draw MalformedEnvelope = Some CannotBeProduced"

definition check_parse_case ::
    "'t chrono \<Rightarrow> platform \<Rightarrow> ('sk, 'vk, 'sg) p256 \<Rightarrow> base64
     \<Rightarrow> (parse_status \<Rightarrow> bool \<Rightarrow> 'sk \<times> 't) \<Rightarrow> parse_status \<Rightarrow> parse_case \<Rightarrow> unit option" where
  "check_parse_case C P E B draw status c =
     (case c of
       Bytes bs framed \<Rightarrow> do {
         result <- looked_at (from_byte_array C P bs);
         assert_that (parse_status_of result = Some status);
         assert_that (is_ok result \<longleftrightarrow> status = Parsed);
         framed_result <- looked_at (read_from_prefix C P bs);
         assert_that (of_frame framed_result = Some framed);
         assert_that (is_ok framed_result \<longleftrightarrow> framed = Parsed \<or> framed = AbsentNode);
         (case framed_result of
            Ok (z, _) \<Rightarrow> assert_that (z \<noteq> None \<longleftrightarrow> framed = Parsed)
          | _ \<Rightarrow> Some ())
       }
     | Text v \<Rightarrow> do {
         result <- looked_at (from_base64 C P B v);
         assert_that (parse_status_of result = Some status);
         assert_that (is_err result)
       }
     | CannotBeProduced \<Rightarrow> do {
         trailing <- signed_envelope C P E (draw status True);
         envelope <- signed_envelope C P E (draw status False);
         for_each [[], [0], envelope, trailing @ [0]] (\<lambda>bs. do {
           whole <- parse_status_of (from_byte_array C P bs);
           framed <- of_frame (read_from_prefix C P bs);
           for_each [whole, framed] (\<lambda>reported. assert_that (reported \<noteq> status))
         })
       })"

definition every_parse_status_has_a_case ::
    "'t chrono \<Rightarrow> platform \<Rightarrow> ('sk, 'vk, 'sg) p256 \<Rightarrow> base64
     \<Rightarrow> (parse_status \<Rightarrow> bool \<Rightarrow> 'sk \<times> 't) \<Rightarrow> unit option" where
  "every_parse_status_has_a_case C P E B draw =
     for_each [Parsed, MissingInput, InvalidBase64, parse_status.UnsupportedVersion, AbsentNode,
       UnexpectedEnd, InvalidDomainEncoding, ByteCountMismatch,
       parse_status.ImplementationCapacityExceeded, MalformedEnvelope] (\<lambda>status. do {
     c <- case_for C P E draw status;
     check_parse_case C P E B draw status c
   })"

section \<open>Lemmas\<close>

lemma status_name_tests_pass:
  "parse_status_names_are_the_cross_language_ones = Some ()"
  "signature_status_names_are_the_cross_language_ones = Some ()"
  by (simp_all add: parse_status_names_are_the_cross_language_ones_def
      signature_status_names_are_the_cross_language_ones_def)

lemma every_signature_status_is_mapped_passes:
  "every_signature_status_is_mapped_from_the_outcome_that_means_it = Some ()"
  by (simp add: every_signature_status_is_mapped_from_the_outcome_that_means_it_def)

text \<open>An envelope made for a test, alone and followed by a byte.\<close>

lemma signed_envelope_result:
  assumes "dates_ok C" "ample P" "signatures_ok E" "date_in_range C Version3 now"
  obtains bs w where "signed_envelope C P E (k, now) = Some bs"
    "from_byte_array C P bs = Ok w" "read_from_prefix C P bs = Ok (Some w, [])"
    "parse_status_of (from_byte_array C P (bs @ [0])) = Some ByteCountMismatch"
    "\<not> is_ok (from_byte_array C P (bs @ [0]))" "from_byte_array C P (bs @ [0]) \<noteq> Panic"
    "read_from_prefix C P (bs @ [0]) = Ok (Some w, [0])"
proof -
  let ?w = "fresh_owid C E k now (lit ''test.com'') Version3 (as_bytes (lit ''Hello World''))"
  have d: "trim (lit ''test.com'') \<noteq> []" "valid_domain (lit ''test.com'')"
    using ascii_domain [of "lit ''test.com''"]
    by (simp_all add: valid_domain_def MAXIMUM_DOMAIN_LENGTH_def) (simp_all add: lit_def)
  then have new: "creator_new (lit ''test.com'') (crypto_new E k) = Ok (fresh_creator E k (lit ''test.com''))"
    by (intro creator_new_fresh) (simp_all add: valid_domain_def)
  note made = fresh_owid_made [OF assms(1-3) _ d(2) assms(4), of "as_bytes (lit ''Hello World'')" k]
  have bs: "signed_envelope C P E (k, now) = Some (enc_owid C ?w)"
    using made new example_payload by (simp add: signed_envelope_def create_def version_default_def)
  have read: "from_byte_array C P (enc_owid C ?w) = Ok (wire_form C ?w)" using made(3) example_payload by simp
  then have v: "valid_owid C (wire_form C ?w)" "fits P (wire_form C ?w)"
    and e: "enc_owid C ?w = enc_owid C (wire_form C ?w)"
    using parse_exact_Ok_iff [OF assms(1)] by (auto simp: from_byte_array_def)
  show thesis
    using that [OF bs read] trailing_refused [OF assms(1) v(1), of "[0]" P]
      parse_prefix_enc [OF assms(1) v, of "[]"] parse_prefix_enc [OF assms(1) v, of "[0]"]
    by (simp add: e read_from_prefix_def parse_status_of_def fail_with_def)
qed

text \<open>The inputs that are refused for what they start with.\<close>

lemma small_inputs:
  "from_byte_array C P [] = fail MissingInput" "read_from_prefix C P [] = fail MissingInput"
  "from_byte_array C P [9, 9, 9] = fail_with parse_status.UnsupportedVersion (VersionByte 9)"
  "read_from_prefix C P [9, 9, 9] = fail_with parse_status.UnsupportedVersion (VersionByte 9)"
  "from_byte_array C P [0] = fail AbsentNode" "read_from_prefix C P [0] = Ok (None, [])"
proof -
  have "version_try_from 9 = Err (error.UnsupportedVersion 9)" by (simp add: version_try_from_def)
  then show "from_byte_array C P [9, 9, 9] = fail_with parse_status.UnsupportedVersion (VersionByte 9)"
    "read_from_prefix C P [9, 9, 9] = fail_with parse_status.UnsupportedVersion (VersionByte 9)"
    by (simp_all add: from_byte_array_def read_from_prefix_def parse_exact_def parse_one_unsupported
        parse_prefix_unsupported)
qed (simp_all add: from_byte_array_def read_from_prefix_def parse_exact_def parse_one_Nil
    parse_prefix_Nil parse_one_Empty parse_prefix_marker)

text \<open>The inputs whose domain is refused.\<close>

lemma domain_inputs:
  assumes "dates_ok C"
  shows "read_domain bs = fail_with s d \<Longrightarrow> from_byte_array C P (3 # bs) = fail_with s d"
    and "read_domain bs = fail_with s d \<Longrightarrow> read_from_prefix C P (3 # bs) = fail_with s d"
proof -
  assume "read_domain bs = fail_with s d"
  then have one: "parse_one C P (3 # bs) ext = fail_with s d" for ext
    using parse_one_steps [of Version3 C P bs ext] by simp
  then show "from_byte_array C P (3 # bs) = fail_with s d"
    by (simp add: from_byte_array_def parse_exact_def)
  show "read_from_prefix C P (3 # bs) = fail_with s d"
    using one parse_prefix_envelope [OF assms, of Version3 P bs] by (simp add: read_from_prefix_def)
qed

lemma damaged_domains:
  "read_domain [97, 98] = fail_with UnexpectedEnd (Field (lit ''the creator domain''))"
  "read_domain (0xFF # 0xFE # 0 # rest)
    = fail_with InvalidDomainEncoding (Field (lit ''the creator domain''))"
proof -
  show "read_domain [97, 98] = fail_with UnexpectedEnd (Field (lit ''the creator domain''))"
    by (simp add: read_domain_cases MAXIMUM_DOMAIN_LENGTH_def)
  have "position (\<lambda>b. b = 0) (take (MAXIMUM_DOMAIN_LENGTH + 1) (0xFF # 0xFE # 0 # rest)) = Some 2"
    by (simp add: MAXIMUM_DOMAIN_LENGTH_def)
  moreover have "from_utf8 (take 2 (0xFF # 0xFE # 0 # rest)) = None"
    by (subst from_utf8.simps) simp
  ultimately show "read_domain (0xFF # 0xFE # 0 # rest)
      = fail_with InvalidDomainEncoding (Field (lit ''the creator domain''))"
    by (simp only: read_domain_cases option.case)
qed

text \<open>A case of bytes that both reads refuse with one status.\<close>

lemma refused_case:
  assumes "from_byte_array C P bs = Err (ParseError status d)" "read_from_prefix C P bs = Err (ParseError status d)"
    and "status \<noteq> Parsed" "status \<noteq> AbsentNode"
  shows "check_parse_case C P E B draw status (Bytes bs status) = Some ()"
  using assms by (simp add: check_parse_case_def parse_status_of_def of_frame_def is_ok_iff)

lemma every_parse_status_has_a_case_passes:
  assumes "dates_ok C" "ample P" "signatures_ok E" "b64_decode B (lit ''not base 64!'') = None"
    and "\<And>status n. date_in_range C Version3 (snd (draw status n))"
  shows "every_parse_status_has_a_case C P E B draw = Some ()"
proof -
  let ?check = "check_parse_case C P E B draw"
  have made: "\<exists>bs w. signed_envelope C P E (draw status n) = Some bs
      \<and> from_byte_array C P bs = Ok w \<and> read_from_prefix C P bs = Ok (Some w, [])
      \<and> parse_status_of (from_byte_array C P (bs @ [0])) = Some ByteCountMismatch
      \<and> \<not> is_ok (from_byte_array C P (bs @ [0])) \<and> from_byte_array C P (bs @ [0]) \<noteq> Panic
      \<and> read_from_prefix C P (bs @ [0]) = Ok (Some w, [0])" for status n
    using signed_envelope_result [OF assms(1-3), of "snd (draw status n)" "fst (draw status n)"] assms(5)
    by (metis prod.collapse)
  have whole: "\<exists>bs. signed_envelope C P E (draw Parsed n) = Some bs \<and> ?check Parsed (Bytes bs Parsed) = Some ()" for n
    using made [of Parsed n] by (auto simp: check_parse_case_def parse_status_of_def of_frame_def)
  have followed: "\<exists>bs. signed_envelope C P E (draw ByteCountMismatch n) = Some bs
      \<and> ?check ByteCountMismatch (Bytes (bs @ [0]) Parsed) = Some ()" for n
    using made [of ByteCountMismatch n]
    by (cases "from_byte_array C P (the (signed_envelope C P E (draw ByteCountMismatch n)) @ [0])")
      (auto simp: check_parse_case_def of_frame_def parse_status_of_def)
  have never: "?check status CannotBeProduced = Some ()"
    if "status = parse_status.ImplementationCapacityExceeded \<or> status = MalformedEnvelope" for status
    using made [of status True] made [of status False] that
    by (auto simp: check_parse_case_def small_inputs fail_def parse_status_of_def of_frame_def)
  have empty: "?check AbsentNode (Bytes [0] AbsentNode) = Some ()"
    by (simp add: check_parse_case_def small_inputs fail_def parse_status_of_def of_frame_def)
  have not_text: "?check InvalidBase64 (Text (lit ''not base 64!'')) = Some ()"
    using assms(4) by (simp add: check_parse_case_def from_base64_def parse_status_of_def lit_def)
  note refused = refused_case [of C P _ _ _ E B draw]
  have "?check MissingInput (Bytes [] MissingInput) = Some ()"
    "?check parse_status.UnsupportedVersion (Bytes [9, 9, 9] parse_status.UnsupportedVersion) = Some ()"
    by (rule refused; simp add: small_inputs fail_def fail_with_def)+
  moreover have "?check UnexpectedEnd (Bytes [3, 97, 98] UnexpectedEnd) = Some ()"
    "?check InvalidDomainEncoding (Bytes (3 # 0xFF # 0xFE # 0 # rest) InvalidDomainEncoding) = Some ()" for rest
    using domain_inputs [OF assms(1) damaged_domains(1), of P] domain_inputs [OF assms(1) damaged_domains(2), of P]
    by (intro refused; simp add: fail_with_def)+
  ultimately show ?thesis
    using whole [of True] followed [of True] never empty not_text
    by (auto simp: every_parse_status_has_a_case_def)
qed

end
