(* ===== verification/FormatTests.thy ===== *)
theory FormatTests
  imports Assertions
begin

text \<open>
  The unit tests of the binary format, the keys and the creator (the \<open>tests\<close> modules of
  src/src/io.rs, src/src/crypto.rs and src/src/creator.rs). Each is shown to pass not for one
  key at one moment, as running it does, but for any key of a scheme that keeps its laws, at
  any moment the format can hold.
\<close>

section \<open>The writers and their readers\<close>

text \<open>\<open>date_naive\<close> is the calendar date of a moment, a function of chrono.\<close>

definition date_roundtrip_version_2 :: "'t chrono \<Rightarrow> ('t \<Rightarrow> 'day) \<Rightarrow> 't \<Rightarrow> unit option" where
  "date_roundtrip_version_2 C date_naive now = do {
     buffer <- expect_written (write_date C [] now Version2);
     result <- expect (read_date C buffer Version2);
     assert_that (date_naive result = date_naive now);
     assert_that (num_minutes C result (base_date C) = num_minutes C now (base_date C))
   }"

definition date_roundtrip_version_1 :: "'t chrono \<Rightarrow> unit option" where
  "date_roundtrip_version_1 C = do {
     date <- add_hours C (base_date C) 12345;
     buffer <- expect_written (write_date C [] date Version1);
     assert_that (length buffer = 2);
     result <- expect (read_date C buffer Version1);
     assert_that (result = date)
   }"

definition date_before_base_errors :: "'t chrono \<Rightarrow> unit option" where
  "date_before_base_errors C = do {
     date <- add_minutes C (base_date C) (- 1);
     result <- looked_at (fst (write_date C [] date Version3));
     assert_that (result = Err DateOutOfRange)
   }"

definition string_roundtrip :: "unit option" where
  "string_roundtrip = do {
     buffer <- expect_written (write_domain [] (lit ''example.com''));
     assert_that (buffer \<noteq> [] \<and> last buffer = 0);
     (result, used) <- expect (read_domain buffer);
     assert_that (result = lit ''example.com'');
     assert_that (used = length buffer)
   }"

definition write_domain_accepts_maximum_length :: "unit option" where
  "write_domain_accepts_maximum_length = (
     let v = replicate MAXIMUM_DOMAIN_LENGTH 97 in do {
     buffer <- expect_written (write_domain [] v);
     (result, _) <- expect (read_domain buffer);
     assert_that (result = v)
   })"

definition write_domain_over_maximum_is_refused :: "unit option" where
  "write_domain_over_maximum_is_refused = (
     let v = replicate (MAXIMUM_DOMAIN_LENGTH + 1) 97;
         (result, buffer) = write_domain [] v in do {
     e <- expect_err result;
     assert_that (e = DomainTooLong);
     assert_that (buffer = [])
   })"

definition u32_little_endian :: "unit option" where
  "u32_little_endian = (
     let buffer = write_u32 [] 0x0A242B01 in do {
     assert_that (buffer = [0x01, 0x2B, 0x24, 0x0A]);
     b0 <- get buffer 0; b1 <- get buffer 1; b2 <- get buffer 2; b3 <- get buffer 3;
     assert_that (from_le_bytes b0 b1 b2 b3 = 0x0A242B01)
   })"

section \<open>Keys\<close>

definition TEST_PAYLOAD :: bytes where
  "TEST_PAYLOAD = as_bytes (lit ''test'')"

definition invalid_public_pem :: "('sk, 'vk, 'sg) p256 \<Rightarrow> unit option" where
  "invalid_public_pem E = do {
     result <- looked_at (new_verify_only E (lit ''invalid''));
     assert_that (is_err result)
   }"

definition invalid_private_pem :: "('sk, 'vk, 'sg) p256 \<Rightarrow> unit option" where
  "invalid_private_pem E = do {
     result <- looked_at (new_sign_only E (lit ''invalid''));
     assert_that (is_err result)
   }"

definition empty_public_pem :: "('sk, 'vk, 'sg) p256 \<Rightarrow> unit option" where
  "empty_public_pem E = do {
     result <- looked_at (new_verify_only E []);
     assert_that (case result of Err (Key _) \<Rightarrow> True | _ \<Rightarrow> False)
   }"

definition empty_private_pem :: "('sk, 'vk, 'sg) p256 \<Rightarrow> unit option" where
  "empty_private_pem E = do {
     result <- looked_at (new_sign_only E []);
     assert_that (case result of Err (Key _) \<Rightarrow> True | _ \<Rightarrow> False)
   }"

definition sign_and_verify_via_pem :: "('sk, 'vk, 'sg) p256 \<Rightarrow> 'sk \<Rightarrow> unit option" where
  "sign_and_verify_via_pem E random_key = (
     let crypto = crypto_new E random_key in do {
     private_pem <- expect (private_key_pem E crypto);
     public_pem <- expect (public_key_pem E crypto);
     signer <- expect (new_sign_only E private_pem);
     verifier <- expect (new_verify_only E public_pem);
     signature <- expect (sign_byte_array E signer TEST_PAYLOAD);
     valid <- expect (verify_byte_array E verifier TEST_PAYLOAD signature);
     assert_that valid
   })"

definition verify_only_cannot_sign :: "('sk, 'vk, 'sg) p256 \<Rightarrow> 'sk \<Rightarrow> unit option" where
  "verify_only_cannot_sign E random_key = (
     let crypto = crypto_new E random_key in do {
     public_pem <- expect (public_key_pem E crypto);
     verifier <- expect (new_verify_only E public_pem);
     result <- looked_at (sign_byte_array E verifier TEST_PAYLOAD);
     assert_that (case result of Err (KeyMissing _) \<Rightarrow> True | _ \<Rightarrow> False)
   })"

definition wrong_length_signature_errors :: "('sk, 'vk, 'sg) p256 \<Rightarrow> 'sk \<Rightarrow> unit option" where
  "wrong_length_signature_errors E random_key = (
     let crypto = crypto_new E random_key in do {
     result <- looked_at (verify_byte_array E crypto TEST_PAYLOAD (replicate 63 0));
     assert_that (result = Err (error.InvalidSignatureLength 63))
   })"

section \<open>The creator\<close>

text \<open>The loop of \<open>domain_of_length\<close>, from the text it has built so far. 46 is the dot.\<close>

function labels :: "nat \<Rightarrow> str \<Rightarrow> str" where
  "labels n v =
     (if length (as_bytes v) < n then
        let v = (if v \<noteq> [] then v @ [46] else v);
            label = min (n - length (as_bytes v)) 63
        in labels n (v @ replicate label 97)
      else v)"
  by auto
termination
  by (relation "measure (\<lambda>(n, v). n - length (as_bytes v))")
    (auto simp: as_bytes_def encode_char_def Let_def)

declare labels.simps [simp del]

definition domain_of_length :: "nat \<Rightarrow> str option" where
  "domain_of_length n = (
     let v = labels n [] in do {
     assert_that (length (as_bytes v) = n);
     Some v
   })"

definition domain_of_maximum_length_is_accepted ::
    "'t chrono \<Rightarrow> platform \<Rightarrow> ('sk, 'vk, 'sg) p256 \<Rightarrow> 'sk \<Rightarrow> 't \<Rightarrow> unit option" where
  "domain_of_maximum_length_is_accepted C P E random_key now = do {
     domain <- domain_of_length MAXIMUM_DOMAIN_LENGTH;
     cr <- expect (creator_new domain (crypto_new E random_key));
     w <- expect (create C P E now cr (as_bytes (lit ''Hello World'')));
     bs <- expect (as_byte_array C P w);
     parsed <- expect (from_byte_array C P bs);
     assert_that (owid_domain parsed = domain);
     assert_that (owid_payload parsed = owid_payload w)
   }"

definition deprecated_versions_round_trip ::
    "'t chrono \<Rightarrow> platform \<Rightarrow> ('sk, 'vk, 'sg) p256 \<Rightarrow> base64 \<Rightarrow> 'sk \<Rightarrow> (version \<Rightarrow> 't) \<Rightarrow> unit option" where
  "deprecated_versions_round_trip C P E B random_key now = (
     let crypto = crypto_new E random_key in do {
     cr <- expect (creator_new (lit ''test.com'') crypto);
     for_each [Version1, Version2] (\<lambda>version. do {
       w <- expect (create_version C P E (now version) cr version (as_bytes (lit ''Hello World'')));
       encoded <- expect (as_base64 C P B w);
       copy <- expect (from_base64 C P B encoded);
       assert_that (owid_version copy = version);
       assert_that (owid_domain copy = owid_domain w);
       assert_that (owid_payload copy = owid_payload w);
       assert_that (owid_signature copy = owid_signature w);
       verifies <- expect (verify_with_crypto C P E copy crypto);
       assert_that verifies
     })
   })"

definition domain_over_maximum_is_refused :: "('sk, 'vk, 'sg) p256 \<Rightarrow> 'sk \<Rightarrow> unit option" where
  "domain_over_maximum_is_refused E random_key = do {
     domain <- domain_of_length (MAXIMUM_DOMAIN_LENGTH + 1);
     e <- expect_err (creator_new domain (crypto_new E random_key));
     assert_that (e = DomainTooLong);
     let expected = lit ''domain field exceeds the '' @ quoted (decimal MAXIMUM_DOMAIN_LENGTH)
           @ lit '' character maximum'';
     assert_that (error_to_string e = expected)
   }"

definition domain_is_refused_before_the_key_is_examined ::
    "('sk, 'vk, 'sg) p256 \<Rightarrow> 'sk \<Rightarrow> unit option" where
  "domain_is_refused_before_the_key_is_examined E random_key = do {
     public_pem <- expect (public_key_pem E (crypto_new E random_key));
     verify_only <- expect (new_verify_only E public_pem);
     assert_that (\<not> can_sign verify_only);
     domain <- domain_of_length (MAXIMUM_DOMAIN_LENGTH + 1);
     e <- expect_err (creator_new domain verify_only);
     assert_that (e = DomainTooLong)
   }"

definition configuration_with_long_domain_is_refused ::
    "('sk, 'vk, 'sg) p256 \<Rightarrow> 'sk \<Rightarrow> unit option" where
  "configuration_with_long_domain_is_refused E random_key = (
     let crypto = crypto_new E random_key in do {
     domain <- domain_of_length (MAXIMUM_DOMAIN_LENGTH + 1);
     private_pem <- expect (private_key_pem E crypto);
     let configuration = \<lparr> conf_domain = domain, conf_private_key = private_pem, conf_public_key = None \<rparr>;
     e <- expect_err (from_configuration E configuration);
     assert_that (e = DomainTooLong)
   })"

definition empty_domain_is_still_invalid_domain :: "('sk, 'vk, 'sg) p256 \<Rightarrow> 'sk \<Rightarrow> unit option" where
  "empty_domain_is_still_invalid_domain E random_key = do {
     e <- expect_err (creator_new (lit ''   '') (crypto_new E random_key));
     assert_that (e = InvalidDomain (lit ''   ''))
   }"

section \<open>Lemmas\<close>

text \<open>The dates and the domain.\<close>

lemma date_tests_pass:
  assumes "dates_ok C"
  shows "date_in_range C Version2 now
      \<Longrightarrow> (\<And>d. add_minutes C (base_date C) (num_minutes C now (base_date C)) = Some d \<Longrightarrow> day d = day now)
      \<Longrightarrow> date_roundtrip_version_2 C day now = Some ()"
    and "date_roundtrip_version_1 C = Some ()"
    and "add_minutes C (base_date C) (- 1) = Some before \<Longrightarrow> num_minutes C before (base_date C) = - 1
      \<Longrightarrow> date_before_base_errors C = Some ()"
proof -
  assume now: "date_in_range C Version2 now"
    and day: "\<And>d. add_minutes C (base_date C) (num_minutes C now (base_date C)) = Some d \<Longrightarrow> day d = day now"
  then obtain d where d: "add_minutes C (base_date C) (num_minutes C now (base_date C)) = Some d"
    "num_minutes C d (base_date C) = num_minutes C now (base_date C)"
    using dates_ok_minutes [OF assms, of "num_minutes C now (base_date C)"] by auto
  from wire_date_valid [OF assms now] have
    "read_date C (enc_date C Version2 now @ []) Version2 = Ok (wire_date C Version2 now)"
    using read_date_enc [OF assms] by metis
  with d day [OF d(1)] now show "date_roundtrip_version_2 C day now = Some ()"
    by (simp add: date_roundtrip_version_2_def write_date_result)
next
  obtain d where d: "add_hours C (base_date C) 12345 = Some d" "num_hours C d (base_date C) = 12345"
    using dates_ok_hours [OF assms, of 12345] by auto
  then have "add_hours C (base_date C) (uint (12345 :: u16)) = Some d" by simp
  then have valid: "valid_date C Version1 d" unfolding valid_date.simps by blast
  moreover have "date_in_range C Version1 d" using d by simp
  ultimately show "date_roundtrip_version_1 C = Some ()"
    using read_date_enc [OF assms valid, of "[]"] d(1)
    using length_enc_date [of C Version1 d]
    by (simp add: date_roundtrip_version_1_def write_date_result del: enc_date.simps length_enc_date)
qed (simp add: date_before_base_errors_def minutes_since_base_def u32_try_from_def)

lemma letters:
  "length (as_bytes (replicate n 97)) = n" "is_text (replicate n 97)" "0 \<notin> set (replicate n (97 :: nat))"
  by (simp_all add: as_bytes_ascii is_text_def scalar_def)

lemma not_valid_longest: "\<not> valid_domain (replicate (MAXIMUM_DOMAIN_LENGTH + 1) 97)"
  using letters by (simp add: valid_domain_def)

lemma domain_tests_pass:
  "string_roundtrip = Some ()" "write_domain_accepts_maximum_length = Some ()"
  "write_domain_over_maximum_is_refused = Some ()"
proof -
  have read: "read_domain (enc_domain d) = Ok (d, length (enc_domain d))" if "valid_domain d" for d
    using read_domain_enc [OF that, of "[]"] by simp
  show "string_roundtrip = Some ()"
    using read [OF example_domain(3)] example_domain
    by (simp add: string_roundtrip_def write_domain_valid) (simp add: enc_domain_def)
  have "valid_domain (replicate MAXIMUM_DOMAIN_LENGTH 97)"
    using letters by (simp add: valid_domain_def)
  then show "write_domain_accepts_maximum_length = Some ()"
    by (simp add: write_domain_accepts_maximum_length_def write_domain_valid read Let_def)
  have "write_domain [] (replicate (MAXIMUM_DOMAIN_LENGTH + 1) 97) = (Err DomainTooLong, [])"
    using not_valid_longest
    by (simp only: write_domain_result [OF letters(2)] letters(3) if_False if_True simp_thms)
  then show "write_domain_over_maximum_is_refused = Some ()"
    by (simp only: write_domain_over_maximum_is_refused_def Let_def prod.case) simp
qed

lemma u32_little_endian_passes: "u32_little_endian = Some ()"
  by (simp add: u32_little_endian_def write_u32_def to_le_bytes_def Let_def get_def from_le_bytes_def)

text \<open>Keys. What is relied on of the PEM forms: an exported key is read back as itself.\<close>

definition private_pem_ok :: "('sk, 'vk, 'sg) p256 \<Rightarrow> bool" where
  "private_pem_ok E \<longleftrightarrow>
     (\<forall>k p. to_pkcs8_pem E k = Inr p \<longrightarrow> from_pkcs8_pem E p = Inr k \<and> trim p \<noteq> [])"

lemma refused_pem_tests_pass:
  "from_public_key_pem E (lit ''invalid'') = Inl e \<Longrightarrow> invalid_public_pem E = Some ()"
  "from_pkcs8_pem E (lit ''invalid'') = Inl e' \<Longrightarrow> from_sec1_pem E (lit ''invalid'') = Inl e''
    \<Longrightarrow> invalid_private_pem E = Some ()"
  "empty_public_pem E = Some ()" "empty_private_pem E = Some ()"
proof -
  have "trim (lit ''invalid'') \<noteq> []" by (simp add: lit_def is_whitespace_def)
  then show "from_public_key_pem E (lit ''invalid'') = Inl e \<Longrightarrow> invalid_public_pem E = Some ()"
    "from_pkcs8_pem E (lit ''invalid'') = Inl e' \<Longrightarrow> from_sec1_pem E (lit ''invalid'') = Inl e''
      \<Longrightarrow> invalid_private_pem E = Some ()"
    by (simp_all add: invalid_public_pem_def invalid_private_pem_def new_verify_only_def new_sign_only_def)
qed (simp_all add: empty_public_pem_def empty_private_pem_def new_verify_only_def new_sign_only_def trim_def)

lemma exported_keys:
  assumes "public_pem_ok E" "to_public_key_pem E (verifying_key_of E k) = Inr pem"
  shows "public_key_pem E (crypto_new E k) = Ok pem"
    and "new_verify_only E pem = Ok \<lparr> signing_key = None, verifying_key = Some (verifying_key_of E k) \<rparr>"
  using assms by (simp_all add: public_key_pem_def subject_public_key_info_def crypto_new_def
      new_verify_only_def public_pem_ok_def)

lemma exported_private_keys:
  assumes "private_pem_ok E" "to_pkcs8_pem E k = Inr pem"
  shows "private_key_pem E (crypto_new E k) = Ok pem"
    and "new_sign_only E pem = Ok (crypto_new E k)"
  using assms by (simp_all add: private_key_pem_def crypto_new_def new_sign_only_def private_pem_ok_def)

lemma crypto_tests_pass:
  assumes "signatures_ok E" "public_pem_ok E" "to_public_key_pem E (verifying_key_of E k) = Inr pem"
  shows "private_pem_ok E \<Longrightarrow> to_pkcs8_pem E k = Inr p \<Longrightarrow> sign_and_verify_via_pem E k = Some ()"
    and "verify_only_cannot_sign E k = Some ()"
    and "wrong_length_signature_errors E k = Some ()"
proof -
  note pub = exported_keys [OF assms(2,3)]
  assume "private_pem_ok E" "to_pkcs8_pem E k = Inr p"
  note priv = exported_private_keys [OF this]
  show "sign_and_verify_via_pem E k = Some ()"
    using assms(1) verify_byte_array_signed [OF assms(1), of None k TEST_PAYLOAD]
    by (simp add: sign_and_verify_via_pem_def pub priv sign_byte_array_def signatures_ok_def
        SIGNATURE_LENGTH_def) (simp add: crypto_new_def)
next
  show "verify_only_cannot_sign E k = Some ()"
    by (simp add: verify_only_cannot_sign_def exported_keys [OF assms(2,3)] sign_byte_array_def)
qed (simp add: wrong_length_signature_errors_def verify_byte_array_def crypto_new_def SIGNATURE_LENGTH_def)

text \<open>The domain built for a length: of that length, and a domain in shape.\<close>

lemma labels_result:
  assumes "length v \<le> n" "set v \<subseteq> {46, 97}"
  shows "length (labels n v) = n \<and> set (labels n v) \<subseteq> {46, 97}"
  using assms
proof (induction n v rule: labels.induct)
  case (1 n v)
  have bytes: "length (as_bytes w) = length w" if "set w \<subseteq> {46, 97}" for w
    using that by (subst as_bytes_ascii) auto
  let ?v = "if v \<noteq> [] then v @ [46] else v"
  let ?label = "min (n - length (as_bytes ?v)) 63"
  have v: "set ?v \<subseteq> {46, 97}" using 1 by auto
  show ?case
  proof (cases "length (as_bytes v) < n")
    case True
    with 1(2,3) v bytes have "length (?v @ replicate ?label 97) \<le> n" by auto
    moreover have "set (?v @ replicate ?label 97) \<subseteq> {46, 97}" using v by auto
    ultimately show ?thesis
      using 1(1) [OF True refl refl] True by (simp add: labels.simps [of n v] Let_def)
  next
    case False
    with 1 bytes show ?thesis by (simp add: labels.simps [of n v])
  qed
qed

lemma domain_of_length:
  assumes "0 < n"
  obtains d where "domain_of_length n = Some d" "is_text d" "0 \<notin> set d" "trim d \<noteq> []"
    "length (as_bytes d) = n"
proof -
  let ?d = "labels n []"
  have "length ?d = n" "set ?d \<subseteq> {46, 97}" using labels_result [of "[]" n] by auto
  with assms have d: "?d \<noteq> []" "\<forall>c \<in> set ?d. 32 < c \<and> c < 127" by auto
  note ascii_domain [OF d]
  with \<open>length ?d = n\<close> show thesis
    by (intro that [of ?d]) (simp_all add: domain_of_length_def assert_that_def Let_def)
qed

lemma long_domain_refused:
  assumes "domain_of_length (MAXIMUM_DOMAIN_LENGTH + 1) = Some d"
  shows "creator_new d c = Err DomainTooLong"
proof -
  have "0 < MAXIMUM_DOMAIN_LENGTH + 1" by simp
  from domain_of_length [OF this] obtain d' where
    "domain_of_length (MAXIMUM_DOMAIN_LENGTH + 1) = Some d'" "trim d' \<noteq> []"
    "length (as_bytes d') = MAXIMUM_DOMAIN_LENGTH + 1" by metis
  with assms show ?thesis by (simp add: creator_new_def)
qed

lemma creator_refusal_tests_pass:
  "domain_over_maximum_is_refused E k = Some ()"
  "empty_domain_is_still_invalid_domain E k = Some ()"
  "public_pem_ok E \<Longrightarrow> to_public_key_pem E (verifying_key_of E k) = Inr pem
    \<Longrightarrow> domain_is_refused_before_the_key_is_examined E k = Some ()"
  "private_pem_ok E \<Longrightarrow> to_pkcs8_pem E k = Inr p
    \<Longrightarrow> configuration_with_long_domain_is_refused E k = Some ()"
proof -
  have "0 < MAXIMUM_DOMAIN_LENGTH + 1" by simp
  from domain_of_length [OF this] obtain d where d: "domain_of_length (MAXIMUM_DOMAIN_LENGTH + 1) = Some d"
    by metis
  note refused = long_domain_refused [OF d]
  show "domain_over_maximum_is_refused E k = Some ()"
    using d by (simp add: domain_over_maximum_is_refused_def refused del: decimal.simps)
  show "public_pem_ok E \<Longrightarrow> to_public_key_pem E (verifying_key_of E k) = Inr pem
      \<Longrightarrow> domain_is_refused_before_the_key_is_examined E k = Some ()"
    using d by (simp add: domain_is_refused_before_the_key_is_examined_def exported_keys can_sign_def refused)
  show "private_pem_ok E \<Longrightarrow> to_pkcs8_pem E k = Inr p
      \<Longrightarrow> configuration_with_long_domain_is_refused E k = Some ()"
    using d by (simp add: configuration_with_long_domain_is_refused_def exported_private_keys Let_def
        from_configuration_def refused)
  show "empty_domain_is_still_invalid_domain E k = Some ()"
    by (simp add: empty_domain_is_still_invalid_domain_def creator_new_def lit_def is_whitespace_def)
qed

lemma creation_tests_pass:
  assumes "dates_ok C" "ample P" "signatures_ok E"
  shows "date_in_range C Version3 now \<Longrightarrow> domain_of_maximum_length_is_accepted C P E k now = Some ()"
    and "base64_ok B \<Longrightarrow> date_in_range C Version1 (moments Version1)
      \<Longrightarrow> date_in_range C Version2 (moments Version2)
      \<Longrightarrow> deprecated_versions_round_trip C P E B k moments = Some ()"
proof -
  assume now: "date_in_range C Version3 now"
  obtain d where d: "domain_of_length MAXIMUM_DOMAIN_LENGTH = Some d" "is_text d" "0 \<notin> set d" "trim d \<noteq> []"
    "length (as_bytes d) = MAXIMUM_DOMAIN_LENGTH"
    using domain_of_length [of MAXIMUM_DOMAIN_LENGTH] unfolding MAXIMUM_DOMAIN_LENGTH_def
    by (metis zero_less_numeral)
  then have "valid_domain d" by (simp add: valid_domain_def)
  note made = fresh_owid_made [OF assms _ this now, of "as_bytes (lit ''Hello World'')" k]
  show "domain_of_maximum_length_is_accepted C P E k now = Some ()"
    using d made example_payload
    by (simp add: domain_of_maximum_length_is_accepted_def creator_new_fresh create_def version_default_def)
next
  assume B: "base64_ok B" and now: "date_in_range C Version1 (moments Version1)"
    "date_in_range C Version2 (moments Version2)"
  have d: "trim (lit ''test.com'') \<noteq> []" "valid_domain (lit ''test.com'')"
    using ascii_domain [of "lit ''test.com''"]
    by (simp_all add: valid_domain_def MAXIMUM_DOMAIN_LENGTH_def) (simp_all add: lit_def)
  then have new: "creator_new (lit ''test.com'') (crypto_new E k) = Ok (fresh_creator E k (lit ''test.com''))"
    by (intro creator_new_fresh) (simp_all add: valid_domain_def)
  note made = fresh_owid_made [OF assms _ d(2), of _ _ "as_bytes (lit ''Hello World'')" k]
  note sent = fresh_owid_text [OF assms B _ d(2), of _ _ "as_bytes (lit ''Hello World'')" k]
  show "deprecated_versions_round_trip C P E B k moments = Some ()"
    using made(1,4) sent now example_payload
    by (simp add: deprecated_versions_round_trip_def new Let_def)
qed

end
