(* ===== verification/ServingTests.thy ===== *)
theory ServingTests
  imports Endpoints FormatTests "HOL-Library.Product_Lexorder"
begin

text \<open>
  The unit tests of a creator's side of key publication (the \<open>tests\<close> modules of
  src/src/schedule.rs, src/src/key_answer.rs and src/src/endpoints.rs). They pass for any keys
  of a scheme that exports them as PEM, on any calendar that orders its dates.
\<close>

section \<open>Dates and text\<close>

text \<open>
  \<open>Utc.with_ymd_and_hms\<close> and its \<open>unwrap\<close> are a function of chrono, from the year, month, day,
  hour, minute and second. February 29 is left out of what is relied on.
\<close>

type_synonym civil = "nat \<times> nat \<times> nat \<times> nat \<times> nat \<times> nat"

fun valid_civil :: "civil \<Rightarrow> bool" where
  "valid_civil (y, m, d, h, i, s) \<longleftrightarrow>
     2020 \<le> y \<and> y < 9999 \<and> 1 \<le> m \<and> m \<le> 12 \<and> 1 \<le> d
     \<and> d \<le> (if m = 2 then 28 else if m \<in> {4, 6, 9, 11} then 30 else 31)
     \<and> h < 24 \<and> i < 60 \<and> s < 60"

text \<open>Moments that are a whole count of minutes the format can hold.\<close>

definition on_minute :: "'t chrono \<Rightarrow> 't \<Rightarrow> bool" where
  "on_minute C t \<longleftrightarrow>
     0 \<le> num_minutes C t (base_date C) \<and> num_minutes C t (base_date C) < 2 ^ 32
     \<and> add_minutes C (base_date C) (num_minutes C t (base_date C)) = Some t"

definition civil_ok :: "('t :: linorder) chrono \<Rightarrow> (civil \<Rightarrow> 't) \<Rightarrow> bool" where
  "civil_ok C utc \<longleftrightarrow>
     (\<forall>a b. valid_civil a \<longrightarrow> valid_civil b \<longrightarrow> a < b \<longrightarrow> utc a < utc b)
     \<and> (\<forall>y m d h i. valid_civil (y, m, d, h, i, 0) \<longrightarrow> on_minute C (utc (y, m, d, h, i, 0)))"

text \<open>\<open>str::contains\<close>, and \<open>replacen\<close> of the first of a text that is not empty by nothing.\<close>

fun contains :: "str \<Rightarrow> str \<Rightarrow> bool" where
  "contains p [] \<longleftrightarrow> p = []"
| "contains p (c # cs) \<longleftrightarrow> take (length p) (c # cs) = p \<or> contains p cs"

fun remove_first :: "str \<Rightarrow> str \<Rightarrow> str" where
  "remove_first p [] = []"
| "remove_first p (c # cs) =
     (if take (length p) (c # cs) = p then drop (length p) (c # cs) else c # remove_first p cs)"

section \<open>The schedule\<close>

text \<open>\<open>at\<close> is midnight on a day of August 2026.\<close>

definition august :: "(civil \<Rightarrow> 't) \<Rightarrow> nat \<Rightarrow> 't" where
  "august utc day = utc (2026, 8, day, 0, 0, 0)"

definition chooses_the_latest_key_that_had_started :: "(civil \<Rightarrow> 't :: linorder) \<Rightarrow> unit option" where
  "chooses_the_latest_key_that_had_started utc = (
     let at = august utc;
         schedule = schedule_new [dated_public_key_new (at 31) (lit ''third''),
           dated_public_key_new (at 17) (lit ''first''), dated_public_key_new (at 24) (lit ''second'')] in do {
     key <- Option.bind (expect (key_in_force schedule (at 20))) (\<lambda>key. key);
     assert_that (dated_pem key = lit ''first'');
     key <- Option.bind (expect (key_in_force schedule (at 24))) (\<lambda>key. key);
     assert_that (dated_pem key = lit ''second'');
     key <- Option.bind (expect (key_in_force schedule (at 30))) (\<lambda>key. key);
     assert_that (dated_pem key = lit ''second'');
     none <- expect (key_in_force schedule (at 10));
     assert_that (none = None);
     oldest <- get (schedule_keys schedule) 0;
     assert_that (dated_pem oldest = lit ''first'')
   })"

definition knows_when_each_key_stops :: "(civil \<Rightarrow> 't :: linorder) \<Rightarrow> unit option" where
  "knows_when_each_key_stops utc = (
     let at = august utc;
         schedule = schedule_new [dated_public_key_new (at 17) (lit ''first''),
           dated_public_key_new (at 24) (lit ''second'')] in do {
     older <- get (schedule_keys schedule) 0;
     assert_that (next_start_after schedule older = Some (at 24));
     newer <- get (schedule_keys schedule) 1;
     assert_that (next_start_after schedule newer = None)
   })"

section \<open>The answer\<close>

text \<open>\<open>pem\<close>: the public key of a new key pair. \<open>fresh\<close> numbers the key pairs a test makes.\<close>

definition new_pem :: "('sk, 'vk, 'sg) p256 \<Rightarrow> 'sk \<Rightarrow> str option" where
  "new_pem E random_key = expect (public_key_pem E (crypto_new E random_key))"

definition quoted_field :: "string \<Rightarrow> str \<Rightarrow> str" where
  "quoted_field name v = [34] @ lit name @ [34, 58, 34] @ v"

definition writes_and_reads_the_same_answer ::
    "('t :: linorder) chrono \<Rightarrow> (civil \<Rightarrow> 't) \<Rightarrow> ('sk, 'vk, 'sg) p256 \<Rightarrow> (nat \<Rightarrow> 'sk) \<Rightarrow> unit option" where
  "writes_and_reads_the_same_answer C utc E fresh = do {
     pem <- new_pem E (fresh 0);
     let answer = published_answer_new pem (Some (utc (2026, 8, 31, 0, 0, 0))) (Some (utc (2026, 9, 7, 0, 0, 0)));
     let json = to_json C answer;
     assert_that (contains (quoted_field ''validFrom'' (lit ''2026-08-31T00:00:00Z'' @ [34])) json);
     assert_that (contains (quoted_field ''format'' (lit ''spki'' @ [34])) json);
     assert_that (contains (quoted_field ''publicKey'' (lit ''-----BEGIN'')) json);
     copy <- expect (parse_answer C json);
     assert_that (copy = answer);
     pem <- new_pem E (fresh 1);
     let spanless = published_answer_new pem None None;
     assert_that (contains ([34] @ lit ''validFrom'' @ [34, 58] @ lit ''null'') (to_json C spanless));
     copy <- expect (parse_answer C (to_json C spanless));
     assert_that (copy = spanless)
   }"

definition refuses_what_a_client_would_refuse ::
    "('t :: linorder) chrono \<Rightarrow> (civil \<Rightarrow> 't) \<Rightarrow> ('sk, 'vk, 'sg) p256 \<Rightarrow> (nat \<Rightarrow> 'sk) \<Rightarrow> unit option" where
  "refuses_what_a_client_would_refuse C utc E fresh = (
     let from = utc (2026, 8, 31, 0, 0, 0); to = utc (2026, 9, 7, 0, 0, 0) in do {
     r <- looked_at (validate E (published_answer_new (lit ''not a key'') None None :: 't published_answer) None);
     assert_that (is_err r);
     pem <- new_pem E (fresh 0);
     r <- looked_at (validate E (published_answer_new pem (Some to) (Some from)) None);
     assert_that (is_err r);
     pem <- new_pem E (fresh 1);
     r <- looked_at (validate E (published_answer_new pem None (Some to)) None);
     assert_that (is_err r);
     pem <- new_pem E (fresh 2);
     r <- looked_at (validate E (published_answer_new pem (Some from) (Some to)) (Some to));
     assert_that (is_err r);
     pem <- new_pem E (fresh 3);
     r <- looked_at (validate E (published_answer_new pem (Some to) None) (Some from));
     assert_that (is_err r);
     pem <- new_pem E (fresh 4);
     later <- add_hours C from 1;
     r <- looked_at (validate E (published_answer_new pem (Some from) (Some to)) (Some later));
     assert_that (is_ok r);
     pem <- new_pem E (fresh 5);
     r <- looked_at (parse_answer C pem);
     assert_that (is_err r)
   })"

definition a_format_other_than_spki_is_refused_and_an_absent_one_is_spki ::
    "('t :: linorder) chrono \<Rightarrow> ('sk, 'vk, 'sg) p256 \<Rightarrow> 'sk \<Rightarrow> unit option" where
  "a_format_other_than_spki_is_refused_and_an_absent_one_is_spki C E random_key = do {
     pem <- new_pem E random_key;
     let answer = (published_answer_new pem None None :: 't published_answer);
     assert_that (answer_format answer = SPKI_FORMAT);
     r <- looked_at (validate E answer None);
     assert_that (is_ok r);
     let without = remove_first (quoted_field ''format'' (lit ''spki'' @ [34, 44])) (to_json C answer);
     assert_that (\<not> contains (lit ''format'') without);
     copy <- expect (parse_answer C without);
     assert_that (copy = answer);
     let answer = answer\<lparr> answer_format := lit ''pkcs'' \<rparr>;
     assert_that (contains (quoted_field ''format'' (lit ''pkcs'' @ [34])) (to_json C answer));
     copy <- expect (parse_answer C (to_json C answer));
     assert_that (answer_format copy = lit ''pkcs'');
     r <- looked_at (validate E answer None);
     assert_that (is_err r)
   }"

section \<open>The end point\<close>

definition new_creator :: "('sk, 'vk, 'sg) p256 \<Rightarrow> 'sk \<Rightarrow> ('sk, 'vk) creator option" where
  "new_creator E random_key = expect (creator_new (lit ''example.com'') (crypto_new E random_key))"

definition public_key_response_formats ::
    "('t :: linorder) chrono \<Rightarrow> ('sk, 'vk, 'sg) p256 \<Rightarrow> 'sk \<Rightarrow> unit option" where
  "public_key_response_formats C E random_key = do {
     cr <- new_creator E random_key;
     for_each [Some (lit ''spki''), None] (\<lambda>format. do {
       json <- expect (public_key_response C E cr format);
       assert_that (contains (quoted_field ''format'' (lit ''spki'' @ [34])) json);
       answer <- expect (parse_answer C json);
       assert_that (answer_format answer = lit ''spki'');
       assert_that (valid_from answer = None \<and> valid_to answer = None);
       assert_that (contains (lit ''BEGIN PUBLIC KEY'') (answer_public_key answer))
     });
     for_each [lit ''pkcs'', lit ''other''] (\<lambda>other. do {
       r <- looked_at (public_key_response C E cr (Some other));
       assert_that (case r of Err (InvalidKeyFormat _) \<Rightarrow> True | _ \<Rightarrow> False)
     })
   }"

definition paths :: "unit option" where
  "paths = assert_that (public_key_path Version3 = lit ''/owid/api/v3/public-key'')"

definition response_at_states_the_span_and_is_checked_before_it_is_sent ::
    "('t :: linorder) chrono \<Rightarrow> (civil \<Rightarrow> 't) \<Rightarrow> ('sk, 'vk, 'sg) p256 \<Rightarrow> (nat \<Rightarrow> 'sk) \<Rightarrow> unit option" where
  "response_at_states_the_span_and_is_checked_before_it_is_sent C utc E fresh = (
     let week0 = utc (2026, 8, 24, 0, 0, 0); week1 = utc (2026, 8, 31, 0, 0, 0);
         week2 = utc (2026, 9, 7, 0, 0, 0) in do {
     pem0 <- new_pem E (fresh 0); pem1 <- new_pem E (fresh 1); pem2 <- new_pem E (fresh 2);
     let schedule = schedule_new [dated_public_key_new week0 pem0, dated_public_key_new week1 pem1,
       dated_public_key_new week2 pem2];
     let now = utc (2026, 9, 4, 20, 32, 0);
     minutes <- minutes_since_base C now;
     let minutes = decimal (unat minutes);
     (status, body) <- expect (public_key_response_at C E schedule (Some (lit ''spki'')) (Some minutes) now);
     assert_that (status = 200);
     answer <- expect (parse_answer C body);
     assert_that (answer_format answer = lit ''spki'');
     key <- get (schedule_keys schedule) 1;
     assert_that (answer_public_key answer = dated_pem key);
     assert_that (valid_from answer = Some week1);
     assert_that (valid_to answer = Some week2);
     let later = utc (2026, 9, 10, 0, 0, 0);
     (_, body) <- expect (public_key_response_at C E schedule None None later);
     answer <- expect (parse_answer C body);
     assert_that (valid_to answer = None);
     (status, _) <- expect (public_key_response_at C E schedule (Some (lit ''pkcs'')) (Some minutes) now);
     assert_that (status = 400);
     (status, _) <- expect (public_key_response_at C E schedule None (Some (lit ''nonsense'')) now);
     assert_that (status = 400);
     let early = utc (2026, 8, 1, 0, 0, 0);
     early <- minutes_since_base C early;
     (status, _) <- expect (public_key_response_at C E schedule None (Some (decimal (unat early))) now);
     assert_that (status = 404);
     r <- looked_at (public_key_answer C E (lit ''not a key'') None None None);
     assert_that (is_err r);
     pem <- new_pem E (fresh 3);
     r <- looked_at (public_key_answer C E pem (Some week1) (Some week0) None);
     assert_that (is_err r);
     pem <- new_pem E (fresh 4);
     r <- looked_at (public_key_answer C E pem (Some week1) None (Some week0));
     assert_that (is_err r)
   })"

section \<open>Lemmas\<close>

text \<open>Text.\<close>

lemma contains_inside: "contains p (a @ p @ b)"
proof (induction a)
  case Nil
  show ?case by (cases p; cases b) simp_all
qed (cases p; simp)

lemma contains_iff: "contains p s \<longleftrightarrow> (\<exists>a b. s = a @ p @ b)"
proof
  show "contains p s \<Longrightarrow> \<exists>a b. s = a @ p @ b"
  proof (induction s)
    case (Cons c cs)
    show ?case
    proof (cases "take (length p) (c # cs) = p")
      case True
      then have "c # cs = [] @ p @ drop (length p) (c # cs)" by (metis append_Nil append_take_drop_id)
      then show ?thesis by blast
    next
      case False
      with Cons obtain a b where "cs = a @ p @ b" by auto
      then have "c # cs = (c # a) @ p @ b" by simp
      then show ?thesis by blast
    qed
  qed simp
qed (auto intro: contains_inside)

lemma contains_append: "contains p x \<Longrightarrow> contains p (a @ x @ b)"
  unfolding contains_iff by (metis append.assoc)

lemma take_stops_before:
  assumes "c \<notin> set p" "length a < length p"
  shows "take (length p) (a @ c # b) \<noteq> p"
proof
  assume "take (length p) (a @ c # b) = p"
  moreover have "take (length p) (a @ c # b) ! length a = (a @ c # b) ! length a"
    using assms(2) by (rule nth_take)
  ultimately show False using assms nth_mem [of "length a" p] by (metis nth_append_length)
qed

lemma contains_split:
  assumes "c \<notin> set p" "p \<noteq> []"
  shows "contains p (a @ c # b) \<longleftrightarrow> contains p a \<or> contains p b"
proof (induction a)
  case Nil
  have "take (length p) (c # b) \<noteq> p" using take_stops_before [OF assms(1), of "[]" b] assms(2) by simp
  with assms(2) show ?case by simp
next
  case (Cons d a)
  have "take (length p) ((d # a) @ c # b) = p \<longleftrightarrow> take (length p) (d # a) = p"
  proof (cases "length (d # a) < length p")
    case True
    then have "take (length p) (d # a) \<noteq> p" by (metis nat_less_le take_all order_less_imp_le)
    with take_stops_before [OF assms(1) True, of b] show ?thesis by simp
  next
    case False
    then show ?thesis using take_append [of "length p" "d # a" "c # b"] by simp
  qed
  with Cons show ?case by simp
qed

lemma remove_first_next: "p \<noteq> [] \<Longrightarrow> c \<noteq> hd p \<Longrightarrow> remove_first p (c # p @ b) = c # b"
  by (cases p) simp_all

text \<open>What is relied on of an exported key beside its reading back: the lines around a PEM.\<close>

definition public_pem_framed :: "('sk, 'vk, 'sg) p256 \<Rightarrow> bool" where
  "public_pem_framed E \<longleftrightarrow>
     (\<forall>v p. to_public_key_pem E v = Inr p \<longrightarrow> (\<exists>rest. p = lit ''-----BEGIN PUBLIC KEY-----'' @ rest))"

lemma pem_begin:
  "lit ''-----BEGIN PUBLIC KEY-----'' = lit ''-----BEGIN'' @ lit '' PUBLIC KEY-----''"
  "lit ''-----BEGIN PUBLIC KEY-----'' = lit ''-----'' @ lit ''BEGIN PUBLIC KEY'' @ lit ''-----''"
  by (simp_all add: lit_def)

text \<open>A new key: exported, accepted by a client, and not an answer by itself.\<close>

lemma new_pem_result:
  fixes C :: "('t :: linorder) chrono"
  assumes "public_pem_ok E" "public_pem_framed E" "\<forall>v. \<exists>p. to_public_key_pem E v = Inr p"
  obtains pem rest where "new_pem E k = Some pem" "public_key_pem E (crypto_new E k) = Ok pem"
    "\<exists>c. new_verify_only E pem = Ok c" "pem = lit ''-----BEGIN PUBLIC KEY-----'' @ rest"
    "is_err (parse_answer C pem)"
proof -
  obtain pem where p: "to_public_key_pem E (verifying_key_of E k) = Inr pem" using assms(3) by blast
  then obtain rest where rest: "pem = lit ''-----BEGIN PUBLIC KEY-----'' @ rest"
    using assms(2) by (auto simp: public_pem_framed_def)
  note e = exported_keys [OF assms(1) p]
  have head: "pem = [] @ 45 # tl pem" by (simp add: rest lit_def)
  have "skip_space pem 0 = 0" using skip_space_here [of 45 "[]" "tl pem"] head
    by (simp add: is_whitespace_def)
  moreover have "get pem 0 = Some 45" using get_here [of "[]" 45 "tl pem"] head by simp
  ultimately have "is_err (parse_answer C pem)"
    by (simp add: parse_answer_def read_flat_object_def Let_def)
  with e rest show thesis by (intro that) (simp_all add: new_pem_def)
qed

text \<open>The schedule.\<close>

lemma civil_less: "civil_ok C utc \<Longrightarrow> valid_civil a \<Longrightarrow> valid_civil b \<Longrightarrow> a < b \<Longrightarrow> utc a < utc b"
  unfolding civil_ok_def by blast

lemma august_order:
  assumes "civil_ok C utc" "i \<in> {1..31}" "j \<in> {1..31}"
  shows "august utc i < august utc j \<longleftrightarrow> i < j" "august utc i \<le> august utc j \<longleftrightarrow> i \<le> j"
    "august utc i = august utc j \<longleftrightarrow> i = j"
proof -
  have less: "august utc i < august utc j" if "i < j" "i \<in> {1..31}" "j \<in> {1..31}" for i j
    unfolding august_def using that by (intro civil_less [OF assms(1)]) auto
  show "august utc i < august utc j \<longleftrightarrow> i < j" "august utc i \<le> august utc j \<longleftrightarrow> i \<le> j"
    "august utc i = august utc j \<longleftrightarrow> i = j"
    using less [of i j] less [of j i] assms(2,3) by (cases i j rule: linorder_cases; force)+
qed

lemma schedule_tests_pass:
  assumes "civil_ok C utc"
  shows "chooses_the_latest_key_that_had_started utc = Some ()" "knows_when_each_key_stops utc = Some ()"
proof -
  note order = august_order [OF assms]
  show "chooses_the_latest_key_that_had_started utc = Some ()"
    by (simp add: chooses_the_latest_key_that_had_started_def key_in_force_chosen chosen_def Let_def
        dated_public_key_new_def order max_def) (simp add: schedule_new_def order get_def)
  show "knows_when_each_key_stops utc = Some ()"
    unfolding knows_when_each_key_stops_def next_start_after_def
    by (simp add: schedule_new_def dated_public_key_new_def order get_def Let_def)
qed

text \<open>The JSON of an answer, field by field.\<close>

lemma to_json_parts:
  "to_json C a = 123 # enc_field (lit ''format'', Some (answer_format a))
     @ 44 # enc_field (lit ''publicKey'', Some (answer_public_key a))
     @ 44 # enc_field (lit ''validFrom'', map_option (to_rfc3339 C) (valid_from a))
     @ 44 # enc_field (lit ''validTo'', map_option (to_rfc3339 C) (valid_to a)) @ [125]"
  by (simp add: to_json_enc)

lemma escape_plain: "\<forall>c \<in> set v. c \<noteq> 34 \<and> c \<noteq> 92 \<and> 32 \<le> c \<Longrightarrow> concat (map escape v) = v"
  by (induction v) (auto simp: escape_def)

lemma names_plain:
  "concat (map escape (lit ''format'')) = lit ''format''" "concat (map escape (lit ''publicKey'')) = lit ''publicKey''"
  "concat (map escape (lit ''validFrom'')) = lit ''validFrom''" "concat (map escape (lit ''validTo'')) = lit ''validTo''"
  "concat (map escape (lit ''spki'')) = lit ''spki''" "concat (map escape (lit ''pkcs'')) = lit ''pkcs''"
  "concat (map escape (lit ''2026-08-31T00:00:00Z'')) = lit ''2026-08-31T00:00:00Z''"
  "concat (map escape (lit ''-----BEGIN'')) = lit ''-----BEGIN''"
  by (rule escape_plain; simp add: lit_def)+

lemma enc_field_text:
  "concat (map escape (lit n)) = lit n
    \<Longrightarrow> enc_field (lit n, Some v) = quoted_field n (concat (map escape v) @ [34])"
  by (simp add: enc_field_def enc_string_def enc_value_def quoted_field_def)

lemma json_contains:
  "contains p (enc_field (lit ''format'', Some (answer_format a))) \<Longrightarrow> contains p (to_json C a)"
  "contains p (enc_field (lit ''publicKey'', Some (answer_public_key a))) \<Longrightarrow> contains p (to_json C a)"
  "contains p (enc_field (lit ''validFrom'', map_option (to_rfc3339 C) (valid_from a))) \<Longrightarrow> contains p (to_json C a)"
proof -
  have part: "contains p x \<Longrightarrow> to_json C a = l @ x @ r \<Longrightarrow> contains p (to_json C a)" for x l r
    using contains_append by metis
  show "contains p (enc_field (lit ''format'', Some (answer_format a))) \<Longrightarrow> contains p (to_json C a)"
    using part [of _ "[123]"] by (simp add: to_json_parts)
  show "contains p (enc_field (lit ''publicKey'', Some (answer_public_key a))) \<Longrightarrow> contains p (to_json C a)"
    using part [of _ "123 # enc_field (lit ''format'', Some (answer_format a)) @ [44]"]
    by (simp add: to_json_parts)
  show "contains p (enc_field (lit ''validFrom'', map_option (to_rfc3339 C) (valid_from a))) \<Longrightarrow> contains p (to_json C a)"
    using part [of _ "123 # enc_field (lit ''format'', Some (answer_format a))
      @ 44 # enc_field (lit ''publicKey'', Some (answer_public_key a)) @ [44]"]
    by (simp add: to_json_parts)
qed

lemma writes_and_reads_the_same_answer_passes:
  assumes "rfc3339_ok C whole" "whole (utc (2026, 8, 31, 0, 0, 0))" "whole (utc (2026, 9, 7, 0, 0, 0))"
    and "to_rfc3339 C (utc (2026, 8, 31, 0, 0, 0)) = lit ''2026-08-31T00:00:00Z''"
    and "public_pem_ok E" "public_pem_framed E" "\<forall>v. \<exists>p. to_public_key_pem E v = Inr p"
  shows "writes_and_reads_the_same_answer C utc E fresh = Some ()"
proof -
  obtain pem rest where pem: "new_pem E (fresh 0) = Some pem" "pem = lit ''-----BEGIN PUBLIC KEY-----'' @ rest"
    using new_pem_result [OF assms(5-7), of "fresh 0" C] by metis
  obtain pem' where pem': "new_pem E (fresh 1) = Some pem'"
    using new_pem_result [OF assms(5-7), of "fresh 1" C] by metis
  let ?a = "published_answer_new pem (Some (utc (2026, 8, 31, 0, 0, 0))) (Some (utc (2026, 9, 7, 0, 0, 0)))"
    and ?b = "published_answer_new pem' None None :: 'a published_answer"
  have "contains (quoted_field ''validFrom'' (lit ''2026-08-31T00:00:00Z'' @ [34])) (to_json C ?a)"
    by (rule json_contains(3))
      (use assms(4) contains_inside [of _ "[]" "[]"] in \<open>simp add: published_answer_new_def enc_field_text names_plain\<close>)
  moreover have "contains (quoted_field ''format'' (lit ''spki'' @ [34])) (to_json C ?a)"
    by (rule json_contains(1))
      (use contains_inside [of _ "[]" "[]"] in \<open>simp add: published_answer_new_def enc_field_text names_plain SPKI_FORMAT_def\<close>)
  moreover have "contains (quoted_field ''publicKey'' (lit ''-----BEGIN'')) (to_json C ?a)"
    by (rule json_contains(2))
      (use contains_inside [of "quoted_field ''publicKey'' (lit ''-----BEGIN'')" "[]"] in
        \<open>simp add: published_answer_new_def enc_field_text names_plain pem pem_begin(1) quoted_field_def\<close>)
  moreover have "contains ([34] @ lit ''validFrom'' @ [34, 58] @ lit ''null'') (to_json C ?b)"
    by (rule json_contains(3))
      (use contains_inside [of _ "[]" "[]"] in
        \<open>simp add: published_answer_new_def enc_field_def enc_string_def enc_value_def names_plain\<close>)
  moreover have "parse_answer C (to_json C ?a) = Ok ?a" "parse_answer C (to_json C ?b) = Ok ?b"
    using assms(2,3) by (intro answer_json [OF assms(1)]; auto simp: published_answer_new_def)+
  ultimately show ?thesis
    by (simp add: writes_and_reads_the_same_answer_def pem(1) pem' Let_def del: One_nat_def)
qed

text \<open>What a client refuses.\<close>

lemma looked_at_total: "r \<noteq> Panic \<Longrightarrow> looked_at r = Some r"
  by (cases r) simp_all

lemma validate_refused:
  "looked_at (validate E a asked) = Some (validate E a asked)"
  "is_err (validate E a asked) \<longleftrightarrow> validate E a asked \<noteq> Ok ()"
  "is_ok (validate E a asked) \<longleftrightarrow> validate E a asked = Ok ()"
  using validate_total [of E a asked] by (simp_all add: looked_at_total is_err_def is_ok_iff)
    (cases "validate E a asked"; simp)

lemma not_a_key: "from_public_key_pem E (lit ''not a key'') = Inl e \<Longrightarrow> new_verify_only E (lit ''not a key'') \<noteq> Ok c"
  by (simp add: new_verify_only_def bind_res_Ok_iff)

lemma validate_new:
  "validate E (published_answer_new pem from to) asked = Ok () \<longleftrightarrow>
     (\<exists>c. new_verify_only E pem = Ok c)
     \<and> (\<forall>e. to = Some e \<longrightarrow> (\<exists>b. from = Some b \<and> b < e))
     \<and> (\<forall>t. asked = Some t \<longrightarrow> (\<forall>b. from = Some b \<longrightarrow> b \<le> t) \<and> (\<forall>e. to = Some e \<longrightarrow> t < e))"
  by (auto simp: validate_Ok check_span_cases(1) check_asked_cases(1) published_answer_new_def)

lemma refuses_what_a_client_would_refuse_passes:
  fixes C :: "('t :: linorder) chrono"
  assumes "civil_ok C utc" "from_public_key_pem E (lit ''not a key'') = Inl e"
    and "add_hours C (utc (2026, 8, 31, 0, 0, 0)) 1 = Some later"
    and "utc (2026, 8, 31, 0, 0, 0) < later" "later < utc (2026, 9, 7, 0, 0, 0)"
    and "public_pem_ok E" "public_pem_framed E" "\<forall>v. \<exists>p. to_public_key_pem E v = Inr p"
  shows "refuses_what_a_client_would_refuse C utc E fresh = Some ()"
proof -
  have less: "utc (2026, 8, 31, 0, 0, 0) < utc (2026, 9, 7, 0, 0, 0)"
    by (rule civil_less [OF assms(1)]) simp_all
  then have order: "\<not> utc (2026, 9, 7, 0, 0, 0) < utc (2026, 8, 31, 0, 0, 0)"
    "\<not> utc (2026, 9, 7, 0, 0, 0) \<le> utc (2026, 8, 31, 0, 0, 0)" "utc (2026, 8, 31, 0, 0, 0) \<le> later"
    using assms(4) by auto
  have pem: "\<exists>pem. new_pem E (fresh n) = Some pem \<and> (\<exists>c. new_verify_only E pem = Ok c)
      \<and> looked_at (parse_answer C pem) = Some (parse_answer C pem) \<and> is_err (parse_answer C pem)" for n
    using new_pem_result [OF assms(6-8), of "fresh n" C] by (metis looked_at_total parse_answer_total)
  then obtain pem where "\<And>n. new_pem E (fresh n) = Some (pem n)" "\<And>n. \<exists>c. new_verify_only E (pem n) = Ok c"
    "\<And>n. looked_at (parse_answer C (pem n)) = Some (parse_answer C (pem n))" "\<And>n. is_err (parse_answer C (pem n))"
    by metis
  with less order assms(3-5) not_a_key [OF assms(2)] show ?thesis
    by (simp add: refuses_what_a_client_would_refuse_def Let_def validate_refused validate_new)
qed

text \<open>An answer without a format.\<close>

lemma a_format_other_than_spki_passes:
  fixes C :: "('t :: linorder) chrono"
  assumes "rfc3339_ok C whole"
    and "public_pem_ok E" "public_pem_framed E" "\<forall>v. \<exists>p. to_public_key_pem E v = Inr p"
    and "\<forall>pem. new_pem E k = Some pem \<longrightarrow> \<not> contains (lit ''format'') (concat (map escape pem))"
  shows "a_format_other_than_spki_is_refused_and_an_absent_one_is_spki C E k = Some ()"
proof -
  obtain pem where pem: "new_pem E k = Some pem" "\<exists>c. new_verify_only E pem = Ok c"
    using new_pem_result [OF assms(2-4), of k C] by metis
  let ?a = "published_answer_new pem None None :: 't published_answer"
  let ?b = "?a\<lparr> answer_format := lit ''pkcs'' \<rparr>"
  let ?p = "quoted_field ''format'' (lit ''spki'' @ [34, 44])"
  let ?fs = "[(lit ''validFrom'', None), (lit ''validTo'', None)]"
  let ?rest = "enc_field (lit ''publicKey'', Some pem) @ enc_fields_tail ?fs"
  have "to_json C ?a = 123 # ?p @ ?rest"
    by (simp add: to_json_enc published_answer_new_def enc_field_text names_plain SPKI_FORMAT_def
        quoted_field_def)
  then have without: "remove_first ?p (to_json C ?a) = 123 # ?rest"
    using remove_first_next [of ?p 123 ?rest] by (simp add: quoted_field_def)
  have no_quote: "34 \<notin> set (lit ''format'')" "lit ''format'' \<noteq> []" by (simp_all add: lit_def)
  have "\<not> contains (lit ''format'') (lit ''publicKey'')" "\<not> contains (lit ''format'') (lit ''validFrom'')"
    "\<not> contains (lit ''format'') (lit ''validTo'')" "\<not> contains (lit ''format'') [123]"
    "\<not> contains (lit ''format'') [58]" "\<not> contains (lit ''format'') [44]"
    "\<not> contains (lit ''format'') (58 # lit ''null'' @ [44])" "\<not> contains (lit ''format'') (58 # lit ''null'' @ [125])"
    by (simp_all add: lit_def)
  moreover have "123 # ?rest = [123] @ 34 # lit ''publicKey'' @ 34 # [58] @ 34 # concat (map escape pem)
      @ 34 # [44] @ 34 # lit ''validFrom'' @ 34 # (58 # lit ''null'' @ [44]) @ 34 # lit ''validTo'' @ 34 # (58 # lit ''null'' @ [125])"
    by (simp add: enc_field_def enc_string_def enc_value_def names_plain)
  ultimately have none: "\<not> contains (lit ''format'') (123 # ?rest)"
    using assms(5) pem(1) by (simp only: contains_split [OF no_quote]) simp
  have "read_flat_object (123 # ?rest) = Ok ((lit ''publicKey'', Some pem) # ?fs)"
    by (rule read_flat_object_enc)
  then have read: "parse_answer C (123 # ?rest) = Ok ?a"
    by (simp add: parse_answer_def field_of_def lit_def moment_def published_answer_new_def)
  have "contains (quoted_field ''format'' (lit ''pkcs'' @ [34])) (to_json C ?b)"
    by (rule json_contains(1))
      (use contains_inside [of _ "[]" "[]"] in \<open>simp add: enc_field_text names_plain\<close>)
  moreover have "parse_answer C (to_json C ?b) = Ok ?b"
    by (rule answer_json [OF assms(1)]) (simp add: published_answer_new_def)
  moreover have "validate E ?b None \<noteq> Ok ()" by (simp add: validate_Ok SPKI_FORMAT_def lit_def)
  ultimately show ?thesis
    using pem without none read
    by (simp add: a_format_other_than_spki_is_refused_and_an_absent_one_is_spki_def Let_def
        validate_refused validate_new) (simp add: published_answer_new_def)
qed

text \<open>The end point of one key.\<close>

lemma public_key_response_formats_passes:
  fixes C :: "('t :: linorder) chrono"
  assumes "rfc3339_ok C whole" "public_pem_ok E" "public_pem_framed E" "\<forall>v. \<exists>p. to_public_key_pem E v = Inr p"
  shows "public_key_response_formats C E k = Some ()"
proof -
  obtain pem rest where pem: "public_key_pem E (crypto_new E k) = Ok pem" "\<exists>c. new_verify_only E pem = Ok c"
    "pem = lit ''-----BEGIN PUBLIC KEY-----'' @ rest"
    using new_pem_result [OF assms(2-4), of k C] by metis
  let ?a = "published_answer_new pem None None :: 't published_answer"
  let ?cr = "fresh_creator E k (lit ''example.com'')"
  have "trim (lit ''example.com'') \<noteq> []" by (simp add: lit_def is_whitespace_def)
  then have cr: "new_creator E k = Some ?cr"
    using example_domain(1) by (simp add: new_creator_def creator_new_fresh MAXIMUM_DOMAIN_LENGTH_def)
  have "validate E ?a None = Ok ()" using pem(2) by (simp add: validate_new)
  then have served: "public_key_response C E ?cr format = Ok (to_json C ?a)" if "serves_format format" for format
    using that pem(1) by (simp add: public_key_response_def public_key_answer_def Let_def
        fresh_creator_def public_key_pem_def)
  have refused: "public_key_response C E ?cr (Some f) = Err (InvalidKeyFormat f)" if "f \<noteq> SPKI_FORMAT" for f
    using that by (simp add: public_key_response_def serves_format_def)
  have "contains (quoted_field ''format'' (lit ''spki'' @ [34])) (to_json C ?a)"
    by (rule json_contains(1))
      (use contains_inside [of _ "[]" "[]"] in \<open>simp add: published_answer_new_def enc_field_text names_plain SPKI_FORMAT_def\<close>)
  moreover have "parse_answer C (to_json C ?a) = Ok ?a"
    by (rule answer_json [OF assms(1)]) (simp add: published_answer_new_def)
  moreover have "contains (lit ''BEGIN PUBLIC KEY'') pem"
    using contains_inside [of "lit ''BEGIN PUBLIC KEY''" "lit ''-----''"] by (simp add: pem(3) pem_begin(2))
  moreover have "answer_format ?a = lit ''spki''" "valid_from ?a = None" "valid_to ?a = None"
    "answer_public_key ?a = pem" by (simp_all add: published_answer_new_def SPKI_FORMAT_def)
  moreover have "serves_format (Some (lit ''spki''))" "serves_format None"
    "lit ''pkcs'' \<noteq> SPKI_FORMAT" "lit ''other'' \<noteq> SPKI_FORMAT"
    by (simp_all add: serves_format_def SPKI_FORMAT_def) (simp_all add: lit_def)
  ultimately show ?thesis
    by (simp add: public_key_response_formats_def cr served refused)
qed

lemma paths_passes: "paths = Some ()"
  by (simp add: paths_def public_key_path_def lit_def decimal.simps)

text \<open>The end point of a schedule.\<close>

lemma civil_order:
  assumes "civil_ok C utc" "valid_civil a" "valid_civil b"
  shows "utc a < utc b \<longleftrightarrow> a < b" "utc a \<le> utc b \<longleftrightarrow> a \<le> b" "utc a = utc b \<longleftrightarrow> a = b"
proof -
  have "a < b \<Longrightarrow> utc a < utc b" "b < a \<Longrightarrow> utc b < utc a"
    using civil_less [OF assms(1)] assms(2,3) by blast+
  then show "utc a < utc b \<longleftrightarrow> a < b" "utc a \<le> utc b \<longleftrightarrow> a \<le> b" "utc a = utc b \<longleftrightarrow> a = b"
    by (cases a b rule: linorder_cases; force)+
qed

lemma on_minute_count:
  assumes "on_minute C t"
  obtains m where "minutes_since_base C t = Some m" "add_minutes C (base_date C) (uint m) = Some t"
proof -
  let ?i = "num_minutes C t (base_date C)"
  have "uint (of_int ?i :: u32) = ?i" using assms by (intro u32_of_range) (simp_all add: on_minute_def)
  with assms show thesis
    by (intro that [of "of_int ?i"]) (simp_all add: on_minute_def minutes_since_base_def u32_try_from_def)
qed

text \<open>What it answers for the key chosen.\<close>

lemma response_of_chosen:
  assumes "serves_format format" "asked_moment C date now = Ok (Some t)" "chosen keys t = Some k"
    and "\<exists>c. new_verify_only E (dated_pem k) = Ok c"
  shows "public_key_response_at C E (schedule_new keys) format date now
    = Ok (200, to_json C (published_answer_new (dated_pem k) (Some (starts_at k))
        (next_start_after (schedule_new keys) k)))"
  using assms validate_in_force [OF assms(3,4)]
  by (simp add: public_key_response_at_def key_in_force_chosen public_key_answer_def Let_def)

lemma answer_refused:
  assumes "validate E (published_answer_new p start finish) at \<noteq> Ok ()"
  shows "\<exists>e. public_key_answer C E p start finish at = Err e"
  using assms validate_total [of E "published_answer_new p start finish" at]
  by (cases "validate E (published_answer_new p start finish) at") (simp_all add: public_key_answer_def Let_def)

lemma response_at_passes:
  fixes C :: "('t :: linorder) chrono"
  assumes "civil_ok C utc" "rfc3339_ok C whole" "\<forall>a. valid_civil a \<longrightarrow> whole (utc a)"
    and "from_public_key_pem E (lit ''not a key'') = Inl e"
    and "public_pem_ok E" "public_pem_framed E" "\<forall>v. \<exists>p. to_public_key_pem E v = Inr p"
  shows "response_at_states_the_span_and_is_checked_before_it_is_sent C utc E fresh = Some ()"
proof -
  have "\<exists>pem. new_pem E (fresh n) = Some pem \<and> (\<exists>c. new_verify_only E pem = Ok c)" for n
    using new_pem_result [OF assms(5-7), of "fresh n" C] by metis
  then obtain pem where pem: "\<And>n. new_pem E (fresh n) = Some (pem n)"
    "\<And>n. \<exists>c. new_verify_only E (pem n) = Ok c" by metis
  let ?w0 = "utc (2026, 8, 24, 0, 0, 0)" and ?w1 = "utc (2026, 8, 31, 0, 0, 0)"
    and ?w2 = "utc (2026, 9, 7, 0, 0, 0)" and ?now = "utc (2026, 9, 4, 20, 32, 0)"
    and ?later = "utc (2026, 9, 10, 0, 0, 0)" and ?early = "utc (2026, 8, 1, 0, 0, 0)"
  let ?k = "\<lambda>w n. dated_public_key_new w (pem n)"
  let ?keys = "[?k ?w0 0, ?k ?w1 1, ?k ?w2 2]"
  note order = civil_order [OF assms(1)]
  obtain m where m: "minutes_since_base C ?now = Some m" "add_minutes C (base_date C) (uint m) = Some ?now"
    by (rule on_minute_count [of C ?now]) (use assms(1) in \<open>simp add: civil_ok_def\<close>)
  obtain m' where m': "minutes_since_base C ?early = Some m'" "add_minutes C (base_date C) (uint m') = Some ?early"
    by (rule on_minute_count [of C ?early]) (use assms(1) in \<open>simp add: civil_ok_def\<close>)
  have chosen: "chosen ?keys ?now = Some (?k ?w1 1)" "chosen ?keys ?later = Some (?k ?w2 2)"
    "chosen ?keys ?early = None"
    by (simp_all add: chosen_def dated_public_key_new_def order Let_def)
  have span: "next_start_after (schedule_new ?keys) (?k ?w1 1) = Some ?w2"
    "next_start_after (schedule_new ?keys) (?k ?w2 2) = None" "get (schedule_keys (schedule_new ?keys)) 1 = Some (?k ?w1 1)"
    unfolding next_start_after_def by (simp_all add: schedule_new_def dated_public_key_new_def order get_def)
  have read: "parse_answer C (to_json C (published_answer_new p (Some ?w1) (Some ?w2)))
      = Ok (published_answer_new p (Some ?w1) (Some ?w2))"
    "parse_answer C (to_json C (published_answer_new p (Some ?w2) None)) = Ok (published_answer_new p (Some ?w2) None)" for p
    using assms(3) by (intro answer_json [OF assms(2)]; auto simp: published_answer_new_def)+
  have asked: "asked_moment C (Some (decimal (unat m))) ?now = Ok (Some ?now)"
    "asked_moment C None ?later = Ok (Some ?later)"
    "asked_moment C (Some (decimal (unat m'))) ?now = Ok (Some ?early)"
    using m m' by (simp_all add: asked_moment_def min_def order)
  have "asked_moment C (Some (lit ''nonsense'')) ?now = Ok None"
    by (simp add: asked_moment_def parse_u32_def from_str_radix_def lit_def to_digit_def)
  then have refused: "public_key_response_at C E (schedule_new ?keys) None (Some (lit ''nonsense'')) ?now = Ok (400, [])"
    "public_key_response_at C E (schedule_new ?keys) (Some (lit ''pkcs'')) date ?now = Ok (400, [])"
    "public_key_response_at C E (schedule_new ?keys) None (Some (decimal (unat m'))) ?now = Ok (404, [])" for date
    using asked(3) chosen(3)
    by (simp_all add: public_key_response_at_def serves_format_def SPKI_FORMAT_def lit_def key_in_force_chosen)
  have pems: "\<exists>c. new_verify_only E (dated_pem (?k w n)) = Ok c" for w n
    using pem(2) by (simp add: dated_public_key_new_def)
  have spki: "serves_format (Some (lit ''spki''))" "serves_format None"
    by (simp_all add: serves_format_def SPKI_FORMAT_def)
  note served = response_of_chosen [OF spki(1) asked(1) chosen(1) pems]
    response_of_chosen [OF spki(2) asked(2) chosen(2) pems]
  have "validate E (published_answer_new (lit ''not a key'') None None :: 't published_answer) None \<noteq> Ok ()"
    "validate E (published_answer_new (pem 3) (Some ?w1) (Some ?w0)) None \<noteq> Ok ()"
    "validate E (published_answer_new (pem 4) (Some ?w1) None) (Some ?w0) \<noteq> Ok ()"
    using not_a_key [OF assms(4)] by (simp_all add: validate_new order)
  then obtain e1 e2 e3 where bad: "public_key_answer C E (lit ''not a key'') None None None = Err e1"
    "public_key_answer C E (pem 3) (Some ?w1) (Some ?w0) None = Err e2"
    "public_key_answer C E (pem 4) (Some ?w1) None (Some ?w0) = Err e3"
    using answer_refused by metis
  show ?thesis
    unfolding response_at_states_the_span_and_is_checked_before_it_is_sent_def Let_def pem(1)
      m(1) m'(1) Option.bind.simps served refused expect_simps prod.case span
    by (simp add: dated_public_key_new_def read span[unfolded dated_public_key_new_def] bad)
       (simp add: published_answer_new_def SPKI_FORMAT_def)
qed

end
