(* ===== verification/FetchTests.thy ===== *)
theory FetchTests
  imports Fixtures ServingTests Hosted
begin

text \<open>
  The unit tests of src/src/fetch.rs that ask a stub one caller at a time: what the key URL
  names, which minutes are served from the cache, and which key an OWID near the edge of a
  span is checked against. A process is its cache and the stub. The clock and the keys drawn
  are arguments, and the clock stands still during a test. The fixture schedule is thirty
  weekly keys from 11 May 2026, whatever the keys are.
\<close>

section \<open>A caller and the stub\<close>

type_synonym process = "cache \<times> stub"

text \<open>\<open>key_at_url\<close> with the stub as its transport: what the cache does not answer is a request.\<close>

definition ask_stub ::
    "('t :: linorder) chrono \<Rightarrow> ('sk, 'vk, 'sg) p256 \<Rightarrow> 't \<Rightarrow> process source" where
  "ask_stub C E now url st =
     (let (c, s) = st; (r, c') = key_at_url C E (stub_answer s) now url c;
          s' = (if cached_answer c url (is_recent_url C now url) = None then snd (stub_fetch url s) else s)
      in (r, (c', s')))"

definition asked_pem ::
    "('t :: linorder) chrono \<Rightarrow> ('sk, 'vk, 'sg) p256 \<Rightarrow> 't \<Rightarrow> str \<Rightarrow> process \<Rightarrow> (str \<times> process) option" where
  "asked_pem C E now url st =
     (let (r, st) = ask_stub C E now url st in do { a <- expect r; Some (answer_pem a, st) })"

section \<open>What the tests share\<close>

definition IDENTIFIER_MINUTES :: u32 where
  "IDENTIFIER_MINUTES = 3510720"

definition crafted :: "'t chrono \<Rightarrow> platform \<Rightarrow> version \<Rightarrow> str \<Rightarrow> u32 \<Rightarrow> 't owid option" where
  "crafted C P version domain minutes = do {
     let buffer = write_byte [] (as_byte version);
     buffer <- expect_written (write_domain buffer domain);
     date <- add_minutes C (base_date C) (uint minutes);
     buffer <- expect_written (write_date C buffer date version);
     buffer <- expect_written (write_byte_array buffer []);
     buffer <- expect_written (write_signature buffer (replicate SIGNATURE_LENGTH 0));
     expect (from_byte_array C P buffer)
   }"

definition minutes_at :: "'t chrono \<Rightarrow> str \<Rightarrow> u32 option" where
  "minutes_at C rfc = do {
     at <- parse_from_rfc3339 C rfc;
     minutes_since_base C at
   }"

definition pem_at ::
    "('t :: linorder) chrono \<Rightarrow> platform \<Rightarrow> ('sk, 'vk, 'sg) p256 \<Rightarrow> 't \<Rightarrow> str \<Rightarrow> u32 \<Rightarrow> process
     \<Rightarrow> (str \<times> process) option" where
  "pem_at C P E now scheme minutes st = do {
     w <- crafted C P Version3 (lit ''51d.es'') minutes;
     asked_pem C E now (public_key_url C w scheme) st
   }"

definition in_force_at :: "('t :: linorder) chrono \<Rightarrow> 't scheduled_key list \<Rightarrow> u32 \<Rightarrow> str option" where
  "in_force_at C schedule minutes = do {
     at <- add_minutes C (base_date C) (uint minutes);
     key <- stand_in_key_in_force schedule at;
     Some (scheduled_pem key)
   }"

definition held_keys :: "process \<Rightarrow> nat" where
  "held_keys st = cache_held (fst st)"

definition held_keys_at :: "str \<Rightarrow> process \<Rightarrow> nat" where
  "held_keys_at scheme st =
     (case cache_keys (fst st) (scheme @ lit ''://51d.es/owid/api/v3/public-key'') of
        None \<Rightarrow> 0 | Some ks \<Rightarrow> length ks)"

definition request_count :: "process \<Rightarrow> nat" where
  "request_count st = length (requests (snd st))"

text \<open>A \<open>for\<close> that goes on with what the round before left.\<close>

fun for_each_in :: "'a list \<Rightarrow> ('a \<Rightarrow> process \<Rightarrow> process option) \<Rightarrow> process \<Rightarrow> process option" where
  "for_each_in [] f st = Some st"
| "for_each_in (x # xs) f st = do { st <- f x st; for_each_in xs f st }"

section \<open>The URL\<close>

definition url_format ::
    "'t chrono \<Rightarrow> platform \<Rightarrow> ('sk, 'vk, 'sg) p256 \<Rightarrow> 'sk \<Rightarrow> 't \<Rightarrow> unit option" where
  "url_format C P E random_key now = do {
     cr <- expect (creator_new (lit ''example.com'') (crypto_new E random_key));
     w <- expect (create C P E now cr []);
     minutes <- minutes_since_base C (owid_date w);
     assert_that (public_key_url C w (lit ''https'')
       = lit ''https://example.com/owid/api/v3/public-key?date='' @ decimal (unat minutes) @ lit ''&format=spki'')
   }"

definition url_names_the_version_the_identifier_carries :: "'t chrono \<Rightarrow> platform \<Rightarrow> unit option" where
  "url_names_the_version_the_identifier_carries C P = do {
     w <- crafted C P Version2 (lit ''example.com'') IDENTIFIER_MINUTES;
     assert_that (as_byte (owid_version w) = 2);
     assert_that (public_key_url C w (lit ''https'')
       = lit ''https://example.com/owid/api/v2/public-key?date='' @ decimal (unat IDENTIFIER_MINUTES)
         @ lit ''&format=spki'')
   }"

section \<open>Lemmas\<close>

lemma minute_start_valid:
  assumes "dates_ok C" "v = Version2 \<or> v = Version3"
  shows "valid_date C v (minute_start C m)" "add_minutes C (base_date C) (uint m) = Some (minute_start C m)"
    "enc_date C v (minute_start C m) = to_le_bytes m"
proof -
  obtain d where d: "add_minutes C (base_date C) (uint m) = Some d" by (rule moment_of_minutes [OF assms(1)])
  then show a: "add_minutes C (base_date C) (uint m) = Some (minute_start C m)" by (simp add: minute_start_def)
  then show "valid_date C v (minute_start C m)" using assms(2) by auto
  show "enc_date C v (minute_start C m) = to_le_bytes m"
    using assms(2) count_of_minutes [OF assms(1) a] by auto
qed

lemma crafted_result:
  assumes "dates_ok C" "ample P" "v = Version2 \<or> v = Version3" "valid_domain d"
  shows "crafted C P v d m = Some (from_parts v d (minute_start C m) [] (replicate SIGNATURE_LENGTH 0))"
proof -
  let ?w = "from_parts v d (minute_start C m) [] (replicate SIGNATURE_LENGTH 0)"
  note date = minute_start_valid [OF assms(1,3)]
  have v: "valid_owid C ?w" "fits P ?w"
    using assms date(1) by (auto simp: valid_owid_def fits_def ample_def)
  have "from_byte_array C P (enc_owid C ?w) = Ok ?w"
    using v by (simp add: from_byte_array_def parse_exact_Ok_iff [OF assms(1)])
  moreover have "valid_domain d \<Longrightarrow> write_domain b d = (Ok (), b @ enc_domain d)" for b
    by (rule write_domain_valid)
  ultimately show ?thesis
    using assms(4) date write_date_valid [OF assms(1) date(1)]
    by (simp add: crafted_def write_byte_def write_byte_array_def write_u32_def write_signature_def
        enc_owid_def enc_fields_def Let_def)
qed

text \<open>Two domains of the tests, and the end point of the fixture's.\<close>

lemma test_domains:
  "valid_domain (lit ''51d.es'')" "valid_domain (lit ''example.com'')" "valid_domain (lit ''creator.test'')"
  "63 \<notin> set (lit ''51d.es'')"
  using ascii_domain [of "lit ''51d.es''"] ascii_domain [of "lit ''creator.test''"] example_domain
  by (simp_all add: valid_domain_def MAXIMUM_DOMAIN_LENGTH_def) (simp_all add: lit_def)

definition es :: "str \<Rightarrow> str" where
  "es scheme = scheme @ lit ''://51d.es/owid/api/v3/public-key''"

lemma crafted_url:
  assumes "dates_ok C"
  shows "public_key_url C (from_parts v d (minute_start C m) p s) scheme
    = key_url_at (scheme @ lit ''://'' @ d @ lit ''/owid/api/v'' @ decimal (unat (as_byte v)) @ lit ''/public-key'') m"
  by (simp add: public_key_url_def key_end_point_def minute_start_count(2) [OF assms])

lemma es_url:
  "dates_ok C \<Longrightarrow> public_key_url C (from_parts Version3 (lit ''51d.es'') (minute_start C m) p s) scheme
    = key_url_at (es scheme) m"
  by (simp add: crafted_url es_def lit_def decimal.simps)

lemma es_query: "63 \<notin> set scheme \<Longrightarrow> 63 \<notin> set (es scheme)"
  by (simp add: es_def lit_def)

lemma url_tests_pass:
  assumes "dates_ok C" "ample P"
  shows "signatures_ok E \<Longrightarrow> date_in_range C Version3 now \<Longrightarrow> url_format C P E k now = Some ()"
    and "url_names_the_version_the_identifier_carries C P = Some ()"
proof -
  assume "signatures_ok E" and now: "date_in_range C Version3 now"
  note made = fresh_owid_made [OF assms this(1) _ example_domain(3) now, of "[]" k]
  have "trim (lit ''example.com'') \<noteq> []" by (simp add: lit_def is_whitespace_def)
  then have cr: "creator_new (lit ''example.com'') (crypto_new E k) = Ok (fresh_creator E k (lit ''example.com''))"
    using example_domain(1) by (intro creator_new_fresh) (simp_all add: MAXIMUM_DOMAIN_LENGTH_def)
  obtain m where "minutes_since_base C now = Some m"
    using now by (auto simp: minutes_since_base_def u32_try_from_def)
  with made show "url_format C P E k now = Some ()"
    by (simp add: url_format_def cr create_def version_default_def public_key_url_def key_url_at_def
        key_end_point_def FORMAT_QUERY_def del: decimal.simps) (simp add: lit_def decimal.simps)
next
  have "crafted C P Version2 (lit ''example.com'') IDENTIFIER_MINUTES
      = Some (from_parts Version2 (lit ''example.com'') (minute_start C IDENTIFIER_MINUTES) [] (replicate SIGNATURE_LENGTH 0))"
    using crafted_result [OF assms _ test_domains(2)] by simp
  then show "url_names_the_version_the_identifier_carries C P = Some ()"
    by (simp add: url_names_the_version_the_identifier_carries_def crafted_url [OF assms(1)] key_url_at_def
        FORMAT_QUERY_def del: decimal.simps) (simp add: lit_def decimal.simps)
qed

text \<open>One question: from the cache without a request, or from the stub, recorded.\<close>

lemma ask_hit:
  assumes "63 \<notin> set p" "held_for c p m (recent C now m) = Some a"
  shows "ask_stub C E now (key_url_at p m) (c, s) = (Ok a, (c, s))"
  using assms by (simp add: ask_stub_def key_at_url_def cached_answer_def is_recent_url_def key_url_at_read_back)

lemma ask_miss:
  assumes "63 \<notin> set p" "held_for c p m (recent C now m) = None"
    and "request_public_key C E (stub_answer s) (key_url_at p m) = Ok (pem, start, finish)"
    and "hold (now_minute C now) c p (Some m) (recent C now m) pem start finish = Ok (a, c')"
  shows "ask_stub C E now (key_url_at p m) (c, s)
    = (Ok a, (c', s\<lparr> requests := requests s @ [key_url_at p m] \<rparr>))"
  using assms by (simp add: ask_stub_def key_at_url_def cached_answer_def is_recent_url_def
      key_url_at_read_back fetch_outcome_def stub_fetch_def)

lemma pem_at_asks:
  assumes "dates_ok C" "ample P"
  shows "pem_at C P E now scheme m st = asked_pem C E now (key_url_at (es scheme) m) st"
  using crafted_result [OF assms _ test_domains(1), of Version3 m]
  by (simp add: pem_at_def es_url [OF assms(1)])

lemma pem_at_hit:
  assumes "dates_ok C" "ample P" "63 \<notin> set scheme" "held_for c (es scheme) m (recent C now m) = Some a"
  shows "pem_at C P E now scheme m (c, s) = Some (answer_pem a, (c, s))"
  using ask_hit [OF es_query [OF assms(3)] assms(4), of E s]
  by (simp add: pem_at_asks [OF assms(1,2)] asked_pem_def)

lemma pem_at_miss:
  assumes "dates_ok C" "ample P" "63 \<notin> set scheme" "held_for c (es scheme) m (recent C now m) = None"
    and "request_public_key C E (stub_answer s) (key_url_at (es scheme) m) = Ok (pem, start, finish)"
    and "hold (now_minute C now) c (es scheme) (Some m) (recent C now m) pem start finish = Ok (a, c')"
  shows "pem_at C P E now scheme m (c, s)
    = Some (answer_pem a, (c', s\<lparr> requests := requests s @ [key_url_at (es scheme) m] \<rparr>))"
  using ask_miss [OF es_query [OF assms(3)] assms(4-6)]
  by (simp add: pem_at_asks [OF assms(1,2)] asked_pem_def)

section \<open>The fixture schedule\<close>

text \<open>Thirty weekly keys from 11 May 2026, readable and each its own, served until 14 September.\<close>

definition week_start :: "nat \<Rightarrow> u32" where
  "week_start i = 3343680 + 10080 * of_nat i"

definition weekly_fixture ::
    "('t :: linorder) chrono \<Rightarrow> ('sk, 'vk, 'sg) p256 \<Rightarrow> str \<Rightarrow> str list \<Rightarrow> bool" where
  "weekly_fixture C E fixture pems \<longleftrightarrow>
     length pems = 30 \<and> distinct pems \<and> (\<forall>p \<in> set pems. \<exists>c. new_verify_only E p = Ok c)
     \<and> request_moment C = Ok (minute_start C 3525120)
     \<and> schedule_of C fixture = Ok (map (\<lambda>i. \<lparr> scheduled_start = minute_start C (week_start i),
         scheduled_pem = pems ! i \<rparr>) [0..<30])"

definition weeks :: "('t :: linorder) chrono \<Rightarrow> str list \<Rightarrow> 't scheduled_key list" where
  "weeks C pems = map (\<lambda>i. \<lparr> scheduled_start = minute_start C (week_start i), scheduled_pem = pems ! i \<rparr>) [0..<30]"

lemma unat_week_start: "i \<le> 30 \<Longrightarrow> unat (week_start i) = 3343680 + 10080 * i"
proof -
  assume "i \<le> 30"
  moreover have "week_start i = of_nat (3343680 + 10080 * i)" by (simp add: week_start_def)
  ultimately show ?thesis by (simp only: unat_of_nat) simp
qed

lemma week_start_early [simp]: "i \<le> 30 \<Longrightarrow> week_start i \<le> 40000000"
  by (simp add: word_le_nat_alt unat_week_start)

lemma week_start_less: "i \<le> 30 \<Longrightarrow> j \<le> 30 \<Longrightarrow> week_start i < week_start j \<longleftrightarrow> i < j"
  by (simp add: word_less_nat_alt unat_week_start)

lemma week_in_force:
  assumes "dates_ok C" "dates_ordered C" "i < 30" "week_start i \<le> m" "m < week_start (Suc i) \<or> i = 29"
  shows "stand_in_key_in_force (weeks C pems) (minute_start C m)
    = Some \<lparr> scheduled_start = minute_start C (week_start i), scheduled_pem = pems ! i \<rparr>"
proof -
  note le = minute_start_le [OF assms(1,2)]
  have later: "\<not> week_start j \<le> m" if "i < j" "j < 30" for j
    using that assms(3,5) unat_week_start [of j] unat_week_start [of "Suc i"]
    by (auto simp: word_le_nat_alt word_less_nat_alt)
  have "rev [0..<30] ! (29 - i) = i" using assms(3) by (simp add: rev_nth)
  moreover have "rev [0..<30] ! k = 29 - k" if "k < 30" for k using that by (simp add: rev_nth)
  ultimately show ?thesis
    unfolding stand_in_key_in_force_def find_Some_iff weeks_def rev_map
    using assms(3,4) later by (intro exI [of _ "29 - i"]) (simp add: le)
qed

lemma week_next:
  assumes "dates_ok C" "dates_ordered C" "i < 29"
  shows "next_start (weeks C pems) \<lparr> scheduled_start = minute_start C (week_start i), scheduled_pem = p \<rparr>
    = Some (minute_start C (week_start (Suc i)))"
proof -
  note less = minute_start_less [OF assms(1,2)] and le = minute_start_le [OF assms(1,2)]
  let ?S = "minute_start C ` week_start ` {j. j < 30 \<and> i < j}"
  have "Min ?S = minute_start C (week_start (Suc i))"
  proof (rule Min_eqI)
    show "minute_start C (week_start (Suc i)) \<le> y" if "y \<in> ?S" for y
      using that assms(3) by (auto simp: le word_le_nat_alt unat_week_start)
  qed (use assms(3) in auto)
  moreover have "set (map scheduled_start (filter (\<lambda>other. scheduled_start other > minute_start C (week_start i)) (weeks C pems))) = ?S"
    using assms(3) by (force simp: weeks_def less week_start_less)
  ultimately show ?thesis
    using assms(3) by (auto simp: next_start_def iter_min_eq filter_empty_conv weeks_def less week_start_less)
qed

definition weekly_answer ::
    "('t :: linorder) chrono \<Rightarrow> ('sk, 'vk, 'sg) p256 \<Rightarrow> str list \<Rightarrow> span \<Rightarrow> transport" where
  "weekly_answer C E pems sp url = end_point_answer C E (minute_start C 3525120) (weeks C pems) url sp"

lemma weekly_stub:
  "weekly_fixture C E fixture pems
    \<Longrightarrow> end_point_stating C E fixture sp = Ok (stub_new (weekly_answer C E pems sp))"
  by (simp add: weekly_fixture_def end_point_stating_def weeks_def weekly_answer_def [abs_def])

text \<open>
  What is relied on of the dates in these tests: the minutes up to 2096, which these tests stay
  below, are written and read back.
\<close>

definition written_minutes :: "'t chrono \<Rightarrow> 't option set" where
  "written_minutes C = insert None ((\<lambda>m. Some (minute_start C m)) ` {..40000000})"

lemma written_minutes [simp]:
  "None \<in> written_minutes C" "m \<le> 40000000 \<Longrightarrow> Some (minute_start C m) \<in> written_minutes C"
  by (simp_all add: written_minutes_def)

definition minutes_fine :: "('t :: linorder) chrono \<Rightarrow> bool" where
  "minutes_fine C \<longleftrightarrow> dates_ok C \<and> dates_ordered C
     \<and> (\<exists>whole. rfc3339_ok C whole \<and> (\<forall>m \<le> 40000000. whole (minute_start C m)))"

lemma minutes_fine:
  assumes "minutes_fine C"
  shows "dates_ok C" "dates_ordered C"
    "valid_from a \<in> written_minutes C \<Longrightarrow> valid_to a \<in> written_minutes C \<Longrightarrow> parse_answer C (to_json C a) = Ok a"
  using assms by (auto simp: minutes_fine_def written_minutes_def intro!: answer_json)

lemma minutes_fine_utc: "minutes_fine utc_seconds"
proof -
  have "\<bar>minute_start utc_seconds m\<bar> < 2 ^ 32" if "m \<le> 40000000" for m
  proof -
    have "uint m \<le> 40000000" using that by (simp add: word_le_def)
    then show ?thesis by (simp add: minute_start_def utc_seconds_def base_date_def)
  qed
  with dates_ok_utc dates_ordered_utc rfc3339_ok_utc show ?thesis by (auto simp: minutes_fine_def)
qed

lemma weekly_asked:
  assumes "minutes_fine C" "63 \<notin> set p"
  shows "stand_in_asked C (minute_start C 3525120) (key_url_at p m) = Ok (Some (minute_start C (min m 3525120)))"
proof -
  note fine = minutes_fine(1,2) [OF assms(1)]
  have "min (minute_start C m) (minute_start C 3525120) = minute_start C (min m 3525120)"
    using minute_start_le [OF fine, of m 3525120] by (simp add: min_def)
  then show ?thesis
    using minute_start_valid(2) [OF fine(1), of Version3 m] stand_in_asked_eq [OF assms(2), of C _ m]
    by (simp add: asked_moment_def)
qed

lemma week_pem:
  assumes "weekly_fixture C E fixture pems" "i < 30"
  shows "\<exists>c. new_verify_only E (pems ! i) = Ok c"
  using assms by (simp add: weekly_fixture_def)

lemma weekly_unstated:
  fixes C :: "('t :: linorder) chrono"
  assumes "minutes_fine C" "weekly_fixture C E fixture pems" "63 \<notin> set p"
    and "i < 30" "week_start i \<le> min m 3525120" "min m 3525120 < week_start (Suc i) \<or> i = 29"
  shows "request_public_key C E (weekly_answer C E pems SpanNone) (key_url_at p m) = Ok (pems ! i, None, None)"
proof -
  let ?a = "published_answer_new (pems ! i) None None :: 't published_answer"
  note force = week_in_force [OF minutes_fine(1,2) [OF assms(1)] assms(4-6), of pems]
  have "weekly_answer C E pems SpanNone (key_url_at p m)
      = Ok \<lparr> response_status = 200, response_body = to_json C ?a \<rparr>"
    by (simp add: weekly_answer_def end_point_answer_def weekly_asked [OF assms(1,3)] force)
  moreover have "parse_answer C (to_json C ?a) = Ok ?a"
    by (rule minutes_fine(3) [OF assms(1)]) (simp_all add: published_answer_new_def)
  moreover have "validate E ?a None = Ok ()" using week_pem [OF assms(2,4)] by (simp add: validate_new)
  ultimately show ?thesis by (simp add: request_public_key_def) (simp add: published_answer_new_def)
qed

lemma weekly_response:
  fixes C :: "('t :: linorder) chrono"
  assumes "minutes_fine C" "weekly_fixture C E fixture pems" "63 \<notin> set p"
    and "i < 29" "week_start i \<le> min m 3525120" "min m 3525120 < week_start (Suc i)"
  defines "a \<equiv> published_answer_new (pems ! i) (Some (minute_start C (week_start i)))
    (Some (minute_start C (week_start (Suc i))))"
  shows "weekly_answer C E pems SpanStated (key_url_at p m) = Ok \<lparr> response_status = 200, response_body = to_json C a \<rparr>"
    and "validate E a None = Ok ()"
proof -
  note fine = minutes_fine(1,2) [OF assms(1)]
  have i: "i < 30" using assms(4) by simp
  note force = week_in_force [OF fine i assms(5) disjI1 [OF assms(6)], of pems] and nxt = week_next [OF fine assms(4)]
  have order: "week_start i < week_start (Suc i)" using assms(4) by (simp add: week_start_less)
  have valid: "validate E a (Some (minute_start C (min m 3525120))) = Ok ()"
    using week_pem [OF assms(2) i] order assms(5,6)
    by (simp add: a_def validate_new minute_start_less [OF fine] minute_start_le [OF fine])
  then show "weekly_answer C E pems SpanStated (key_url_at p m) = Ok \<lparr> response_status = 200, response_body = to_json C a \<rparr>"
    by (simp add: a_def weekly_answer_def end_point_answer_def weekly_asked [OF assms(1,3)] force nxt Let_def)
  show "validate E a None = Ok ()"
    using week_pem [OF assms(2) i] order by (simp add: a_def validate_new minute_start_less [OF fine])
qed

lemma weekly_stated:
  fixes C :: "('t :: linorder) chrono"
  assumes "minutes_fine C" "weekly_fixture C E fixture pems" "63 \<notin> set p"
    and "i < 29" "week_start i \<le> min m 3525120" "min m 3525120 < week_start (Suc i)"
  shows "request_public_key C E (weekly_answer C E pems SpanStated) (key_url_at p m)
    = Ok (pems ! i, Some (week_start i), Some (week_start (Suc i)))"
proof -
  let ?a = "published_answer_new (pems ! i) (Some (minute_start C (week_start i)))
    (Some (minute_start C (week_start (Suc i))))"
  have "parse_answer C (to_json C ?a) = Ok ?a"
    using assms(4) by (intro minutes_fine(3) [OF assms(1)]) (simp_all add: published_answer_new_def)
  then show ?thesis
    using weekly_response [OF assms] by (simp add: request_public_key_def)
      (simp add: published_answer_new_def minute_start_count(2) [OF minutes_fine(1) [OF assms(1)]])
qed

end
