(* ===== verification/Questions.thy ===== *)
theory Questions
  imports FetchTests
begin

text \<open>
  The questions a test of src/src/fetch.rs asks, one rule for each way one is answered: from
  what is held, by the creator with the key then not held, held as a new key, held alone
  because the cache was full, or held for longer. The tests rest on these.
\<close>

text \<open>The dates of the tests, in minutes.\<close>

definition test_dates :: "'t chrono \<Rightarrow> bool" where
  "test_dates C \<longleftrightarrow> (\<forall>(rfc, m) \<in> set [
     (''2026-08-24T00:00:00Z'', 3494880), (''2026-08-30T23:59:00Z'', 3504959), (''2026-08-31T00:00:00Z'', 3504960),
     (''2026-08-31T00:01:00Z'', 3504961), (''2026-09-01T00:00:00Z'', 3506400), (''2026-09-03T12:00:00Z'', 3510000),
     (''2026-09-06T23:00:00Z'', 3514980), (''2026-09-06T23:59:00Z'', 3515039)].
     parse_from_rfc3339 C (lit rfc) = Some (minute_start C m))"

lemma test_minutes:
  assumes "dates_ok C" "test_dates C"
  shows "minutes_at C (lit ''2026-08-24T00:00:00Z'') = Some 3494880"
    "minutes_at C (lit ''2026-08-30T23:59:00Z'') = Some 3504959"
    "minutes_at C (lit ''2026-08-31T00:00:00Z'') = Some 3504960"
    "minutes_at C (lit ''2026-08-31T00:01:00Z'') = Some 3504961"
    "minutes_at C (lit ''2026-09-01T00:00:00Z'') = Some 3506400"
    "minutes_at C (lit ''2026-09-03T12:00:00Z'') = Some 3510000"
    "minutes_at C (lit ''2026-09-06T23:00:00Z'') = Some 3514980"
    "minutes_at C (lit ''2026-09-06T23:59:00Z'') = Some 3515039"
  using assms(2) by (simp_all add: test_dates_def minutes_at_def minute_start_count(2) [OF assms(1)])

text \<open>A question whose answer is held, asked by a loop, and loops in parts.\<close>

lemma for_each_in_same: "(\<And>x. x \<in> set xs \<Longrightarrow> f x st = Some st) \<Longrightarrow> for_each_in xs f st = Some st"
  by (induction xs) auto

lemma for_each_in_cons: "f x st = Some st' \<Longrightarrow> for_each_in (x # xs) f st = for_each_in xs f st'"
  by simp

lemma for_each_in_append:
  "for_each_in (xs @ ys) f st = Option.bind (for_each_in xs f st) (for_each_in ys f)"
proof (induction xs arbitrary: st)
  case (Cons x xs)
  then show ?case by (cases "f x st") simp_all
qed simp

text \<open>Minutes long past.\<close>

definition long_past :: "'t chrono \<Rightarrow> 't \<Rightarrow> bool" where
  "long_past C now \<longleftrightarrow> 3515039 \<le> saturating_sub (now_minute C now) CLOCK_DRIFT_ALLOWANCE_MINUTES"

lemma long_past: "long_past C now \<Longrightarrow> m \<le> 3515039 \<Longrightarrow> recent C now m = False"
  by (auto simp: long_past_def recent_def not_less)

text \<open>A week of the fixture, by its number.\<close>

lemma week_starts:
  "week_start 14 = 3484800" "week_start 15 = 3494880" "week_start 16 = 3504960" "week_start 17 = 3515040"
  by (simp_all add: week_start_def)

lemma week_pems:
  assumes "weekly_fixture C E fixture pems" "i < 30" "j < 30" "i \<noteq> j"
  shows "pems ! i \<noteq> pems ! j"
  using assms by (simp add: weekly_fixture_def nth_eq_iff_index_eq)

text \<open>
  What a test knows of its process: the stub, the keys held for the end point it asks, how many
  keys are held in all, and how many requests were made.
\<close>

definition holding :: "transport \<Rightarrow> str \<Rightarrow> held_key list \<Rightarrow> nat \<Rightarrow> nat \<Rightarrow> process \<Rightarrow> bool" where
  "holding A p ks h n st \<longleftrightarrow>
     stub_answer (snd st) = A \<and> request_count st = n \<and> held_keys st = h
     \<and> (case cache_keys (fst st) p of None \<Rightarrow> ks = [] | Some ks' \<Rightarrow> ks' = ks)"

lemma holding_start: "holding A p [] 0 0 (clear_cache c, stub_new A)"
  by (simp add: holding_def clear_cache_def stub_new_def request_count_def held_keys_def)

lemma holding_counts:
  assumes "holding A p ks h n st"
  shows "request_count st = n" "held_keys st = h" "p = es scheme \<Longrightarrow> held_keys_at scheme st = length ks"
  using assms by (auto simp: holding_def held_keys_at_def es_def split: option.splits)

lemma holding_lookup:
  assumes "holding A p ks h n (c, s)"
  shows "held_for c p m r = map_option held_stated (List.find (\<lambda>k. held_covers k m \<and> (explicit k \<or> \<not> r)) ks)"
  using assms by (auto simp: holding_def held_for_def split: option.splits)

text \<open>A question answered from what is held.\<close>

lemma ask_held:
  assumes "63 \<notin> set p" "holding A p ks h n st"
    and "List.find (\<lambda>k. held_covers k m \<and> (explicit k \<or> \<not> recent C now m)) ks = Some k"
  shows "ask_stub C E now (key_url_at p m) st = (Ok (held_stated k), st)"
proof -
  obtain c s where st: "st = (c, s)" by fastforce
  with holding_lookup assms(2,3) have "held_for c p m (recent C now m) = Some (held_stated k)" by simp
  from ask_hit [OF assms(1) this] show ?thesis by (simp add: st)
qed

text \<open>
  A question the creator is asked: its key is not held, held as a new key, held alone where the
  cache was full, or held for longer.
\<close>

lemma ask_missed:
  assumes "63 \<notin> set p" "holding A p ks h n (c, s)"
    and "List.find (\<lambda>k. held_covers k m \<and> (explicit k \<or> \<not> recent C now m)) ks = None"
    and "request_public_key C E A (key_url_at p m) = Ok (pem, b, e)"
    and "hold (now_minute C now) c p (Some m) (recent C now m) pem b e = Ok (key_answer_stated pem b e, c')"
  obtains s' where "ask_stub C E now (key_url_at p m) (c, s) = (Ok (key_answer_stated pem b e), (c', s'))"
    "stub_answer s' = A" "length (requests s') = Suc n"
    "stub_dates s' = stub_dates s @ [Some (decimal (unat m))]"
proof -
  have "held_for c p m (recent C now m) = None" using holding_lookup [OF assms(2)] assms(3) by simp
  moreover have "stub_answer s = A" "length (requests s) = n"
    using assms(2) by (simp_all add: holding_def request_count_def)
  ultimately show thesis
    using ask_miss [OF assms(1) _ _ assms(5), where s = s] assms(4)
    by (intro that [of "s\<lparr> requests := requests s @ [key_url_at p m] \<rparr>"])
      (simp_all add: stub_dates_def query_value_date [OF assms(1)])
qed

lemma ask_not_held:
  assumes "63 \<notin> set p" "holding A p ks h n st"
    and "List.find (\<lambda>k. held_covers k m \<and> (explicit k \<or> \<not> recent C now m)) ks = None"
    and "request_public_key C E A (key_url_at p m) = Ok (pem, b, e)"
    and "span_to_hold (now_minute C now) (Some m) (recent C now m) b e = None"
  obtains st' where "ask_stub C E now (key_url_at p m) st = (Ok (key_answer_stated pem b e), st')"
    "holding A p ks h (Suc n) st'"
proof -
  obtain c s where st: "st = (c, s)" by fastforce
  have "hold (now_minute C now) c p (Some m) (recent C now m) pem b e = Ok (key_answer_stated pem b e, c)"
    by (simp add: hold_def assms(5))
  from ask_missed [OF assms(1) assms(2) [unfolded st] assms(3,4) this] obtain s' where
    "ask_stub C E now (key_url_at p m) (c, s) = (Ok (key_answer_stated pem b e), (c, s'))"
    "stub_answer s' = A" "length (requests s') = Suc n" .
  with assms(2) st show thesis
    by (intro that [of "(c, s')"]) (simp_all add: holding_def request_count_def held_keys_def)
qed

lemma ask_new_key:
  assumes "63 \<notin> set p" "holding A p ks h n (c, s)"
    and "List.find (\<lambda>k. held_covers k m \<and> (explicit k \<or> \<not> recent C now m)) ks = None"
    and "request_public_key C E A (key_url_at p m) = Ok (pem, b, e)"
    and "span_to_hold (now_minute C now) (Some m) (recent C now m) b e = Some (f, l, x, o')"
    and "\<And>k. k \<in> set ks \<Longrightarrow> held_pem k \<noteq> pem \<and> (last_minute k < f \<or> l < first_minute k)"
  obtains s' where "ask_stub C E now (key_url_at p m) (c, s) = (Ok (key_answer_stated pem b e), (hold_new c p
      \<lparr> held_pem = pem, first_minute = f, last_minute = l, explicit = x, open_ended = o' \<rparr>, s'))"
    "stub_answer s' = A" "length (requests s') = Suc n"
    "stub_dates s' = stub_dates s @ [Some (decimal (unat m))]"
proof -
  let ?k = "\<lparr> held_pem = pem, first_minute = f, last_minute = l, explicit = x, open_ended = o' \<rparr>"
  have "hold (now_minute C now) c p (Some m) (recent C now m) pem b e
      = Ok (key_answer_stated pem b e, hold_new c p ?k)"
  proof (cases "cache_keys c p")
    case (Some ks')
    then have "ks' = ks" using assms(2) by (simp add: holding_def)
    moreover have "position (\<lambda>k. held_pem k = pem) ks = None"
      using assms(6) by (auto simp: position_None_iff)
    moreover have "\<not> (\<exists>other \<in> set ks. last_minute other \<ge> f \<and> first_minute other \<le> l)"
      using assms(6) by (auto simp: not_le)
    ultimately show ?thesis using Some by (simp add: hold_def assms(5) Let_def del: bex_simps)
  qed (simp add: hold_def assms(5) Let_def)
  then show thesis by (rule ask_missed [OF assms(1-4)]) (rule that)
qed

lemma ask_new:
  assumes "63 \<notin> set p" "holding A p ks h n st" "h < MAXIMUM_CACHED_KEYS"
    and "List.find (\<lambda>k. held_covers k m \<and> (explicit k \<or> \<not> recent C now m)) ks = None"
    and "request_public_key C E A (key_url_at p m) = Ok (pem, b, e)"
    and "span_to_hold (now_minute C now) (Some m) (recent C now m) b e = Some (f, l, x, o')"
    and "\<And>k. k \<in> set ks \<Longrightarrow> held_pem k \<noteq> pem \<and> (last_minute k < f \<or> l < first_minute k)"
  obtains st' where "ask_stub C E now (key_url_at p m) st = (Ok (key_answer_stated pem b e), st')"
    "holding A p (ks @ [\<lparr> held_pem = pem, first_minute = f, last_minute = l, explicit = x, open_ended = o' \<rparr>])
      (Suc h) (Suc n) st'"
    "stub_dates (snd st') = stub_dates (snd st) @ [Some (decimal (unat m))]"
proof -
  obtain c s where st: "st = (c, s)" by fastforce
  let ?k = "\<lparr> held_pem = pem, first_minute = f, last_minute = l, explicit = x, open_ended = o' \<rparr>"
  from ask_new_key [OF assms(1) assms(2) [unfolded st] assms(4-7)] obtain s' where
    s': "ask_stub C E now (key_url_at p m) (c, s) = (Ok (key_answer_stated pem b e), (hold_new c p ?k, s'))"
      "stub_answer s' = A" "length (requests s') = Suc n"
      "stub_dates s' = stub_dates s @ [Some (decimal (unat m))]" .
  have "holding A p (ks @ [?k]) (Suc h) (Suc n) (hold_new c p ?k, s')"
    using assms(2,3) st s' by (auto simp: holding_def hold_new_def request_count_def held_keys_def Let_def
        split: option.splits)
  with s' st show thesis by (intro that [of "(hold_new c p ?k, s')"]) simp_all
qed

lemma ask_full:
  assumes "63 \<notin> set p" "holding A p ks h n st" "MAXIMUM_CACHED_KEYS \<le> h"
    and "List.find (\<lambda>k. held_covers k m \<and> (explicit k \<or> \<not> recent C now m)) ks = None"
    and "request_public_key C E A (key_url_at p m) = Ok (pem, b, e)"
    and "span_to_hold (now_minute C now) (Some m) (recent C now m) b e = Some (f, l, x, o')"
    and "\<And>k. k \<in> set ks \<Longrightarrow> held_pem k \<noteq> pem \<and> (last_minute k < f \<or> l < first_minute k)"
  obtains st' where "ask_stub C E now (key_url_at p m) st = (Ok (key_answer_stated pem b e), st')"
    "holding A p [\<lparr> held_pem = pem, first_minute = f, last_minute = l, explicit = x, open_ended = o' \<rparr>] 1 (Suc n) st'"
proof -
  obtain c s where st: "st = (c, s)" by fastforce
  let ?k = "\<lparr> held_pem = pem, first_minute = f, last_minute = l, explicit = x, open_ended = o' \<rparr>"
  from ask_new_key [OF assms(1) assms(2) [unfolded st] assms(4-7)] obtain s' where
    s': "ask_stub C E now (key_url_at p m) (c, s) = (Ok (key_answer_stated pem b e), (hold_new c p ?k, s'))"
      "stub_answer s' = A" "length (requests s') = Suc n" .
  have "holding A p [?k] 1 (Suc n) (hold_new c p ?k, s')"
    using assms(2,3) st s' by (simp add: holding_def hold_new_def request_count_def held_keys_def Let_def)
  with s' st show thesis by (intro that) simp_all
qed

lemma ask_wider:
  assumes "63 \<notin> set p" "holding A p ks h n st"
    and "List.find (\<lambda>k. held_covers k m \<and> (explicit k \<or> \<not> recent C now m)) ks = None"
    and "request_public_key C E A (key_url_at p m) = Ok (pem, b, e)"
    and "span_to_hold (now_minute C now) (Some m) (recent C now m) b e = Some (f, l, x, o')"
    and "position (\<lambda>k. held_pem k = pem) ks = Some i" "widen ks i f l = Ok (True, ks')"
  obtains st' where "ask_stub C E now (key_url_at p m) st = (Ok (key_answer_stated pem b e), st')"
    "holding A p (ks'[i := (ks' ! i)\<lparr> explicit := explicit (ks' ! i) \<or> x,
       open_ended := \<not> (explicit (ks' ! i) \<or> x) \<and> (open_ended (ks' ! i) \<or> o') \<rparr>]) h (Suc n) st'"
proof -
  obtain c s where st: "st = (c, s)" by fastforce
  let ?k = "(ks' ! i)\<lparr> explicit := explicit (ks' ! i) \<or> x,
    open_ended := \<not> (explicit (ks' ! i) \<or> x) \<and> (open_ended (ks' ! i) \<or> o') \<rparr>"
  let ?c = "c\<lparr> cache_keys := (cache_keys c)(p \<mapsto> ks'[i := ?k]) \<rparr>"
  have i: "i < length ks" using assms(6) by (simp add: position_Some_iff)
  then have ks': "i < length ks'" using assms(7) by (auto simp: widen_def Let_def split: if_splits)
  have "cache_keys c p = Some ks"
    using assms(2) st i by (auto simp: holding_def split: option.splits)
  then have "hold (now_minute C now) c p (Some m) (recent C now m) pem b e = Ok (key_answer_stated pem b e, ?c)"
    using assms(6,7) ks' by (simp add: hold_def assms(5) Let_def)
  from ask_missed [OF assms(1) assms(2) [unfolded st] assms(3,4) this] obtain s' where
    s': "ask_stub C E now (key_url_at p m) (c, s) = (Ok (key_answer_stated pem b e), (?c, s'))"
      "stub_answer s' = A" "length (requests s') = Suc n" .
  have "holding A p (ks'[i := ?k]) h (Suc n) (?c, s')"
    using assms(2) st s' by (simp add: holding_def request_count_def held_keys_def)
  with s' st show thesis by (intro that) simp_all
qed

lemma not_held_yet:
  assumes "f \<le> m" "m \<le> l" "\<And>k. k \<in> set ks \<Longrightarrow> held_pem k \<noteq> pem \<and> (last_minute k < f \<or> l < first_minute k)"
  shows "List.find (\<lambda>k. held_covers k m \<and> (explicit k \<or> \<not> r)) ks = None"
proof -
  have "\<not> held_covers k m" if "k \<in> set ks" for k
    using assms(1,2) assms(3) [OF that] by (auto simp: held_covers_def)
  then show ?thesis by (auto simp: find_None_iff)
qed

text \<open>The same of the key alone, as most tests ask for it.\<close>

lemma pem_at_answer:
  assumes "dates_ok C" "ample P" "ask_stub C E now (key_url_at (es scheme) m) st = (Ok a, st')"
  shows "pem_at C P E now scheme m st = Some (answer_pem a, st')"
  by (simp add: pem_at_asks [OF assms(1,2)] asked_pem_def assms(3))

lemma asked_held:
  assumes "dates_ok C" "ample P" "63 \<notin> set scheme" "holding A (es scheme) ks h n st"
    and "List.find (\<lambda>k. held_covers k m \<and> (explicit k \<or> \<not> recent C now m)) ks = Some k"
  shows "pem_at C P E now scheme m st = Some (held_pem k, st)"
  using pem_at_answer [OF assms(1,2) ask_held [OF es_query [OF assms(3)] assms(4,5)]] by simp

lemma asked_not_held:
  assumes "dates_ok C" "ample P" "63 \<notin> set scheme" "holding A (es scheme) ks h n st"
    and "List.find (\<lambda>k. held_covers k m \<and> (explicit k \<or> \<not> recent C now m)) ks = None"
    and "request_public_key C E A (key_url_at (es scheme) m) = Ok (pem, b, e)"
    and "span_to_hold (now_minute C now) (Some m) (recent C now m) b e = None"
  obtains st' where "pem_at C P E now scheme m st = Some (pem, st')" "holding A (es scheme) ks h (Suc n) st'"
  by (rule ask_not_held [OF es_query [OF assms(3)] assms(4-7)])
    (assumption | rule that [OF pem_at_answer [OF assms(1,2), where a = "key_answer_stated pem b e", simplified]])+

lemma asked_new:
  assumes "dates_ok C" "ample P" "63 \<notin> set scheme" "holding A (es scheme) ks h n st" "h < MAXIMUM_CACHED_KEYS"
    and "request_public_key C E A (key_url_at (es scheme) m) = Ok (pem, b, e)"
    and "span_to_hold (now_minute C now) (Some m) (recent C now m) b e = Some (f, l, x, o')" "f \<le> m" "m \<le> l"
    and "\<And>k. k \<in> set ks \<Longrightarrow> held_pem k \<noteq> pem \<and> (last_minute k < f \<or> l < first_minute k)"
  obtains st' where "pem_at C P E now scheme m st = Some (pem, st')"
    "holding A (es scheme) (ks @ [\<lparr> held_pem = pem, first_minute = f, last_minute = l, explicit = x, open_ended = o' \<rparr>])
      (Suc h) (Suc n) st'"
  by (rule ask_new [OF es_query [OF assms(3)] assms(4,5) not_held_yet [OF assms(8-10)] assms(6,7,10)])
    (assumption | rule that [OF pem_at_answer [OF assms(1,2), where a = "key_answer_stated pem b e", simplified]])+

lemma asked_full:
  assumes "dates_ok C" "ample P" "63 \<notin> set scheme" "holding A (es scheme) ks h n st" "MAXIMUM_CACHED_KEYS \<le> h"
    and "request_public_key C E A (key_url_at (es scheme) m) = Ok (pem, b, e)"
    and "span_to_hold (now_minute C now) (Some m) (recent C now m) b e = Some (f, l, x, o')" "f \<le> m" "m \<le> l"
    and "\<And>k. k \<in> set ks \<Longrightarrow> held_pem k \<noteq> pem \<and> (last_minute k < f \<or> l < first_minute k)"
  obtains st' where "pem_at C P E now scheme m st = Some (pem, st')"
    "holding A (es scheme) [\<lparr> held_pem = pem, first_minute = f, last_minute = l, explicit = x, open_ended = o' \<rparr>]
      1 (Suc n) st'"
  by (rule ask_full [OF es_query [OF assms(3)] assms(4,5) not_held_yet [OF assms(8-10)] assms(6,7,10)])
    (assumption | rule that [OF pem_at_answer [OF assms(1,2), where a = "key_answer_stated pem b e", simplified]])+

lemma asked_wider:
  assumes "dates_ok C" "ample P" "63 \<notin> set scheme" "holding A (es scheme) ks h n st"
    and "request_public_key C E A (key_url_at (es scheme) m) = Ok (pem, b, e)"
    and "span_to_hold (now_minute C now) (Some m) (recent C now m) b e = Some (f, l, x, o')"
    and "List.find (\<lambda>k. held_covers k m \<and> (explicit k \<or> \<not> recent C now m)) ks = None"
    and "position (\<lambda>k. held_pem k = pem) ks = Some i" "widen ks i f l = Ok (True, ks')"
  obtains st' where "pem_at C P E now scheme m st = Some (pem, st')"
    "holding A (es scheme) (ks'[i := (ks' ! i)\<lparr> explicit := explicit (ks' ! i) \<or> x,
       open_ended := \<not> (explicit (ks' ! i) \<or> x) \<and> (open_ended (ks' ! i) \<or> o') \<rparr>]) h (Suc n) st'"
  by (rule ask_wider [OF es_query [OF assms(3)] assms(4,7,5,6,8,9)])
    (assumption | rule that [OF pem_at_answer [OF assms(1,2), where a = "key_answer_stated pem b e", simplified]])+

text \<open>A key known only from the minutes it was confirmed for, and the questions of the weekly stub.\<close>

definition confirmed :: "str \<Rightarrow> u32 \<Rightarrow> u32 \<Rightarrow> held_key" where
  "confirmed pem f l = \<lparr> held_pem = pem, first_minute = f, last_minute = l, explicit = False, open_ended = False \<rparr>"

lemma confirmed_simps [simp]:
  "held_pem (confirmed p f l) = p" "first_minute (confirmed p f l) = f" "last_minute (confirmed p f l) = l"
  "explicit (confirmed p f l) = False" "open_ended (confirmed p f l) = False"
  "held_covers (confirmed p f l) m \<longleftrightarrow> f \<le> m \<and> m \<le> l"
  by (simp_all add: confirmed_def held_covers_def)

definition test_setting ::
    "('t :: linorder) chrono \<Rightarrow> platform \<Rightarrow> ('sk, 'vk, 'sg) p256 \<Rightarrow> str \<Rightarrow> str list \<Rightarrow> bool" where
  "test_setting C P E fixture pems \<longleftrightarrow>
     minutes_fine C \<and> ample P \<and> weekly_fixture C E fixture pems \<and> test_dates C"

lemma test_setting:
  assumes "test_setting C P E fixture pems"
  shows "minutes_fine C" "ample P" "weekly_fixture C E fixture pems" "test_dates C" "dates_ok C" "dates_ordered C"
  using assms minutes_fine(1,2) [of C] by (auto simp: test_setting_def)

lemma unstated_asked:
  assumes set: "test_setting C P E fixture pems" and "63 \<notin> set scheme"
    and "i < 30" "week_start i \<le> m" "m < week_start (Suc i)" "m \<le> 3515039"
  shows "request_public_key C E (weekly_answer C E pems SpanNone) (key_url_at (es scheme) m) = Ok (pems ! i, None, None)"
proof -
  have "min m 3525120 = m" using assms(6) by (simp add: min_def word_le_nat_alt)
  then show ?thesis
    using assms(4,5) by (intro weekly_unstated [OF test_setting(1,3) [OF set] es_query [OF assms(2)] assms(3)]) simp_all
qed

lemma unstated_new:
  assumes set: "test_setting C P E fixture pems" and "63 \<notin> set scheme" "long_past C now"
    and "holding (weekly_answer C E pems SpanNone) (es scheme) ks h n st" "h < MAXIMUM_CACHED_KEYS"
    and "i < 30" "week_start i \<le> m" "m < week_start (Suc i)" "m \<le> 3515039"
    and "\<And>k. k \<in> set ks \<Longrightarrow> held_pem k \<noteq> pems ! i \<and> (last_minute k < m \<or> m < first_minute k)"
  obtains st' where "pem_at C P E now scheme m st = Some (pems ! i, st')"
    "holding (weekly_answer C E pems SpanNone) (es scheme) (ks @ [confirmed (pems ! i) m m]) (Suc h) (Suc n) st'"
proof -
  note unstated_asked [OF set assms(2,6-9)]
  moreover have "span_to_hold (now_minute C now) (Some m) (recent C now m) None None = Some (m, m, False, False)"
    using long_past [OF assms(3,9)] by (simp add: span_to_hold_def)
  ultimately show thesis
    using asked_new [OF test_setting(5,2) [OF set] assms(2,4,5) _ _ order.refl order.refl assms(10)] that
    by (metis confirmed_def)
qed

lemma unstated_wider_at:
  assumes set: "test_setting C P E fixture pems" and "63 \<notin> set scheme" "long_past C now"
    and "holding (weekly_answer C E pems SpanNone) (es scheme) ks h n st"
    and "i < 30" "week_start i \<le> m" "m < week_start (Suc i)" "m \<le> 3515039"
    and "distinct (map held_pem ks)" "j < length ks" "ks ! j = confirmed (pems ! i) f l" "m < f \<or> l < m"
    and "\<And>k. k < length ks \<Longrightarrow> k \<noteq> j \<Longrightarrow> last_minute (ks ! k) < min m f \<or> max m l < first_minute (ks ! k)"
  obtains st' where "pem_at C P E now scheme m st = Some (pems ! i, st')"
    "holding (weekly_answer C E pems SpanNone) (es scheme) (ks[j := confirmed (pems ! i) (min m f) (max m l)]) h (Suc n) st'"
proof -
  let ?ks = "ks[j := confirmed (pems ! i) (min m f) (max m l)]"
  note unstated_asked [OF set assms(2,5-8)]
  moreover have "span_to_hold (now_minute C now) (Some m) (recent C now m) None None = Some (m, m, False, False)"
    using long_past [OF assms(3,8)] by (simp add: span_to_hold_def)
  moreover have "\<not> held_covers k m" if "k \<in> set ks" for k
  proof -
    from that obtain a where a: "a < length ks" "ks ! a = k" by (auto simp: in_set_conv_nth)
    then show ?thesis using assms(11,12) assms(13) [OF a(1)] by (cases "a = j") (auto simp: held_covers_def)
  qed
  then have "List.find (\<lambda>k. held_covers k m \<and> (explicit k \<or> \<not> recent C now m)) ks = None"
    by (auto simp: find_None_iff)
  moreover have "position (\<lambda>k. held_pem k = pems ! i) ks = Some j"
  proof -
    have "held_pem (ks ! a) \<noteq> pems ! i" if "a < j" for a
      using that assms(10,11) nth_eq_iff_index_eq [OF assms(9), of a j] by simp
    with assms(10,11) show ?thesis by (simp add: position_Some_iff)
  qed
  moreover have "widen ks j m m = Ok (True, ?ks)"
    using assms(10,11) assms(13) by (fastforce simp: widen_result Let_def disjoint_spans_def confirmed_def)
  ultimately obtain st' where st': "pem_at C P E now scheme m st = Some (pems ! i, st')"
    and h: "holding (weekly_answer C E pems SpanNone) (es scheme) (?ks[j := (?ks ! j)\<lparr> explicit := explicit (?ks ! j) \<or> False,
       open_ended := \<not> (explicit (?ks ! j) \<or> False) \<and> (open_ended (?ks ! j) \<or> False) \<rparr>]) h (Suc n) st'"
    by (rule asked_wider [OF test_setting(5,2) [OF set] assms(2,4)])
  have "(?ks ! j)\<lparr> explicit := explicit (?ks ! j) \<or> False,
      open_ended := \<not> (explicit (?ks ! j) \<or> False) \<and> (open_ended (?ks ! j) \<or> False) \<rparr>
    = confirmed (pems ! i) (min m f) (max m l)"
    using assms(10) by (simp add: confirmed_def)
  with h have "holding (weekly_answer C E pems SpanNone) (es scheme) ?ks h (Suc n) st'" by simp
  with st' show thesis by (rule that)
qed

lemma unstated_wider:
  assumes set: "test_setting C P E fixture pems" and "63 \<notin> set scheme" "long_past C now"
    and "holding (weekly_answer C E pems SpanNone) (es scheme) ks h n st"
    and "i < 30" "week_start i \<le> m" "m < week_start (Suc i)" "m \<le> 3515039"
    and "distinct (map held_pem ks)" "j < length ks" "ks ! j = confirmed (pems ! i) f l" "m < f \<or> l < m"
    and "\<forall>k \<in> set (take j ks @ drop (Suc j) ks). last_minute k < min m f \<or> max m l < first_minute k"
  obtains st' where "pem_at C P E now scheme m st = Some (pems ! i, st')"
    "holding (weekly_answer C E pems SpanNone) (es scheme) (ks[j := confirmed (pems ! i) (min m f) (max m l)]) h (Suc n) st'"
proof -
  have others: "ks ! k \<in> set (take j ks @ drop (Suc j) ks)" if "k < length ks" "k \<noteq> j" for k
  proof (cases "k < j")
    case True
    then have "take j ks ! k \<in> set (take j ks)" using that by (intro nth_mem) simp
    with True show ?thesis by simp
  next
    case False
    then have "drop (Suc j) ks ! (k - Suc j) \<in> set (drop (Suc j) ks)" using that by (intro nth_mem) simp
    with False that show ?thesis by simp
  qed
  show thesis
  proof (rule unstated_wider_at [OF assms(1-12)])
    show "last_minute (ks ! k) < min m f \<or> max m l < first_minute (ks ! k)" if "k < length ks" "k \<noteq> j" for k
      using assms(13) others [OF that] by (rule bspec)
  qed (rule that)
qed

lemma asked_stated:
  assumes set: "test_setting C P E fixture pems" and "63 \<notin> set scheme"
    and "holding (weekly_answer C E pems SpanStated) (es scheme) ks h n st" "h < MAXIMUM_CACHED_KEYS"
    and "i < 29" "week_start i \<le> m" "m < week_start (Suc i)" "m \<le> 3515039"
    and "\<And>k. k \<in> set ks \<Longrightarrow> held_pem k \<noteq> pems ! i
      \<and> (last_minute k < week_start i \<or> week_start (Suc i) - 1 < first_minute k)"
  obtains st' where "pem_at C P E now scheme m st = Some (pems ! i, st')"
    "holding (weekly_answer C E pems SpanStated) (es scheme) (ks @ [\<lparr> held_pem = pems ! i, first_minute = week_start i,
       last_minute = week_start (Suc i) - 1, explicit = True, open_ended = False \<rparr>]) (Suc h) (Suc n) st'"
proof -
  have "min m 3525120 = m" using assms(8) by (simp add: min_def word_le_nat_alt)
  then have "request_public_key C E (weekly_answer C E pems SpanStated) (key_url_at (es scheme) m)
      = Ok (pems ! i, Some (week_start i), Some (week_start (Suc i)))"
    using assms(6,7) by (intro weekly_stated [OF test_setting(1,3) [OF set] es_query [OF assms(2)] assms(5)]) simp_all
  moreover have "span_to_hold (now_minute C now) (Some m) (recent C now m) (Some (week_start i)) (Some (week_start (Suc i)))
      = Some (week_start i, week_start (Suc i) - 1, True, False)"
    using assms(5) by (simp add: span_to_hold_def week_start_less)
  moreover have "m \<le> week_start (Suc i) - 1"
    using assms(7) by (rule pred_lt)
  ultimately show thesis
    using asked_new [OF test_setting(5,2) [OF set] assms(2-4) _ _ assms(6) _ assms(9)] that by metis
qed

lemma weekly_schedule: "weekly_fixture C E fixture pems \<Longrightarrow> schedule_of C fixture = Ok (weeks C pems)"
  by (simp add: weekly_fixture_def weeks_def)

lemma in_force_at_week:
  assumes set: "test_setting C P E fixture pems"
    and "i < 30" "week_start i \<le> m" "m < week_start (Suc i) \<or> i = 29"
  shows "in_force_at C (weeks C pems) m = Some (pems ! i)"
  using week_in_force [OF test_setting(5,6) [OF set] assms(2-4)]
  by (simp add: in_force_at_def minute_start_valid(2) [OF test_setting(5) [OF set], of Version3])

text \<open>A question no key is held for, of a creator that states no span: every minute from the first week on.\<close>

lemma week_of:
  assumes "3343680 \<le> m"
  obtains i where "i < 30" "week_start i \<le> m" "m < week_start (Suc i) \<or> i = 29"
proof -
  let ?i = "min 29 ((unat m - 3343680) div 10080)"
  have "3343680 \<le> unat m" using assms by (simp add: word_le_nat_alt)
  moreover have "(unat m - 3343680) div 10080 * 10080 \<le> unat m - 3343680" by (rule div_times_less_eq_dividend)
  moreover have "unat m - 3343680 < ((unat m - 3343680) div 10080 + 1) * 10080"
    by (metis dividend_less_div_times add.commute mult.commute mult_Suc_right Suc_eq_plus1 zero_less_numeral)
  ultimately show thesis
    by (intro that [of ?i]) (auto simp: word_le_nat_alt word_less_nat_alt unat_week_start min_def)
qed

lemma unstated_some:
  assumes set: "test_setting C P E fixture pems" and "63 \<notin> set p" "3343680 \<le> m"
  obtains pem where "request_public_key C E (weekly_answer C E pems SpanNone) (key_url_at p m) = Ok (pem, None, None)"
proof -
  have "3343680 \<le> min m 3525120" using assms(3) by (simp add: word_le_nat_alt min_def)
  from week_of [OF this] obtain i where "i < 30" "week_start i \<le> min m 3525120"
    "min m 3525120 < week_start (Suc i) \<or> i = 29" .
  from weekly_unstated [OF test_setting(1,3) [OF set] assms(2) this] show thesis by (rule that)
qed

text \<open>A question with no date.\<close>

lemma undated_query: "query_value (p @ lit ''?format=spki'') (lit ''date'') = None" "minute_of (p @ lit ''?format=spki'') = None"
  if "63 \<notin> set p"
proof -
  have u: "p @ lit ''?format=spki'' = p @ 63 # lit ''format=spki''" by (simp add: lit_def)
  show "query_value (p @ lit ''?format=spki'') (lit ''date'') = None" "minute_of (p @ lit ''?format=spki'') = None"
    by (simp_all add: u query_value_def minute_of_def split_once_url [OF that]) (simp_all add: lit_def strip_prefix_def)
qed

lemma undated_asked:
  assumes set: "test_setting C P E fixture pems" and "63 \<notin> set p"
    and "holding (weekly_answer C E pems SpanNone) (es scheme) ks h n st"
  obtains st' where "asked_pem C E now (p @ lit ''?format=spki'') st = Some (pems ! 18, st')"
    "holding (weekly_answer C E pems SpanNone) (es scheme) ks h (Suc n) st'"
proof -
  obtain c s where st: "st = (c, s)" by fastforce
  note undated = undated_query [OF assms(2)]
  let ?a = "published_answer_new (pems ! 18) None None :: 'a published_answer"
  have "stand_in_asked C (minute_start C 3525120) (p @ lit ''?format=spki'') = Ok (Some (minute_start C 3525120))"
    by (simp add: stand_in_asked_def undated)
  moreover have "stand_in_key_in_force (weeks C pems) (minute_start C 3525120)
      = Some \<lparr> scheduled_start = minute_start C (week_start 18), scheduled_pem = pems ! 18 \<rparr>"
    using week_in_force [OF test_setting(5,6) [OF set], of 18 3525120 pems] by (simp add: week_start_def)
  ultimately have "weekly_answer C E pems SpanNone (p @ lit ''?format=spki'')
      = Ok \<lparr> response_status = 200, response_body = to_json C ?a \<rparr>"
    by (simp add: weekly_answer_def end_point_answer_def)
  moreover have "parse_answer C (to_json C ?a) = Ok ?a"
    by (rule minutes_fine(3) [OF test_setting(1) [OF set]]) (simp_all add: published_answer_new_def)
  moreover have "validate E ?a None = Ok ()"
    using week_pem [OF test_setting(3) [OF set], of 18] by (simp add: validate_new)
  ultimately have "request_public_key C E (weekly_answer C E pems SpanNone) (p @ lit ''?format=spki'') = Ok (pems ! 18, None, None)"
    by (simp add: request_public_key_def) (simp add: published_answer_new_def)
  then have "ask_stub C E now (p @ lit ''?format=spki'') (c, s)
      = (Ok (key_answer_stated (pems ! 18) None None), (c, s\<lparr> requests := requests s @ [p @ lit ''?format=spki''] \<rparr>))"
    using assms(3) st by (simp add: ask_stub_def key_at_url_def cached_answer_def is_recent_url_def undated
        fetch_outcome_def stub_fetch_def holding_def hold_def span_to_hold_def)
  then show thesis
    using assms(3) st by (intro that [of "(c, s\<lparr> requests := requests s @ [p @ lit ''?format=spki''] \<rparr>)"])
      (simp_all add: asked_pem_def key_answer_unknown_def holding_def request_count_def held_keys_def)
qed

lemma test_extremes:
  "min (3514980::u32) 3504961 = 3504961" "max (3514980::u32) 3504961 = 3514980"
  by (simp_all add: min_def max_def word_le_nat_alt)

lemma two_requests: "Suc (Suc 0) = 2" "Suc 2 = 3" by simp_all

end
