(* ===== verification/SpanTests.thy ===== *)
theory SpanTests
  imports Questions
begin

text \<open>
  The unit tests of src/src/fetch.rs on which minutes a key is held for: between the minutes
  the creator confirmed, across the span it stated, within the drift allowance of now, and up
  to the bound of the cache. \<open>c\<close> is what earlier tests left in the cache they share.
\<close>

section \<open>Definitions\<close>

definition keys_are_held_per_request_and_not_per_domain ::
    "('t :: linorder) chrono \<Rightarrow> platform \<Rightarrow> ('sk, 'vk, 'sg) p256 \<Rightarrow> str \<Rightarrow> 't \<Rightarrow> cache \<Rightarrow> unit option" where
  "keys_are_held_per_request_and_not_per_domain C P E fixture now c = do {
     stub <- expect (end_point C E fixture);
     earlier <- crafted C P Version3 (lit ''51d.es'') (IDENTIFIER_MINUTES - 14 * 24 * 60);
     later <- crafted C P Version3 (lit ''51d.es'') IDENTIFIER_MINUTES;
     (p, st) <- asked_pem C E now (public_key_url C earlier (lit ''stub-held'')) (c, stub);
     (q, st) <- asked_pem C E now (public_key_url C later (lit ''stub-held'')) st;
     assert_that (p \<noteq> q);
     assert_that (request_count st = 2);
     (again, st) <- asked_pem C E now (public_key_url C earlier (lit ''stub-held'')) st;
     assert_that (again = p);
     assert_that (request_count st = 2)
   }"

definition a_minute_between_two_confirmed_minutes_is_served_from_the_cache ::
    "('t :: linorder) chrono \<Rightarrow> platform \<Rightarrow> ('sk, 'vk, 'sg) p256 \<Rightarrow> str \<Rightarrow> 't \<Rightarrow> cache \<Rightarrow> unit option" where
  "a_minute_between_two_confirmed_minutes_is_served_from_the_cache C P E fixture now c = do {
     stub <- expect (end_point_stating C E fixture SpanNone);
     f <- minutes_at C (lit ''2026-08-31T00:01:00Z'');
     l <- minutes_at C (lit ''2026-09-06T23:00:00Z'');
     (pem, st) <- pem_at C P E now (lit ''stub-span'') f (clear_cache c, stub);
     (again, st) <- pem_at C P E now (lit ''stub-span'') l st;
     assert_that (again = pem);
     assert_that (request_count st = 2);
     st <- for_each_in [f + 1, f + 3 * 24 * 60, l - 1] (\<lambda>between st. do {
       (again, st) <- pem_at C P E now (lit ''stub-span'') between st;
       assert_that (again = pem);
       Some st
     }) st;
     assert_that (request_count st = 2);
     assert_that (held_keys_at (lit ''stub-span'') st = 1);
     (other, st) <- pem_at C P E now (lit ''stub-span'') (f - 2) st;
     assert_that (other \<noteq> pem);
     assert_that (request_count st = 3);
     assert_that (held_keys_at (lit ''stub-span'') st = 2)
   }"

definition a_hundred_identifiers_in_one_confirmed_period_make_no_request ::
    "('t :: linorder) chrono \<Rightarrow> platform \<Rightarrow> ('sk, 'vk, 'sg) p256 \<Rightarrow> str \<Rightarrow> 't \<Rightarrow> cache \<Rightarrow> unit option" where
  "a_hundred_identifiers_in_one_confirmed_period_make_no_request C P E fixture now c = do {
     stub <- expect (end_point_stating C E fixture SpanNone);
     start <- minutes_at C (lit ''2026-09-01T00:00:00Z'');
     (_, st) <- pem_at C P E now (lit ''stub-hundred'') start (clear_cache c, stub);
     (_, st) <- pem_at C P E now (lit ''stub-hundred'') (start + 100) st;
     st <- for_each_in [1..<101] (\<lambda>i st. do {
       (_, st) <- pem_at C P E now (lit ''stub-hundred'') (start + of_nat i) st;
       Some st
     }) st;
     assert_that (request_count st = 2)
   }"

definition a_key_is_never_served_for_a_minute_outside_its_confirmed_span ::
    "('t :: linorder) chrono \<Rightarrow> platform \<Rightarrow> ('sk, 'vk, 'sg) p256 \<Rightarrow> str \<Rightarrow> 't \<Rightarrow> cache \<Rightarrow> unit option" where
  "a_key_is_never_served_for_a_minute_outside_its_confirmed_span C P E fixture now c = do {
     schedule <- expect (schedule_of C fixture);
     stub <- expect (end_point_stating C E fixture SpanNone);
     rotation <- minutes_at C (lit ''2026-08-31T00:00:00Z'');
     let week = 7 * 24 * 60;
     (_, st) <- pem_at C P E now (lit ''stub-rotation'') (rotation - week) (clear_cache c, stub);
     (_, st) <- pem_at C P E now (lit ''stub-rotation'') (rotation + week - 1) st;
     assert_that (request_count st = 2);
     assert_that (held_keys_at (lit ''stub-rotation'') st = 2);
     let minutes = [rotation - 1, rotation, rotation - 2, rotation + 1, rotation - week div 2,
       rotation + week div 2, rotation - 3, rotation + 2, rotation - 1, rotation];
     let as_scheduled = (\<lambda>minute st. do {
       (pem, st) <- pem_at C P E now (lit ''stub-rotation'') minute st;
       in_force <- in_force_at C schedule minute;
       assert_that (pem = in_force);
       Some st
     });
     st <- for_each_in minutes as_scheduled st;
     assert_that (held_keys_at (lit ''stub-rotation'') st = 2);
     let asked = request_count st;
     assert_that (asked > 2 \<and> asked < 2 + length minutes);
     st <- for_each_in (map (\<lambda>i. rotation - week + 60 * of_nat i) [0..<336]) as_scheduled st;
     assert_that (request_count st = asked)
   }"

definition a_minute_within_the_drift_allowance_is_not_held ::
    "('t :: linorder) chrono \<Rightarrow> platform \<Rightarrow> ('sk, 'vk, 'sg) p256 \<Rightarrow> str \<Rightarrow> 't \<Rightarrow> cache \<Rightarrow> unit option" where
  "a_minute_within_the_drift_allowance_is_not_held C P E fixture now c = do {
     stub <- expect (end_point_stating C E fixture SpanNone);
     started <- minutes_since_base C now;
     let recent = started - 1;
     (_, st) <- pem_at C P E now (lit ''stub-drift'') recent (clear_cache c, stub);
     (_, st) <- pem_at C P E now (lit ''stub-drift'') recent st;
     (_, st) <- pem_at C P E now (lit ''stub-drift'') (started + 7 * 24 * 60) st;
     (_, st) <- asked_pem C E now (lit ''stub-drift://51d.es/owid/api/v3/public-key?format=spki'') st;
     let old = started - CLOCK_DRIFT_ALLOWANCE_MINUTES - 1;
     (_, st) <- pem_at C P E now (lit ''stub-drift'') old st;
     (_, st) <- pem_at C P E now (lit ''stub-drift'') old st;
     assert_that (request_count st = 5);
     assert_that (held_keys_at (lit ''stub-drift'') st = 1)
   }"

text \<open>The key drawn for a minute is drawn once, by its date in the URL.\<close>

definition bounded_answer ::
    "'t chrono \<Rightarrow> ('sk, 'vk, 'sg) p256 \<Rightarrow> (str \<Rightarrow> 'sk) \<Rightarrow> transport" where
  "bounded_answer C E drawn url =
     (case query_value url (lit ''date'') of
        None \<Rightarrow> Panic
      | Some minute \<Rightarrow>
          (case public_key_pem E (crypto_new E (drawn minute)) of
             Ok pem \<Rightarrow> Ok \<lparr> response_status = 200,
               response_body = to_json C (published_answer_new pem None None) \<rparr>
           | _ \<Rightarrow> Panic))"

definition the_cache_is_bounded ::
    "('t :: linorder) chrono \<Rightarrow> platform \<Rightarrow> ('sk, 'vk, 'sg) p256 \<Rightarrow> (str \<Rightarrow> 'sk) \<Rightarrow> 't \<Rightarrow> cache \<Rightarrow> unit option" where
  "the_cache_is_bounded C P E drawn now c = do {
     let stub = stub_new (bounded_answer C E drawn);
     st <- for_each_in [0..<MAXIMUM_CACHED_KEYS + 1] (\<lambda>minute st. do {
       (_, st) <- pem_at C P E now (lit ''stub-bounded'') (of_nat minute) st;
       Some st
     }) (clear_cache c, stub);
     assert_that (request_count st = MAXIMUM_CACHED_KEYS + 1);
     assert_that (held_keys st \<le> MAXIMUM_CACHED_KEYS)
   }"

definition a_key_answered_with_its_span_is_held_for_the_whole_span ::
    "('t :: linorder) chrono \<Rightarrow> platform \<Rightarrow> ('sk, 'vk, 'sg) p256 \<Rightarrow> str \<Rightarrow> 't \<Rightarrow> cache \<Rightarrow> unit option" where
  "a_key_answered_with_its_span_is_held_for_the_whole_span C P E fixture now c = do {
     stub <- expect (end_point C E fixture);
     m <- minutes_at C (lit ''2026-08-31T00:01:00Z'');
     (pem, st) <- pem_at C P E now (lit ''stub-stated'') m (clear_cache c, stub);
     st <- for_each_in [lit ''2026-09-06T23:59:00Z'', lit ''2026-09-03T12:00:00Z'', lit ''2026-08-31T00:00:00Z'']
       (\<lambda>at st. do {
         m <- minutes_at C at;
         (again, st) <- pem_at C P E now (lit ''stub-stated'') m st;
         assert_that (again = pem);
         Some st
       }) st;
     assert_that (request_count st = 1);
     assert_that (held_keys_at (lit ''stub-stated'') st = 1);
     m <- minutes_at C (lit ''2026-08-30T23:59:00Z'');
     (other, st) <- pem_at C P E now (lit ''stub-stated'') m st;
     assert_that (other \<noteq> pem);
     m <- minutes_at C (lit ''2026-08-24T00:00:00Z'');
     (_, st) <- pem_at C P E now (lit ''stub-stated'') m st;
     assert_that (request_count st = 2)
   }"

definition a_recent_minute_is_served_where_the_creator_stated_the_span ::
    "('t :: linorder) chrono \<Rightarrow> platform \<Rightarrow> ('sk, 'vk, 'sg) p256 \<Rightarrow> str \<Rightarrow> 't \<Rightarrow> cache \<Rightarrow> unit option" where
  "a_recent_minute_is_served_where_the_creator_stated_the_span C P E fixture now c = do {
     started <- minutes_since_base C now;
     let day = 24 * 60;
     schedule <- expect (schedule_of C fixture);
     key <- get schedule 0;
     since <- add_minutes C (base_date C) (uint (started - day));
     until <- add_minutes C (base_date C) (uint (started + day));
     let answer = to_json C (published_answer_new (scheduled_pem key) (Some since) (Some until));
     let stub = stub_new (\<lambda>_. Ok \<lparr> response_status = 200, response_body = answer \<rparr>);
     (_, st) <- pem_at C P E now (lit ''stub-recent'') (started - 1) (clear_cache c, stub);
     (_, st) <- pem_at C P E now (lit ''stub-recent'') started st;
     (_, st) <- pem_at C P E now (lit ''stub-recent'') (started - 10) st;
     assert_that (request_count st = 1)
   }"

section \<open>Lemmas\<close>

lemma between_confirmed_passes:
  assumes set: "test_setting C P E fixture pems" and past: "long_past C now"
  shows "a_minute_between_two_confirmed_minutes_is_served_from_the_cache C P E fixture now c = Some ()"
proof -
  let ?sch = "lit ''stub-span''" and ?A = "weekly_answer C E pems SpanNone"
  have q: "63 \<notin> set ?sch" by (simp add: lit_def)
  note new = unstated_new [OF set q past] and wider = unstated_wider [OF set q past]
    and held = asked_held [OF test_setting(5,2) [OF set] q]
  obtain st1 where 1: "pem_at C P E now ?sch 3504961 (clear_cache c, stub_new ?A) = Some (pems ! 16, st1)"
    "holding ?A (es ?sch) [confirmed (pems ! 16) 3504961 3504961] 1 1 st1"
    using new [OF holding_start, of 16 3504961 c] by (auto simp: MAXIMUM_CACHED_KEYS_def week_starts)
  obtain st2 where 2: "pem_at C P E now ?sch 3514980 st1 = Some (pems ! 16, st2)"
    "holding ?A (es ?sch) [confirmed (pems ! 16) 3504961 3514980] 1 2 st2"
    using wider [OF 1(2), of 16 3514980 0 3504961 3504961] by (simp add: week_starts test_extremes two_requests) blast
  have hit: "pem_at C P E now ?sch m st2 = Some (pems ! 16, st2)" if "3504961 \<le> m" "m \<le> 3514980" for m
    using held [OF 2(2), of m now "confirmed (pems ! 16) 3504961 3514980"] that long_past [OF past, of m]
    by (simp add: word_le_nat_alt)
  obtain st3 where 3: "pem_at C P E now ?sch 3504959 st2 = Some (pems ! 15, st3)"
    "holding ?A (es ?sch) [confirmed (pems ! 16) 3504961 3514980, confirmed (pems ! 15) 3504959 3504959] 2 3 st3"
    using new [OF 2(2), of 15 3504959] week_pems [OF test_setting(3) [OF set], of 15 16]
    by (simp add: MAXIMUM_CACHED_KEYS_def week_starts two_requests) blast
  show ?thesis
    using 1(1) 2(1) hit 3(1) week_pems [OF test_setting(3) [OF set], of 15 16]
    by (simp add: a_minute_between_two_confirmed_minutes_is_served_from_the_cache_def
        weekly_stub [OF test_setting(3) [OF set]] test_minutes [OF test_setting(5,4) [OF set]]
        holding_counts [OF 2(2)] holding_counts [OF 3(2)])
qed

lemma hundred_passes:
  assumes set: "test_setting C P E fixture pems" and past: "long_past C now"
  shows "a_hundred_identifiers_in_one_confirmed_period_make_no_request C P E fixture now c = Some ()"
proof -
  let ?sch = "lit ''stub-hundred''" and ?A = "weekly_answer C E pems SpanNone"
  have q: "63 \<notin> set ?sch" by (simp add: lit_def)
  note new = unstated_new [OF set q past] and wider = unstated_wider [OF set q past]
    and held = asked_held [OF test_setting(5,2) [OF set] q]
  obtain st1 where 1: "pem_at C P E now ?sch 3506400 (clear_cache c, stub_new ?A) = Some (pems ! 16, st1)"
    "holding ?A (es ?sch) [confirmed (pems ! 16) 3506400 3506400] 1 1 st1"
    using new [OF holding_start, of 16 3506400 c] by (auto simp: MAXIMUM_CACHED_KEYS_def week_starts)
  obtain st2 where 2: "pem_at C P E now ?sch 3506500 st1 = Some (pems ! 16, st2)"
    "holding ?A (es ?sch) [confirmed (pems ! 16) 3506400 3506500] 1 2 st2"
    using wider [OF 1(2), of 16 3506500 0 3506400 3506400]
    by (simp add: week_starts min_def max_def word_le_nat_alt two_requests) blast
  have hit: "pem_at C P E now ?sch (3506400 + of_nat i) st2 = Some (pems ! 16, st2)" if "i \<in> set [1..<101]" for i
  proof -
    have "unat (3506400 + of_nat i :: u32) = 3506400 + i"
      using that unat_of_nat [where 'a = 32, of "3506400 + i"] by simp
    with that show ?thesis
      using held [OF 2(2), of "3506400 + of_nat i" now "confirmed (pems ! 16) 3506400 3506500"]
        long_past [OF past, of "3506400 + of_nat i"]
      by (simp add: word_le_nat_alt)
  qed
  have "for_each_in [1..<101] (\<lambda>i st. do {
       (_, st) <- pem_at C P E now ?sch (3506400 + of_nat i) st;
       Some st
     }) st2 = Some st2" by (rule for_each_in_same) (simp add: hit)
  with 1(1) 2(1) show ?thesis
    by (simp add: a_hundred_identifiers_in_one_confirmed_period_make_no_request_def
        weekly_stub [OF test_setting(3) [OF set]] test_minutes [OF test_setting(5,4) [OF set]]
        holding_counts [OF 2(2)])
qed

lemma whole_span_passes:
  assumes set: "test_setting C P E fixture pems"
  shows "a_key_answered_with_its_span_is_held_for_the_whole_span C P E fixture now c = Some ()"
proof -
  let ?sch = "lit ''stub-stated''" and ?A = "weekly_answer C E pems SpanStated"
  let ?k = "\<lambda>i. \<lparr> held_pem = pems ! i, first_minute = week_start i, last_minute = week_start (Suc i) - 1,
    explicit = True, open_ended = False \<rparr>"
  have q: "63 \<notin> set ?sch" by (simp add: lit_def)
  note asked = asked_stated [OF set q] and held = asked_held [OF test_setting(5,2) [OF set] q]
    and pems = week_pems [OF test_setting(3) [OF set], of 15 16]
  obtain st1 where 1: "pem_at C P E now ?sch 3504961 (clear_cache c, stub_new ?A) = Some (pems ! 16, st1)"
    "holding ?A (es ?sch) [?k 16] 1 1 st1"
    using asked [OF holding_start, of 16 3504961 now c] by (auto simp: MAXIMUM_CACHED_KEYS_def week_starts)
  have hit1: "pem_at C P E now ?sch m st1 = Some (pems ! 16, st1)" if "3504960 \<le> m" "m \<le> 3515039" for m
    using held [OF 1(2), of m now "?k 16"] that by (simp add: held_covers_def week_starts)
  obtain st2 where 2: "pem_at C P E now ?sch 3504959 st1 = Some (pems ! 15, st2)"
    "holding ?A (es ?sch) [?k 16, ?k 15] 2 2 st2"
    using asked [OF 1(2), of 15 3504959 now] pems
    by (simp add: MAXIMUM_CACHED_KEYS_def week_starts two_requests) blast
  have hit2: "pem_at C P E now ?sch 3494880 st2 = Some (pems ! 15, st2)"
    using held [OF 2(2), of 3494880 now "?k 15"] by (simp add: held_covers_def week_starts)
  show ?thesis
    using 1(1) 2(1) hit1 hit2 pems
    by (simp add: a_key_answered_with_its_span_is_held_for_the_whole_span_def end_point_def
        weekly_stub [OF test_setting(3) [OF set]] test_minutes [OF test_setting(5,4) [OF set]]
        holding_counts [OF 1(2)] holding_counts [OF 2(2)])
qed

text \<open>The two weeks either side of the rotation, held in full, answer every minute of the fortnight.\<close>

lemma fortnight:
  assumes set: "test_setting C P E fixture pems" and past: "long_past C now" and "63 \<notin> set scheme"
    and "holding A (es scheme) [confirmed (pems ! 15) 3494880 3504959, confirmed (pems ! 16) 3504960 3515039] h n st"
    and "3494880 \<le> m" "m \<le> 3515039"
  obtains p where "in_force_at C (weeks C pems) m = Some p" "pem_at C P E now scheme m st = Some (p, st)"
proof (cases "m < 3504960")
  case True
  then show thesis
    using that [of "pems ! 15"] in_force_at_week [OF set, of 15 m] assms(5) long_past [OF past assms(6)]
      asked_held [OF test_setting(5,2) [OF set] assms(3,4), of m now "confirmed (pems ! 15) 3494880 3504959" E]
    by (simp add: week_starts word_le_nat_alt word_less_nat_alt)
next
  case False
  then show thesis
    using that [of "pems ! 16"] in_force_at_week [OF set, of 16 m] assms(6) long_past [OF past assms(6)]
      asked_held [OF test_setting(5,2) [OF set] assms(3,4), of m now "confirmed (pems ! 16) 3504960 3515039" E]
    by (simp add: week_starts word_le_nat_alt word_less_nat_alt)
qed

lemma rotation_passes:
  assumes set: "test_setting C P E fixture pems" and past: "long_past C now"
  shows "a_key_is_never_served_for_a_minute_outside_its_confirmed_span C P E fixture now c = Some ()"
proof -
  let ?sch = "lit ''stub-rotation''" and ?A = "weekly_answer C E pems SpanNone"
  let ?at = "pem_at C P E now ?sch" and ?due = "in_force_at C (weeks C pems)"
  have q: "63 \<notin> set ?sch" by (simp add: lit_def)
  note new = unstated_new [OF set q past] and wider = unstated_wider [OF set q past]
    and pems = week_pems [OF test_setting(3) [OF set], of 15 16]
    and order = word_le_nat_alt word_less_nat_alt min_def max_def
  obtain st1 where 1: "?at 3494880 (clear_cache c, stub_new ?A) = Some (pems ! 15, st1)"
    "holding ?A (es ?sch) [confirmed (pems ! 15) 3494880 3494880] 1 1 st1"
    using new [OF holding_start, of 15 3494880 c] by (auto simp: MAXIMUM_CACHED_KEYS_def week_starts)
  obtain st2 where 2: "?at 3515039 st1 = Some (pems ! 16, st2)"
    "holding ?A (es ?sch) [confirmed (pems ! 15) 3494880 3494880, confirmed (pems ! 16) 3515039 3515039] 2 2 st2"
    using new [OF 1(2), of 16 3515039] pems
    by (simp add: MAXIMUM_CACHED_KEYS_def week_starts two_requests) blast
  obtain st3 where 3: "?at 3504959 st2 = Some (pems ! 15, st3)"
    "holding ?A (es ?sch) [confirmed (pems ! 15) 3494880 3504959, confirmed (pems ! 16) 3515039 3515039] 2 3 st3"
    using wider [OF 2(2), of 15 3504959 0 3494880 3494880] pems
    by (simp add: week_starts order two_requests) blast
  obtain st4 where 4: "?at 3504960 st3 = Some (pems ! 16, st4)"
    "holding ?A (es ?sch) [confirmed (pems ! 15) 3494880 3504959, confirmed (pems ! 16) 3504960 3515039] 2 4 st4"
    using wider [OF 3(2), of 16 3504960 1 3515039 3515039] pems
    by (simp add: week_starts order two_requests) blast
  note fortnight = fortnight [OF set past q 4(2)]
  have dues: "?due 3504959 = Some (pems ! 15)" "?due 3504960 = Some (pems ! 16)"
    using in_force_at_week [OF set, of 15 3504959] in_force_at_week [OF set, of 16 3504960]
    by (simp_all add: week_starts)
  let ?round = "\<lambda>m st. do { (p, st) <- ?at m st; q <- ?due m; assert_that (p = q); Some st }"
  have round: "?round m st4 = Some st4" if "3494880 \<le> m" "m \<le> 3515039" for m
    using that by (rule fortnight) simp
  have r: "?round 3504959 st2 = Some st3" "?round 3504960 st3 = Some st4" using 3(1) 4(1) dues by simp_all
  let ?rest = "[3504958, 3504961, 3499920, 3510000, 3504957, 3504962, 3504959, 3504960]"
  have "for_each_in ?rest ?round st4 = Some st4" by (rule for_each_in_same) (auto intro!: round)
  then have "for_each_in (3504959 # 3504960 # ?rest) ?round st2 = Some st4"
    by (simp only: for_each_in_cons [of ?round, OF r(1)] for_each_in_cons [of ?round, OF r(2)])
  moreover have "for_each_in (map (\<lambda>i. 3494880 + 60 * of_nat i) [0..<336]) ?round st4 = Some st4"
  proof (rule for_each_in_same, goal_cases)
    case (1 m)
    then obtain i where i: "i < 336" "m = 3494880 + 60 * of_nat i" by auto
    then have "unat m = 3494880 + 60 * i" using unat_of_nat [where 'a = 32, of "3494880 + 60 * i"] by simp
    with i(1) show ?case by (intro round) (simp_all add: word_le_nat_alt)
  qed
  ultimately show ?thesis
    using 1(1) 2(1)
    by (simp del: for_each_in.simps(2) add: a_key_is_never_served_for_a_minute_outside_its_confirmed_span_def Let_def
        weekly_stub [OF test_setting(3) [OF set]] weekly_schedule [OF test_setting(3) [OF set]]
        test_minutes [OF test_setting(5,4) [OF set]] holding_counts [OF 2(2)] holding_counts [OF 4(2)])
qed

lemma recent_stated_passes:
  fixes C :: "('t :: linorder) chrono"
  assumes set: "test_setting C P E fixture pems" and now: "minutes_since_base C now = Some s"
    and s: "1440 \<le> s" "s \<le> 40000000 - 1440"
  shows "a_recent_minute_is_served_where_the_creator_stated_the_span C P E fixture now c = Some ()"
proof -
  let ?sch = "lit ''stub-recent''"
  let ?a = "published_answer_new (pems ! 0) (Some (minute_start C (s - 1440))) (Some (minute_start C (s + 1440)))"
  let ?A = "\<lambda>_. Ok \<lparr> response_status = 200, response_body = to_json C ?a \<rparr>"
  let ?k = "\<lparr> held_pem = pems ! 0, first_minute = s - 1440, last_minute = s + 1440 - 1, explicit = True, open_ended = False \<rparr>"
  have q: "63 \<notin> set ?sch" by (simp add: lit_def)
  note fine = minutes_fine [OF test_setting(1) [OF set]]
  have u: "unat (s - 1440) = unat s - 1440" "unat (s + 1440) = unat s + 1440" "unat (s + 1440 - 1) = unat s + 1439"
    "1440 \<le> unat s"
    using s by (auto simp: unat_sub word_le_nat_alt unat_word_ariths)
  have order: "s - 1440 < s + 1440" using u by (simp add: word_less_nat_alt)
  obtain cr where "new_verify_only E (pems ! 0) = Ok cr"
    using week_pem [OF test_setting(3) [OF set], of 0] by auto
  then have "validate E ?a None = Ok ()"
    using order by (simp add: validate_new minute_start_less [OF fine(1,2)])
  moreover have "parse_answer C (to_json C ?a) = Ok ?a"     using u s by (intro fine(3)) (simp_all add: published_answer_new_def word_le_nat_alt)
  ultimately have asked: "request_public_key C E ?A url = Ok (pems ! 0, Some (s - 1440), Some (s + 1440))" for url
    by (simp add: request_public_key_def) (simp add: published_answer_new_def minute_start_count(2) [OF fine(1)])
  have span: "span_to_hold (now_minute C now) (Some (s - 1)) (recent C now (s - 1)) (Some (s - 1440)) (Some (s + 1440))
      = Some (s - 1440, s + 1440 - 1, True, False)"
    using order by (simp add: span_to_hold_def)
  have in_span: "s - 1440 \<le> s - d \<and> s - d \<le> s + 1440 - 1" if "d \<le> 10" for d
  proof -
    have "unat (s - d) = unat s - unat d" "unat d \<le> 10"
      using that u(4) by (auto simp: unat_sub word_le_nat_alt)
    then show ?thesis using u by (simp only: word_le_nat_alt) arith
  qed
  obtain st1 where 1: "pem_at C P E now ?sch (s - 1) (clear_cache c, stub_new ?A) = Some (pems ! 0, st1)"
    "holding ?A (es ?sch) [?k] 1 1 st1"
    using asked_new [OF test_setting(5,2) [OF set] q holding_start _ asked span, of c] in_span [of 1]
    by (auto simp: MAXIMUM_CACHED_KEYS_def)
  have hit: "pem_at C P E now ?sch (s - d) st1 = Some (pems ! 0, st1)" if "d \<le> 10" for d
    using asked_held [OF test_setting(5,2) [OF set] q 1(2), of "s - d" now ?k E] in_span [OF that]
    by (simp add: held_covers_def)
  have "get (weeks C pems) 0 = Some \<lparr> scheduled_start = minute_start C (week_start 0), scheduled_pem = pems ! 0 \<rparr>"
    by (simp add: get_def weeks_def)
  then show ?thesis
    using 1(1) hit [of 0] hit [of 10]
    by (simp add: a_recent_minute_is_served_where_the_creator_stated_the_span_def Let_def now
        weekly_schedule [OF test_setting(3) [OF set]] holding_counts [OF 1(2)]
        minute_start_valid(2) [OF fine(1), of Version3])
qed

text \<open>The keys drawn for the minutes of the test: each exported, readable and its own.\<close>

definition drawn_keys :: "('sk, 'vk, 'sg) p256 \<Rightarrow> (str \<Rightarrow> 'sk) \<Rightarrow> (nat \<Rightarrow> str) \<Rightarrow> bool" where
  "drawn_keys E drawn pem \<longleftrightarrow> inj_on pem {..MAXIMUM_CACHED_KEYS}
     \<and> (\<forall>i \<le> MAXIMUM_CACHED_KEYS. public_key_pem E (crypto_new E (drawn (decimal i))) = Ok (pem i)
          \<and> (\<exists>c. new_verify_only E (pem i) = Ok c))"

lemma unat_small: "i \<le> MAXIMUM_CACHED_KEYS \<Longrightarrow> unat (of_nat i :: u32) = i"
  by (simp add: unat_of_nat MAXIMUM_CACHED_KEYS_def)

lemma bounded_asked:
  fixes C :: "('t :: linorder) chrono"
  assumes "minutes_fine C" "drawn_keys E drawn pem" "63 \<notin> set p" "i \<le> MAXIMUM_CACHED_KEYS"
  shows "request_public_key C E (bounded_answer C E drawn) (key_url_at p (of_nat i)) = Ok (pem i, None, None)"
proof -
  let ?a = "published_answer_new (pem i) None None :: 't published_answer"
  have "validate E ?a None = Ok ()" using assms(2,4) by (simp add: validate_new drawn_keys_def)
  moreover have "parse_answer C (to_json C ?a) = Ok ?a"
    by (rule minutes_fine(3) [OF assms(1)]) (simp_all add: published_answer_new_def)
  ultimately show ?thesis
    using assms(2,4) by (simp add: request_public_key_def bounded_answer_def query_value_date [OF assms(3)]
        unat_small drawn_keys_def) (simp add: published_answer_new_def)
qed

lemma bounded_passes:
  assumes fine: "minutes_fine C" "ample P" "drawn_keys E drawn pem" and past: "long_past C now"
  shows "the_cache_is_bounded C P E drawn now c = Some ()"
proof -
  let ?sch = "lit ''stub-bounded''" and ?A = "bounded_answer C E drawn"
  let ?k = "\<lambda>i. confirmed (pem i) (of_nat i) (of_nat i)"
  let ?round = "\<lambda>i st. do { (_, st) <- pem_at C P E now ?sch (of_nat i) st; Some st }"
  have q: "63 \<notin> set ?sch" by (simp add: lit_def)
  have small: "(of_nat i :: u32) \<le> 3515039" if "i \<le> MAXIMUM_CACHED_KEYS" for i
    using unat_small [OF that] that by (simp add: word_le_nat_alt MAXIMUM_CACHED_KEYS_def)
  have span: "span_to_hold (now_minute C now) (Some (of_nat i)) (recent C now (of_nat i)) None None
      = Some (of_nat i, of_nat i, False, False)" if "i \<le> MAXIMUM_CACHED_KEYS" for i
    using long_past [OF past small [OF that]] by (simp add: span_to_hold_def)
  have other: "held_pem k \<noteq> pem i \<and> (last_minute k < of_nat i \<or> of_nat i < first_minute k)"
    if "k \<in> set (map ?k [0..<i])" "i \<le> MAXIMUM_CACHED_KEYS" for k i
  proof -
    from that(1) obtain j where j: "j < i" "k = ?k j" by auto
    then have "pem j \<noteq> pem i" using assms(3) that(2) by (auto simp: drawn_keys_def dest: inj_onD)
    with j that(2) show ?thesis by (simp add: word_less_nat_alt unat_small)
  qed
  note ask = fine(1) [THEN minutes_fine(1)] fine(2) q
  have held: "\<exists>st. for_each_in [0..<i] ?round (clear_cache c, stub_new ?A) = Some st
      \<and> holding ?A (es ?sch) (map ?k [0..<i]) i i st" if "i \<le> MAXIMUM_CACHED_KEYS" for i
    using that
  proof (induction i)
    case 0
    then show ?case using holding_start by simp
  next
    case (Suc i)
    then obtain st where st: "for_each_in [0..<i] ?round (clear_cache c, stub_new ?A) = Some st"
      "holding ?A (es ?sch) (map ?k [0..<i]) i i st" by auto
    have i: "i \<le> MAXIMUM_CACHED_KEYS" "i < MAXIMUM_CACHED_KEYS" using Suc.prems by simp_all
    obtain st' where "pem_at C P E now ?sch (of_nat i) st = Some (pem i, st')"
      "holding ?A (es ?sch) (map ?k [0..<i] @ [?k i]) (Suc i) (Suc i) st'"
      using asked_new [OF ask st(2) i(2) bounded_asked [OF fine(1,3) es_query [OF q] i(1)] span [OF i(1)]
          order.refl order.refl other [OF _ i(1)]]
      unfolding confirmed_def by blast
    with st(1) show ?case by (simp add: for_each_in_append)
  qed
  then obtain st where st: "for_each_in [0..<MAXIMUM_CACHED_KEYS] ?round (clear_cache c, stub_new ?A) = Some st"
    "holding ?A (es ?sch) (map ?k [0..<MAXIMUM_CACHED_KEYS]) MAXIMUM_CACHED_KEYS MAXIMUM_CACHED_KEYS st" by blast
  obtain st' where st': "pem_at C P E now ?sch (of_nat MAXIMUM_CACHED_KEYS) st = Some (pem MAXIMUM_CACHED_KEYS, st')"
    "holding ?A (es ?sch) [?k MAXIMUM_CACHED_KEYS] 1 (Suc MAXIMUM_CACHED_KEYS) st'"
    using asked_full [OF ask st(2) order.refl bounded_asked [OF fine(1,3) es_query [OF q] order.refl]
        span [OF order.refl] order.refl order.refl other [OF _ order.refl]]
    by (auto simp: confirmed_def)
  have "for_each_in [0..<MAXIMUM_CACHED_KEYS + 1] ?round (clear_cache c, stub_new ?A) = Some st'"
    using st(1) st'(1) by (simp add: for_each_in_append)
  then show ?thesis
    by (simp add: the_cache_is_bounded_def Let_def holding_counts [OF st'(2)] MAXIMUM_CACHED_KEYS_def del: upt_Suc)
qed

lemma drift_passes:
  assumes set: "test_setting C P E fixture pems" and now: "minutes_since_base C now = Some s"
    and s: "3343696 \<le> s" "s \<le> u32_max - 10080"
  shows "a_minute_within_the_drift_allowance_is_not_held C P E fixture now c = Some ()"
proof -
  let ?sch = "lit ''stub-drift''" and ?A = "weekly_answer C E pems SpanNone"
  have q: "63 \<notin> set ?sch" "63 \<notin> set (lit ''stub-drift://51d.es/owid/api/v3/public-key'')" by (simp_all add: lit_def)
  have u: "3343696 \<le> unat s" "unat (s + 10080) = unat s + 10080" "unat (s - 15) = unat s - 15"
    "unat (s - 16) = unat s - 16" "unat (s - 1) = unat s - 1"
    using s by (auto simp: unat_sub word_le_nat_alt u32_max_def unat_word_ariths)
  have old: "s - CLOCK_DRIFT_ALLOWANCE_MINUTES - 1 = s - 16" by (simp add: CLOCK_DRIFT_ALLOWANCE_MINUTES_def)
  have "now_minute C now = s" by (simp add: now_minute_def now)
  then have rec: "recent C now m \<longleftrightarrow> s - 15 < m" for m
    using u(1) not_less [of s 15] by (auto simp: recent_def saturating_sub_def CLOCK_DRIFT_ALLOWANCE_MINUTES_def word_less_nat_alt)
  have ask: "\<exists>p st'. pem_at C P E now ?sch m st = Some (p, st') \<and> holding ?A (es ?sch) [] 0 (Suc n) st'"
    if "holding ?A (es ?sch) [] 0 n st" "s - 15 < m" "3343680 \<le> m" for m n st
  proof -
    from unstated_some [OF set es_query [OF q(1)] that(3)] obtain pem where
      "request_public_key C E ?A (key_url_at (es ?sch) m) = Ok (pem, None, None)" .
    then show ?thesis
      using asked_not_held [OF test_setting(5,2) [OF set] q(1) that(1), where m = m and now = now and E = E] that(2)
      by (fastforce simp: span_to_hold_def rec)
  qed
  have asked: "s - 15 < s - 1" "3343680 \<le> s - 1" "s - 15 < s + 10080" "3343680 \<le> s + 10080" "3343680 \<le> s - 16"
    unfolding word_less_nat_alt word_le_nat_alt u(2-5) using u(1) by simp_all
  obtain p1 st1 where 1: "pem_at C P E now ?sch (s - 1) (clear_cache c, stub_new ?A) = Some (p1, st1)"
    "holding ?A (es ?sch) [] 0 1 st1"
    using ask [OF holding_start asked(1,2), of c] by auto
  obtain p2 st2 where 2: "pem_at C P E now ?sch (s - 1) st1 = Some (p2, st2)" "holding ?A (es ?sch) [] 0 2 st2"
    using ask [OF 1(2) asked(1,2)] by (auto simp: two_requests)
  obtain p3 st3 where 3: "pem_at C P E now ?sch (s + 10080) st2 = Some (p3, st3)" "holding ?A (es ?sch) [] 0 3 st3"
    using ask [OF 2(2) asked(3,4)] by (auto simp: two_requests)
  obtain st4 where 4: "asked_pem C E now (lit ''stub-drift://51d.es/owid/api/v3/public-key?format=spki'') st3 = Some (pems ! 18, st4)"
    "holding ?A (es ?sch) [] 0 4 st4"
    using undated_asked [OF set q(2) 3(2), of now] by (auto simp: lit_def)
  obtain pem where pem: "request_public_key C E ?A (key_url_at (es ?sch) (s - 16)) = Ok (pem, None, None)"
    by (rule unstated_some [OF set es_query [OF q(1)] asked(5)])
  have quiet: "\<not> recent C now (s - 16)" using u by (simp add: rec word_less_nat_alt)
  then have "span_to_hold (now_minute C now) (Some (s - 16)) (recent C now (s - 16)) None None
      = Some (s - 16, s - 16, False, False)" by (simp add: span_to_hold_def)
  from asked_new [OF test_setting(5,2) [OF set] q(1) 4(2) _ pem this order.refl order.refl]
  obtain st5 where 5: "pem_at C P E now ?sch (s - 16) st4 = Some (pem, st5)"
    "holding ?A (es ?sch) [confirmed pem (s - 16) (s - 16)] 1 5 st5"
    by (auto simp: MAXIMUM_CACHED_KEYS_def confirmed_def)
  have "pem_at C P E now ?sch (s - 16) st5 = Some (pem, st5)"
    using asked_held [OF test_setting(5,2) [OF set] q(1) 5(2), of "s - 16" now _ E] quiet by simp
  with 1(1) 2(1) 3(1) 4(1) 5(1) show ?thesis
    by (simp add: a_minute_within_the_drift_allowance_is_not_held_def Let_def now old
        weekly_stub [OF test_setting(3) [OF set]] holding_counts [OF 5(2)])
qed

lemma keys_per_request_passes:
  assumes set: "test_setting C P E fixture pems"
    and c: "cache_keys c (es (lit ''stub-held'')) = None" "cache_held c + 1 < MAXIMUM_CACHED_KEYS"
  shows "keys_are_held_per_request_and_not_per_domain C P E fixture now c = Some ()"
proof -
  let ?sch = "lit ''stub-held''" and ?A = "weekly_answer C E pems SpanStated"
  let ?k = "\<lambda>i. \<lparr> held_pem = pems ! i, first_minute = week_start i, last_minute = week_start (Suc i) - 1,
    explicit = True, open_ended = False \<rparr>"
  have q: "63 \<notin> set ?sch" by (simp add: lit_def)
  note asked = asked_stated [OF set q] and held = asked_held [OF test_setting(5,2) [OF set] q]
    and pems = week_pems [OF test_setting(3) [OF set], of 14 16]
  have start: "holding ?A (es ?sch) [] (cache_held c) 0 (c, stub_new ?A)"
    using c by (simp add: holding_def stub_new_def request_count_def held_keys_def)
  obtain st1 where 1: "pem_at C P E now ?sch 3490560 (c, stub_new ?A) = Some (pems ! 14, st1)"
    "holding ?A (es ?sch) [?k 14] (Suc (cache_held c)) 1 st1"
    using asked [OF start, of 14 3490560 now] c(2) by (auto simp: week_starts)
  obtain st2 where 2: "pem_at C P E now ?sch 3510720 st1 = Some (pems ! 16, st2)"
    "holding ?A (es ?sch) [?k 14, ?k 16] (Suc (Suc (cache_held c))) 2 st2"
    using asked [OF 1(2), of 16 3510720 now] c(2) pems by (simp add: week_starts two_requests) blast
  have again: "pem_at C P E now ?sch 3490560 st2 = Some (pems ! 14, st2)"
    using held [OF 2(2), of 3490560 now "?k 14"] by (simp add: held_covers_def week_starts)
  show ?thesis
    using 1(1) 2(1) again pems
    by (simp add: keys_are_held_per_request_and_not_per_domain_def end_point_def IDENTIFIER_MINUTES_def
        weekly_stub [OF test_setting(3) [OF set]] crafted_result [OF test_setting(5,2) [OF set] _ test_domains(1)]
        es_url [OF test_setting(5) [OF set]] pem_at_asks [OF test_setting(5,2) [OF set]] holding_counts [OF 2(2)])
qed

end
