(* ===== verification/EdgeTests.thy ===== *)
theory EdgeTests
  imports Questions
begin

text \<open>
  The unit tests of src/src/fetch.rs on which key an OWID near the edge of a key's span is
  checked against, and on what is said when the creator answers with a key that was not in
  force. The keys are drawn as arguments; what is relied on is that the OWIDs of the tests do
  not verify under the drawn keys that did not sign them.
\<close>

section \<open>Definitions\<close>

definition status_at ::
    "('t :: linorder) chrono \<Rightarrow> platform \<Rightarrow> ('sk, 'vk, 'sg) p256 \<Rightarrow> 't \<Rightarrow> 't owid \<Rightarrow> str \<Rightarrow> process
     \<Rightarrow> (signature_status \<times> process) option" where
  "status_at C P E now w scheme st =
     (let (status, st) = verify_status C P E (ask_stub C E now) w scheme st in
      do { status <- status; Some (status, st) })"

definition signed_at ::
    "'t chrono \<Rightarrow> platform \<Rightarrow> ('sk, 'vk, 'sg) p256 \<Rightarrow> str \<Rightarrow> u32 \<Rightarrow> ('sk, 'vk) crypto \<Rightarrow> 't owid option" where
  "signed_at C P E domain minutes crypto = do {
     date <- add_minutes C (base_date C) (uint minutes);
     let owid = from_parts Version3 domain date (as_bytes (lit ''payload'')) [];
     data <- expect (signed_bytes C P owid);
     signature <- expect (sign_byte_array E crypto data);
     Some (set_signature owid signature)
   }"

definition a_signature_failing_near_the_edge_of_a_span_is_checked_against_the_neighbour ::
    "('t :: linorder) chrono \<Rightarrow> platform \<Rightarrow> ('sk, 'vk, 'sg) p256 \<Rightarrow> 'sk \<Rightarrow> 'sk \<Rightarrow> 'sk \<Rightarrow> 't \<Rightarrow> cache
     \<Rightarrow> unit option" where
  "a_signature_failing_near_the_edge_of_a_span_is_checked_against_the_neighbour C P E k1 k2 k3 now c = do {
     let first = crypto_new E k1;
     let second = crypto_new E k2;
     let third = crypto_new E k3;
     rotation <- minutes_at C (lit ''2026-08-31T00:00:00Z'');
     let week = 7 * 24 * 60;
     d1 <- add_minutes C (base_date C) (uint (rotation - week));
     p1 <- expect (public_key_pem E first);
     d2 <- add_minutes C (base_date C) (uint rotation);
     p2 <- expect (public_key_pem E second);
     d3 <- add_minutes C (base_date C) (uint (rotation + week));
     p3 <- expect (public_key_pem E third);
     let schedule = [\<lparr> scheduled_start = d1, scheduled_pem = p1 \<rparr>, \<lparr> scheduled_start = d2, scheduled_pem = p2 \<rparr>,
       \<lparr> scheduled_start = d3, scheduled_pem = p3 \<rparr>];
     let stub = stub_new (\<lambda>url. bind_res (request_moment C) (\<lambda>moment.
       end_point_answer C E moment schedule url SpanStated));
     late <- signed_at C P E (lit ''creator.test'') (rotation + 5) first;
     (status, st) <- status_at C P E now late (lit ''stub-edge'') (clear_cache c, stub);
     assert_that (status = Valid);
     assert_that (request_count st = 2);
     early <- signed_at C P E (lit ''creator.test'') (rotation - 5) second;
     (status, st) <- status_at C P E now early (lit ''stub-edge'') st;
     assert_that (status = Valid);
     assert_that (request_count st = 2);
     far <- signed_at C P E (lit ''creator.test'') (rotation + 20) first;
     (status, st) <- status_at C P E now far (lit ''stub-edge'') st;
     assert_that (status = Invalid);
     assert_that (request_count st = 2);
     genuine <- signed_at C P E (lit ''creator.test'') (rotation + 3 * 24 * 60) second;
     (status, st) <- status_at C P E now genuine (lit ''stub-edge'') st;
     assert_that (status = Valid);
     forged <- signed_at C P E (lit ''creator.test'') (rotation + 3 * 24 * 60) third;
     (status, st) <- status_at C P E now forged (lit ''stub-edge'') st;
     assert_that (status = Invalid)
   }"

text \<open>A moment that cannot be added is a panic, as is a request without a date.\<close>

definition answer_moment :: "'t chrono \<Rightarrow> u32 option \<Rightarrow> ('t option, error) res" where
  "answer_moment C minutes =
     (case minutes of
        None \<Rightarrow> Ok None
      | Some m \<Rightarrow> (case add_minutes C (base_date C) (uint m) of None \<Rightarrow> Panic | Some d \<Rightarrow> Ok (Some d)))"

definition answer ::
    "'t chrono \<Rightarrow> str \<Rightarrow> u32 option \<Rightarrow> u32 option \<Rightarrow> (fetch_response, error) res" where
  "answer C pem start finish =
     bind_res (answer_moment C start) (\<lambda>start.
     bind_res (answer_moment C finish) (\<lambda>finish.
     Ok \<lparr> response_status = 200, response_body = to_json C (published_answer_new pem start finish) \<rparr>))"

definition asked_minute :: "str \<Rightarrow> (u32, error) res" where
  "asked_minute url =
     (case Option.bind (query_value url (lit ''date'')) parse_u32 of None \<Rightarrow> Panic | Some m \<Rightarrow> Ok m)"

definition the_neighbour_is_asked_for_by_the_minute_just_beyond_the_edge ::
    "('t :: linorder) chrono \<Rightarrow> platform \<Rightarrow> ('sk, 'vk, 'sg) p256 \<Rightarrow> 'sk \<Rightarrow> 'sk \<Rightarrow> 't \<Rightarrow> cache \<Rightarrow> unit option" where
  "the_neighbour_is_asked_for_by_the_minute_just_beyond_the_edge C P E k1 k2 now c = do {
     let first = crypto_new E k1;
     let second = crypto_new E k2;
     first_pem <- expect (public_key_pem E first);
     second_pem <- expect (public_key_pem E second);
     let week = 7 * 24 * 60;
     finish <- minutes_at C (lit ''2026-08-31T00:00:00Z'');
     let rotation = finish - week;
     let start = rotation - week;
     let stub = stub_new (\<lambda>url. bind_res (asked_minute url) (\<lambda>asked.
       if asked < rotation then answer C first_pem (Some start) (Some rotation)
       else answer C second_pem (Some rotation) (Some finish)));
     late <- signed_at C P E (lit ''creator.test'') (rotation + 5) first;
     (status, st) <- status_at C P E now late (lit ''stub-beyond'') (clear_cache c, stub);
     assert_that (status = Valid);
     assert_that (stub_dates (snd st)
       = [Some (decimal (unat (rotation + 5))), Some (decimal (unat (rotation - 1)))])
   }"

definition a_key_stated_without_an_end_has_no_later_edge ::
    "('t :: linorder) chrono \<Rightarrow> platform \<Rightarrow> ('sk, 'vk, 'sg) p256 \<Rightarrow> 'sk \<Rightarrow> 'sk \<Rightarrow> 't \<Rightarrow> cache \<Rightarrow> unit option" where
  "a_key_stated_without_an_end_has_no_later_edge C P E k1 k2 now c = do {
     let first = crypto_new E k1;
     let second = crypto_new E k2;
     first_pem <- expect (public_key_pem E first);
     second_pem <- expect (public_key_pem E second);
     let week = 7 * 24 * 60;
     started <- minutes_since_base C now;
     let rotation = started - 5;
     let start = rotation - week;
     let stub = stub_new (\<lambda>url. bind_res (asked_minute url) (\<lambda>asked.
       if asked < rotation then answer C first_pem (Some start) (Some rotation)
       else answer C second_pem (Some rotation) None));
     live <- signed_at C P E (lit ''creator.test'') (rotation + 2) first;
     (status, st) <- status_at C P E now live (lit ''stub-open'') (clear_cache c, stub);
     assert_that (status = Valid);
     assert_that (request_count st = 2)
   }"

definition a_key_the_creator_says_was_not_in_force_leaves_the_signature_unjudged ::
    "('t :: linorder) chrono \<Rightarrow> platform \<Rightarrow> ('sk, 'vk, 'sg) p256 \<Rightarrow> 'sk \<Rightarrow> 'sk \<Rightarrow> 'sk \<Rightarrow> 't \<Rightarrow> cache
     \<Rightarrow> unit option" where
  "a_key_the_creator_says_was_not_in_force_leaves_the_signature_unjudged C P E k1 k2 k3 now c = do {
     let first = crypto_new E k1;
     let second = crypto_new E k2;
     let stranger = crypto_new E k3;
     second_pem <- expect (public_key_pem E second);
     let week = 7 * 24 * 60;
     finish <- minutes_at C (lit ''2026-08-31T00:00:00Z'');
     let rotation = finish - week;
     let stub = stub_new (\<lambda>_. answer C second_pem (Some rotation) (Some finish));
     earlier <- signed_at C P E (lit ''creator.test'') (rotation - 3 * 24 * 60) first;
     (status, st) <- status_at C P E now earlier (lit ''stub-not-in-force'') (clear_cache c, stub);
     assert_that (status = KeyUnavailable);
     let (r, st) = verify C P E (ask_stub C E now) earlier (lit ''stub-not-in-force'') st;
     r <- looked_at r;
     assert_that (is_err r);
     forged <- signed_at C P E (lit ''creator.test'') (rotation + 3 * 24 * 60) stranger;
     (status, st) <- status_at C P E now forged (lit ''stub-not-in-force'') st;
     assert_that (status = Invalid)
   }"

section \<open>Verdicts\<close>

text \<open>The end point of the creator of these tests.\<close>

definition ct :: "str \<Rightarrow> str" where
  "ct scheme = scheme @ lit ''://creator.test/owid/api/v3/public-key''"

definition payload_at :: "'t chrono \<Rightarrow> ('sk, 'vk, 'sg) p256 \<Rightarrow> 'sk \<Rightarrow> u32 \<Rightarrow> 't owid" where
  "payload_at C E k m = fresh_owid C E k (minute_start C m) (lit ''creator.test'') Version3 (as_bytes (lit ''payload''))"

lemma payload_date [simp]: "owid_date (payload_at C E k m) = minute_start C m"
  by (simp add: payload_at_def)

text \<open>What is relied on: the key that did not sign refuses the signature.\<close>

definition rejects :: "'t chrono \<Rightarrow> ('sk, 'vk, 'sg) p256 \<Rightarrow> 'sk \<Rightarrow> 'sk \<Rightarrow> u32 \<Rightarrow> bool" where
  "rejects C E k k' m \<longleftrightarrow> (let data = enc_fields C (payload_at C E k m) in
     \<not> ecdsa_verify E (verifying_key_of E k') data (ecdsa_sign E k data))"

definition edge_setting :: "('t :: linorder) chrono \<Rightarrow> platform \<Rightarrow> ('sk, 'vk, 'sg) p256 \<Rightarrow> bool" where
  "edge_setting C P E \<longleftrightarrow> minutes_fine C \<and> ample P \<and> signatures_ok E \<and> public_pem_ok E \<and> test_dates C
     \<and> request_moment C = Ok (minute_start C 3525120)"

lemma edge_setting:
  assumes "edge_setting C P E"
  shows "minutes_fine C" "ample P" "signatures_ok E" "public_pem_ok E" "test_dates C"
    "request_moment C = Ok (minute_start C 3525120)" "dates_ok C" "dates_ordered C"
  using assms minutes_fine(1,2) [of C] by (auto simp: edge_setting_def)

lemma payload_written:
  assumes "edge_setting C P E"
  shows "signed_bytes C P (payload_at C E k m) = Ok (enc_fields C (payload_at C E k m))"
    and "signed_at C P E (lit ''creator.test'') m (crypto_new E k) = Some (payload_at C E k m)"
proof -
  note set = edge_setting [OF assms]
  let ?p = "as_bytes (lit ''payload'')"
  let ?u = "from_parts Version3 (lit ''creator.test'') (minute_start C m) ?p []"
  have "?p = map byte (lit ''payload'')" by (rule as_bytes_ascii) (simp add: lit_def)
  then have p: "length ?p < 2 ^ 31" by (simp add: lit_def)
  then have wr: "writable C ?u" "writable C (payload_at C E k m)"
    using test_domains(3) minute_start_count(1) [OF set(7), of m] uint_lt2p [of m]
    by (simp_all add: writable_def payload_at_def)
  show "signed_bytes C P (payload_at C E k m) = Ok (enc_fields C (payload_at C E k m))"
    using signed_bytes_written [OF set(2) wr(2)] p by (simp add: payload_at_def)
  have "enc_fields C (payload_at C E k m) = enc_fields C ?u"
    by (simp add: payload_at_def fresh_owid_def Let_def enc_fields_def)
  then show "signed_at C P E (lit ''creator.test'') m (crypto_new E k) = Some (payload_at C E k m)"
    using signed_bytes_written [OF set(2) wr(1)] p set(3) minute_start_valid(2) [OF set(7), of Version3 m]
    by (simp add: signed_at_def sign_byte_array_def crypto_new_def signatures_ok_def SIGNATURE_LENGTH_def
        payload_at_def fresh_owid_def Let_def)
qed

lemma payload_judged:
  assumes "edge_setting C P E" "to_public_key_pem E (verifying_key_of E k') = Inr pem"
  shows "verify_with_public_key C P E (payload_at C E k m) pem = Ok (\<not> rejects C E k k' m)" "\<not> rejects C E k k m"
proof -
  note set = edge_setting [OF assms(1)]
  let ?w = "payload_at C E k m"
  have sig: "owid_signature ?w = sig_to_bytes E (ecdsa_sign E k (enc_fields C ?w))"
    by (simp add: payload_at_def fresh_owid_def Let_def enc_fields_def)
  show "verify_with_public_key C P E ?w pem = Ok (\<not> rejects C E k k' m)"
    using set(3) sig by (simp add: verify_with_public_key_def exported_keys(2) [OF set(4) assms(2)]
        verify_with_crypto_def payload_written(1) [OF assms(1)] verify_byte_array_def signatures_ok_def
        SIGNATURE_LENGTH_def rejects_def Let_def)
  show "\<not> rejects C E k k m" using set(3) by (simp add: signatures_ok_def rejects_def Let_def)
qed

text \<open>Keys that refuse each other's signatures are written differently.\<close>

lemma pems_differ:
  assumes "edge_setting C P E" "to_public_key_pem E (verifying_key_of E k) = Inr p"
    "to_public_key_pem E (verifying_key_of E k') = Inr p'" "rejects C E k k' m"
  shows "p \<noteq> p'"
proof
  assume "p = p'"
  moreover have "from_public_key_pem E p = Inr (verifying_key_of E k)" "from_public_key_pem E p' = Inr (verifying_key_of E k')"
    using assms(1-3) by (simp_all add: edge_setting_def public_pem_ok_def)
  ultimately have "verifying_key_of E k = verifying_key_of E k'" by simp
  moreover have "ecdsa_verify E (verifying_key_of E k) d (ecdsa_sign E k d)" for d
    using edge_setting(3) [OF assms(1)] by (simp add: signatures_ok_def)
  ultimately show False using assms(4) by (simp add: rejects_def Let_def)
qed

lemma payload_url:
  "dates_ok C \<Longrightarrow> public_key_url C (payload_at C E k m) scheme = key_url_at (ct scheme) m"
  by (simp add: payload_at_def public_key_url_def key_end_point_def minute_start_count(2) ct_def lit_def decimal.simps)

lemma ct_query: "63 \<notin> set scheme \<Longrightarrow> 63 \<notin> set (ct scheme)"
  by (simp add: ct_def lit_def)

text \<open>One check, by what its key and the key of the minute just beyond the edge say.\<close>

lemma judged:
  assumes "ask_stub C E now url st = (Ok a, st')" "verify_with_public_key C P E w (answer_pem a) = Ok b"
    and "minutes_since_base C (owid_date w) = Some m" "end_point_of url = p"
  shows "b \<Longrightarrow> verify_at_url C P E (ask_stub C E now) w url st = (Ok True, st')"
    and "\<not> b \<Longrightarrow> known a \<Longrightarrow> beyond m a = [] \<Longrightarrow> answer_covers a m
      \<Longrightarrow> verify_at_url C P E (ask_stub C E now) w url st = (Ok False, st')"
    and "\<not> b \<Longrightarrow> known a \<Longrightarrow> beyond m a = [] \<Longrightarrow> \<not> answer_covers a m
      \<Longrightarrow> verify_at_url C P E (ask_stub C E now) w url st = (Err not_in_force, st')"
    and "\<not> b \<Longrightarrow> known a \<Longrightarrow> beyond m a = [m'] \<Longrightarrow> ask_stub C E now (key_url_at p m') st' = (Ok a', st'')
      \<Longrightarrow> answer_pem a' \<noteq> answer_pem a \<Longrightarrow> verify_with_public_key C P E w (answer_pem a') = Ok True
      \<Longrightarrow> verify_at_url C P E (ask_stub C E now) w url st = (Ok True, st'')"
  using assms by (simp_all add: verify_at_url_def neighbour_verifies_def)

lemma checked:
  fixes C :: "('t :: linorder) chrono"
  assumes "dates_ok C" "63 \<notin> set scheme"
    and "ask_stub C E now (key_url_at (ct scheme) m) st = (Ok a, st')"
    and "verify_with_public_key C P E (payload_at C E k m) (answer_pem a) = Ok b"
  shows "b \<Longrightarrow> verify C P E (ask_stub C E now) (payload_at C E k m) scheme st = (Ok True, st')"
    and "\<not> b \<Longrightarrow> known a \<Longrightarrow> beyond m a = [] \<Longrightarrow> answer_covers a m
      \<Longrightarrow> verify C P E (ask_stub C E now) (payload_at C E k m) scheme st = (Ok False, st')"
    and "\<not> b \<Longrightarrow> known a \<Longrightarrow> beyond m a = [] \<Longrightarrow> \<not> answer_covers a m
      \<Longrightarrow> verify C P E (ask_stub C E now) (payload_at C E k m) scheme st = (Err not_in_force, st')"
    and "\<not> b \<Longrightarrow> known a \<Longrightarrow> beyond m a = [m'] \<Longrightarrow> ask_stub C E now (key_url_at (ct scheme) m') st' = (Ok a', st'')
      \<Longrightarrow> answer_pem a' \<noteq> answer_pem a
      \<Longrightarrow> verify_with_public_key C P E (payload_at C E k m) (answer_pem a') = Ok True
      \<Longrightarrow> verify C P E (ask_stub C E now) (payload_at C E k m) scheme st = (Ok True, st'')"
  using judged [OF assms(3,4) _ key_url_at_read_back(1) [OF ct_query [OF assms(2)]]] minute_start_count(2) [OF assms(1), of m]
  by (simp_all add: verify_def payload_url [OF assms(1)])

lemma status_of_verdict:
  "verify C P E (ask_stub C E now) w scheme st = (r, st') \<Longrightarrow> signature_status_of r = Some s
    \<Longrightarrow> status_at C P E now w scheme st = Some (s, st')"
  by (simp add: status_at_def verify_status_def)

section \<open>Answers\<close>

lemma request_answer:
  fixes C :: "('t :: linorder) chrono"
  assumes "minutes_fine C" "new_verify_only E pem = Ok cr"
    and "A url = Ok \<lparr> response_status = 200, response_body =
      to_json C (published_answer_new pem (map_option (minute_start C) b) (map_option (minute_start C) e)) \<rparr>"
    and "\<And>f. e = Some f \<Longrightarrow> \<exists>s. b = Some s \<and> s < f" "\<And>m. b = Some m \<Longrightarrow> m \<le> 40000000" "\<And>m. e = Some m \<Longrightarrow> m \<le> 40000000"
  shows "request_public_key C E A url = Ok (pem, b, e)"
proof -
  let ?a = "published_answer_new pem (map_option (minute_start C) b) (map_option (minute_start C) e)"
  note fine = minutes_fine [OF assms(1)]
  have "parse_answer C (to_json C ?a) = Ok ?a"
    using assms(5,6) by (intro fine(3)) (cases b; cases e; simp add: published_answer_new_def)+
  moreover have "validate E ?a None = Ok ()"
    using assms(2,4) by (force simp: validate_new minute_start_less [OF fine(1,2)])
  ultimately show ?thesis using assms(3)
    by (cases b; cases e; simp add: request_public_key_def)
      (simp_all add: published_answer_new_def minute_start_count(2) [OF fine(1)])
qed

lemma answer_result:
  assumes "dates_ok C"
  shows "answer C pem b e = Ok \<lparr> response_status = 200, response_body =
    to_json C (published_answer_new pem (map_option (minute_start C) b) (map_option (minute_start C) e)) \<rparr>"
  using minute_start_valid(2) [OF assms, of Version3]
  by (simp add: answer_def answer_moment_def split: option.splits)

lemma asked_minute_result: "63 \<notin> set p \<Longrightarrow> asked_minute (key_url_at p m) = Ok m"
  by (simp add: asked_minute_def query_value_date)

text \<open>The keys of the tests: each exported, and the first's OWIDs refused by the second.\<close>

lemma edge_schedule:
  fixes C :: "('t :: linorder) chrono"  and p3 :: str
  assumes set: "edge_setting C P E" and "63 \<notin> set p"
    and pems: "new_verify_only E p1 = Ok c1" "new_verify_only E p2 = Ok c2"
  defines "local \<equiv> [\<lparr> scheduled_start = minute_start C 3494880, scheduled_pem = p1 \<rparr>,
    \<lparr> scheduled_start = minute_start C 3504960, scheduled_pem = p2 \<rparr>,
    \<lparr> scheduled_start = minute_start C 3515040, scheduled_pem = p3 \<rparr>]"
  shows "3494880 \<le> m \<Longrightarrow> m < 3504960 \<Longrightarrow>
      request_public_key C E (\<lambda>url. end_point_answer C E (minute_start C 3525120) local url SpanStated) (key_url_at p m)
        = Ok (p1, Some 3494880, Some 3504960)"
    and "3504960 \<le> m \<Longrightarrow> m < 3515040 \<Longrightarrow>
      request_public_key C E (\<lambda>url. end_point_answer C E (minute_start C 3525120) local url SpanStated) (key_url_at p m)
        = Ok (p2, Some 3504960, Some 3515040)"
proof -
  note fine = edge_setting(1,7,8) [OF set]
  note le = minute_start_le [OF fine(2,3)] and less = minute_start_less [OF fine(2,3)]
  have asked: "stand_in_asked C (minute_start C 3525120) (key_url_at p m) = Ok (Some (minute_start C m))"
    if "m < 3515040"
  proof -
    have "min m 3525120 = m" using that by (simp add: min_def word_le_nat_alt word_less_nat_alt)
    then show ?thesis using weekly_asked [OF fine(1) assms(2), of m] by simp
  qed
  show "request_public_key C E (\<lambda>url. end_point_answer C E (minute_start C 3525120) local url SpanStated) (key_url_at p m)
      = Ok (p1, Some 3494880, Some 3504960)" if m: "3494880 \<le> m" "m < 3504960"
  proof (rule request_answer [OF fine(1) pems(1)])
    have small: "m < 3515040" using m by (simp add: word_less_nat_alt)
    have "\<not> 3504960 \<le> m" "\<not> 3515040 \<le> m" using m small by (simp_all add: not_le)
    then have "stand_in_key_in_force local (minute_start C m) = Some (local ! 0)"
      using m by (simp add: local_def stand_in_key_in_force_def le)
    moreover have "next_start local (local ! 0) = Some (minute_start C 3504960)"
      by (simp add: local_def next_start_def less min_def le)
    moreover have "validate E (published_answer_new p1 (Some (minute_start C 3494880)) (Some (minute_start C 3504960)))
        (Some (minute_start C m)) = Ok ()"
      using m pems(1) by (simp add: validate_new le less)
    ultimately show "end_point_answer C E (minute_start C 3525120) local (key_url_at p m) SpanStated
      = Ok \<lparr> response_status = 200, response_body = to_json C (published_answer_new p1
          (map_option (minute_start C) (Some 3494880)) (map_option (minute_start C) (Some 3504960))) \<rparr>"
      by (simp add: end_point_answer_def asked [OF small] Let_def) (simp add: local_def)
  qed simp_all
  show "request_public_key C E (\<lambda>url. end_point_answer C E (minute_start C 3525120) local url SpanStated) (key_url_at p m)
      = Ok (p2, Some 3504960, Some 3515040)" if m: "3504960 \<le> m" "m < 3515040"
  proof (rule request_answer [OF fine(1) pems(2)])
    have "\<not> 3515040 \<le> m" using m by (simp add: not_le)
    then have "stand_in_key_in_force local (minute_start C m) = Some (local ! 1)"
      using m by (simp add: local_def stand_in_key_in_force_def le)
    moreover have "next_start local (local ! 1) = Some (minute_start C 3515040)"
      by (simp add: local_def next_start_def less min_def le)
    moreover have "validate E (published_answer_new p2 (Some (minute_start C 3504960)) (Some (minute_start C 3515040)))
        (Some (minute_start C m)) = Ok ()"
      using m pems(2) by (simp add: validate_new le less)
    ultimately show "end_point_answer C E (minute_start C 3525120) local (key_url_at p m) SpanStated
      = Ok \<lparr> response_status = 200, response_body = to_json C (published_answer_new p2
          (map_option (minute_start C) (Some 3504960)) (map_option (minute_start C) (Some 3515040))) \<rparr>"
      by (simp add: end_point_answer_def asked [OF m(2)] Let_def) (simp add: local_def)
  qed simp_all
qed

text \<open>A key held for its stated span.\<close>

definition stated :: "str \<Rightarrow> u32 \<Rightarrow> u32 \<Rightarrow> held_key" where
  "stated pem f l = \<lparr> held_pem = pem, first_minute = f, last_minute = l, explicit = True, open_ended = False \<rparr>"

lemma stated_simps [simp]:
  "held_pem (stated p f l) = p" "first_minute (stated p f l) = f" "last_minute (stated p f l) = l" "explicit (stated p f l)"
  "held_covers (stated p f l) m \<longleftrightarrow> f \<le> m \<and> m \<le> l" "held_stated (stated p f l) = key_answer_known p f l"
  by (simp_all add: stated_def held_covers_def held_stated_def key_answer_known_def)

lemma ask_stated:
  assumes "63 \<notin> set p" "holding A p ks h n st" "h < MAXIMUM_CACHED_KEYS" "b < e"
    and "List.find (\<lambda>k. held_covers k m \<and> (explicit k \<or> \<not> recent C now m)) ks = None"
    and "request_public_key C E A (key_url_at p m) = Ok (pem, Some b, Some e)"
    and "\<And>k. k \<in> set ks \<Longrightarrow> held_pem k \<noteq> pem \<and> (last_minute k < b \<or> e - 1 < first_minute k)"
  obtains st' where "ask_stub C E now (key_url_at p m) st = (Ok (key_answer_known pem b (e - 1)), st')"
    "holding A p (ks @ [stated pem b (e - 1)]) (Suc h) (Suc n) st'"
    "stub_dates (snd st') = stub_dates (snd st) @ [Some (decimal (unat m))]"
proof -
  have "span_to_hold (now_minute C now) (Some m) (recent C now m) (Some b) (Some e) = Some (b, e - 1, True, False)"
    using assms(4) by (simp add: span_to_hold_def)
  from ask_new [OF assms(1-3,5,6) this assms(7)] obtain st' where
    st': "ask_stub C E now (key_url_at p m) st = (Ok (key_answer_stated pem (Some b) (Some e)), st')"
      "holding A p (ks @ [\<lparr> held_pem = pem, first_minute = b, last_minute = e - 1, explicit = True, open_ended = False \<rparr>])
        (Suc h) (Suc n) st'"
      "stub_dates (snd st') = stub_dates (snd st) @ [Some (decimal (unat m))]" .
  moreover have "key_answer_stated pem (Some b) (Some e) = key_answer_known pem b (e - 1)"
    using assms(4) by (simp add: key_answer_stated_def)
  ultimately show thesis by (intro that [of st']) (simp_all add: stated_def)
qed

lemma known_simps [simp]:
  "answer_pem (key_answer_known p f l) = p" "known (key_answer_known p f l)"
  "answer_covers (key_answer_known p f l) m \<longleftrightarrow> f \<le> m \<and> m \<le> l"
  "answer_first (key_answer_known p f l) = f" "answer_last (key_answer_known p f l) = l"
  by (simp_all add: key_answer_known_def answer_covers_def)

section \<open>The tests pass\<close>

lemma beyond_simps: "beyond m (key_answer_known p f l) =
    (if f > 0 \<and> near_edge m f then [f - 1] else []) @ (if l < u32_max \<and> near_edge m l then [l + 1] else [])"
  by (simp add: beyond_def)

text \<open>The end point of the first test, and the OWID checked against the key before its own.\<close>

definition edge_answers ::
    "('t :: linorder) chrono \<Rightarrow> ('sk, 'vk, 'sg) p256 \<Rightarrow> str \<Rightarrow> str \<Rightarrow> str \<Rightarrow> transport" where
  "edge_answers C E p1 p2 p3 = (\<lambda>url. end_point_answer C E (minute_start C 3525120)
     [\<lparr> scheduled_start = minute_start C 3494880, scheduled_pem = p1 \<rparr>,
      \<lparr> scheduled_start = minute_start C 3504960, scheduled_pem = p2 \<rparr>,
      \<lparr> scheduled_start = minute_start C 3515040, scheduled_pem = p3 \<rparr>] url SpanStated)"

lemma late_is_checked_beyond:
  assumes set: "edge_setting C P E" and q: "63 \<notin> set scheme"
    and pems: "to_public_key_pem E (verifying_key_of E k1) = Inr p1" "to_public_key_pem E (verifying_key_of E k2) = Inr p2"
    and strange: "rejects C E k1 k2 3504965"
  obtains st where "verify C P E (ask_stub C E now) (payload_at C E k1 3504965) scheme
      (clear_cache c, stub_new (edge_answers C E p1 p2 p3)) = (Ok True, st)"
    "holding (edge_answers C E p1 p2 p3) (ct scheme) [stated p2 3504960 3515039, stated p1 3494880 3504959] 2 2 st"
proof -
  let ?A = "edge_answers C E p1 p2 p3"
  note good = edge_setting [OF set] and one = exported_keys [OF edge_setting(4) [OF set] pems(1)]
    and two = exported_keys [OF edge_setting(4) [OF set] pems(2)] and q' = ct_query [OF q]
  note served = edge_schedule [OF set q' one(2) two(2), of _ p3, folded edge_answers_def]
    and differ = pems_differ [OF set pems strange]
  obtain st1 where 1: "ask_stub C E now (key_url_at (ct scheme) 3504965) (clear_cache c, stub_new ?A)
      = (Ok (key_answer_known p2 3504960 3515039), st1)" "holding ?A (ct scheme) [stated p2 3504960 3515039] 1 1 st1"
    using ask_stated [OF q' holding_start, of 3504960 3515040 3504965 C now E ?A p2 c] served(2) [of 3504965]
    by (simp add: MAXIMUM_CACHED_KEYS_def) blast
  obtain st2 where 2: "ask_stub C E now (key_url_at (ct scheme) 3504959) st1
      = (Ok (key_answer_known p1 3494880 3504959), st2)"
    "holding ?A (ct scheme) [stated p2 3504960 3515039, stated p1 3494880 3504959] 2 2 st2"
    using ask_stated [OF q' 1(2), of 3494880 3504960 3504959 C now E p1] served(1) [of 3504959] differ
    by (simp add: MAXIMUM_CACHED_KEYS_def two_requests) blast
  have "verify C P E (ask_stub C E now) (payload_at C E k1 3504965) scheme (clear_cache c, stub_new ?A) = (Ok True, st2)"
    using checked(4) [OF good(7) q 1(1) _ _ _ _ 2(1), of P k1 False] strange differ
      payload_judged [OF set pems(1)] payload_judged [OF set pems(2)]
    by (simp add: beyond_simps near_edge_def abs_diff_def CLOCK_DRIFT_ALLOWANCE_MINUTES_def u32_max_def)
  then show thesis using 2(2) by (rule that)
qed

lemma near_edge_passes:
  assumes set: "edge_setting C P E"
    and pems: "to_public_key_pem E (verifying_key_of E k1) = Inr p1" "to_public_key_pem E (verifying_key_of E k2) = Inr p2"
      "to_public_key_pem E (verifying_key_of E k3) = Inr p3"
    and strange: "rejects C E k1 k2 3504965" "rejects C E k2 k1 3504955" "rejects C E k1 k2 3504980" "rejects C E k3 k2 3509280"
  shows "a_signature_failing_near_the_edge_of_a_span_is_checked_against_the_neighbour C P E k1 k2 k3 now c = Some ()"
proof -
  let ?sch = "lit ''stub-edge''" and ?A = "edge_answers C E p1 p2 p3"
  have q: "63 \<notin> set ?sch" "63 \<notin> set (ct ?sch)" using ct_query [of ?sch] by (simp_all add: lit_def)
  note good = edge_setting [OF set] and one = exported_keys [OF edge_setting(4) [OF set] pems(1)]
    and two = exported_keys [OF edge_setting(4) [OF set] pems(2)] and three = exported_keys [OF edge_setting(4) [OF set] pems(3)]
  note differ = pems_differ [OF set pems(1,2) strange(1)]
    and judged = payload_judged [OF set pems(1)] payload_judged [OF set pems(2)]
    and nums = beyond_simps near_edge_def abs_diff_def CLOCK_DRIFT_ALLOWANCE_MINUTES_def u32_max_def
  obtain st2 where late: "verify C P E (ask_stub C E now) (payload_at C E k1 3504965) ?sch (clear_cache c, stub_new ?A)
      = (Ok True, st2)"
    and 2: "holding ?A (ct ?sch) [stated p2 3504960 3515039, stated p1 3494880 3504959] 2 2 st2"
    by (rule late_is_checked_beyond [OF set q(1) pems(1,2) strange(1)])
  note held = ask_held [OF q(2) 2]
  note check = checked [OF good(7) q(1)]
  have p1: "ask_stub C E now (key_url_at (ct ?sch) 3504955) st2 = (Ok (key_answer_known p1 3494880 3504959), st2)"
    using held [of 3504955 C now "stated p1 3494880 3504959" E] by simp
  have p2: "ask_stub C E now (key_url_at (ct ?sch) m) st2 = (Ok (key_answer_known p2 3504960 3515039), st2)"
    if "3504960 \<le> m" "m \<le> 3515039" for m
    using held [of m C now "stated p2 3504960 3515039" E] that by simp
  have early: "verify C P E (ask_stub C E now) (payload_at C E k2 3504955) ?sch st2 = (Ok True, st2)"
    using check(4) [OF p1 _ _ _ _ p2 [of 3504960], of P k2 False] judged strange(2) differ by (simp add: nums)
  have far: "verify C P E (ask_stub C E now) (payload_at C E k1 3504980) ?sch st2 = (Ok False, st2)"
    using check(2) [OF p2 [of 3504980], of P k1 False] judged strange(3) by (simp add: nums)
  have genuine: "verify C P E (ask_stub C E now) (payload_at C E k2 3509280) ?sch st2 = (Ok True, st2)"
    using check(1) [OF p2 [of 3509280], of P k2 True] judged by simp
  have forged: "verify C P E (ask_stub C E now) (payload_at C E k3 3509280) ?sch st2 = (Ok False, st2)"
    using check(2) [OF p2 [of 3509280], of P k3 False] judged strange(4) by (simp add: nums)
  note status = status_of_verdict [OF late] status_of_verdict [OF early] status_of_verdict [OF far]
    status_of_verdict [OF genuine] status_of_verdict [OF forged]
  show ?thesis
    using minute_start_valid(2) [OF good(7), of Version3]
    by (simp add: a_signature_failing_near_the_edge_of_a_span_is_checked_against_the_neighbour_def Let_def
        test_minutes [OF good(7,5)] one(1) two(1) three(1) good(6) payload_written(2) [OF set] status edge_answers_def [symmetric]
        holding_counts(1) [OF 2])
qed

lemma just_beyond_passes:
  assumes set: "edge_setting C P E"
    and pems: "to_public_key_pem E (verifying_key_of E k1) = Inr p1" "to_public_key_pem E (verifying_key_of E k2) = Inr p2"
    and strange: "rejects C E k1 k2 3494885"
  shows "the_neighbour_is_asked_for_by_the_minute_just_beyond_the_edge C P E k1 k2 now c = Some ()"
proof -
  let ?sch = "lit ''stub-beyond''"
  let ?A = "\<lambda>url. bind_res (asked_minute url) (\<lambda>asked. if asked < 3494880
    then answer C p1 (Some (3504960 - 10080 - 10080)) (Some (3504960 - 10080))
    else answer C p2 (Some (3504960 - 10080)) (Some 3504960))"
  have q: "63 \<notin> set ?sch" "63 \<notin> set (ct ?sch)" using ct_query [of ?sch] by (simp_all add: lit_def)
  note good = edge_setting [OF set] and one = exported_keys [OF edge_setting(4) [OF set] pems(1)]
    and two = exported_keys [OF edge_setting(4) [OF set] pems(2)]
  note differ = pems_differ [OF set pems strange]
    and judged = payload_judged [OF set pems(1)] payload_judged [OF set pems(2)]
    and nums = beyond_simps near_edge_def abs_diff_def CLOCK_DRIFT_ALLOWANCE_MINUTES_def u32_max_def
  have served: "request_public_key C E ?A (key_url_at (ct ?sch) 3494885) = Ok (p2, Some 3494880, Some 3504960)"
    "request_public_key C E ?A (key_url_at (ct ?sch) 3494879) = Ok (p1, Some 3484800, Some 3494880)"
    by (rule request_answer [OF good(1) two(2)]; simp add: asked_minute_result [OF q(2)] answer_result [OF good(7)])
      (rule request_answer [OF good(1) one(2)]; simp add: asked_minute_result [OF q(2)] answer_result [OF good(7)])
  obtain st1 where 1: "ask_stub C E now (key_url_at (ct ?sch) 3494885) (clear_cache c, stub_new ?A)
      = (Ok (key_answer_known p2 3494880 3504959), st1)"
    "holding ?A (ct ?sch) [stated p2 3494880 3504959] 1 1 st1" "stub_dates (snd st1) = [Some (decimal 3494885)]"
    using ask_stated [OF q(2) holding_start _ _ _ served(1), of now c]
    by (simp add: MAXIMUM_CACHED_KEYS_def stub_dates_def stub_new_def) blast
  obtain st2 where 2: "ask_stub C E now (key_url_at (ct ?sch) 3494879) st1
      = (Ok (key_answer_known p1 3484800 3494879), st2)" "stub_dates (snd st2) = [Some (decimal 3494885), Some (decimal 3494879)]"
    using ask_stated [OF q(2) 1(2) _ _ _ served(2), of now] differ 1(3)
    by (simp add: MAXIMUM_CACHED_KEYS_def two_requests) blast
  have late: "verify C P E (ask_stub C E now) (payload_at C E k1 3494885) ?sch (clear_cache c, stub_new ?A) = (Ok True, st2)"
    using checked(4) [OF good(7) q(1) 1(1) _ _ _ _ 2(1), of P k1 False] judged strange differ by (simp add: nums)
  show ?thesis
    by (simp add: the_neighbour_is_asked_for_by_the_minute_just_beyond_the_edge_def Let_def
        test_minutes [OF good(7,5)] one(1) two(1) payload_written(2) [OF set] status_of_verdict [OF late] 2(2)
        del: decimal.simps)
qed

lemma not_in_force_passes:
  assumes set: "edge_setting C P E"
    and pem: "to_public_key_pem E (verifying_key_of E k2) = Inr p2"
    and strange: "rejects C E k1 k2 3490560" "rejects C E k3 k2 3499200"
  shows "a_key_the_creator_says_was_not_in_force_leaves_the_signature_unjudged C P E k1 k2 k3 now c = Some ()"
proof -
  let ?sch = "lit ''stub-not-in-force''"
  let ?A = "\<lambda>_ :: str. answer C p2 (Some 3494880) (Some 3504960)"
  have q: "63 \<notin> set ?sch" "63 \<notin> set (ct ?sch)" using ct_query [of ?sch] by (simp_all add: lit_def)
  note good = edge_setting [OF set] and two = exported_keys [OF edge_setting(4) [OF set] pem]
  note judged = payload_judged [OF set pem]
    and nums = beyond_simps near_edge_def abs_diff_def CLOCK_DRIFT_ALLOWANCE_MINUTES_def u32_max_def
  have served: "request_public_key C E ?A url = Ok (p2, Some 3494880, Some 3504960)" for url
    by (rule request_answer [OF good(1) two(2)]) (simp_all add: answer_result [OF good(7)])
  obtain st1 where 1: "ask_stub C E now (key_url_at (ct ?sch) 3490560) (clear_cache c, stub_new ?A)
      = (Ok (key_answer_known p2 3494880 3504959), st1)" "holding ?A (ct ?sch) [stated p2 3494880 3504959] 1 1 st1"
    using ask_stated [OF q(2) holding_start _ _ _ served, of 3490560 now c]
    by (simp add: MAXIMUM_CACHED_KEYS_def) blast
  have same: "widen [stated p2 3494880 3504959] 0 3494880 (3504960 - 1) = Ok (True, [stated p2 3494880 3504959])"
    by (simp add: widen_result Let_def stated_def)
  have span: "span_to_hold (now_minute C now) (Some 3490560) (recent C now 3490560) (Some 3494880) (Some 3504960)
      = Some (3494880, 3504960 - 1, True, False)" by (simp add: span_to_hold_def)
  obtain st2 where 2: "ask_stub C E now (key_url_at (ct ?sch) 3490560) st1
      = (Ok (key_answer_known p2 3494880 3504959), st2)" "holding ?A (ct ?sch) [stated p2 3494880 3504959] 1 2 st2"
    using ask_wider [OF q(2) 1(2) _ served span _ same]
    by (simp add: position_Some_iff key_answer_stated_def two_requests) (auto simp: stated_def)
  have held: "ask_stub C E now (key_url_at (ct ?sch) 3499200) st2 = (Ok (key_answer_known p2 3494880 3504959), st2)"
    using ask_held [OF q(2) 2(2), of 3499200 C now "stated p2 3494880 3504959" E] by simp
  have earlier: "verify C P E (ask_stub C E now) (payload_at C E k1 3490560) ?sch (clear_cache c, stub_new ?A) = (Err not_in_force, st1)"
    "verify C P E (ask_stub C E now) (payload_at C E k1 3490560) ?sch st1 = (Err not_in_force, st2)"
    using checked(3) [OF good(7) q(1) 1(1), of P k1 False] checked(3) [OF good(7) q(1) 2(1), of P k1 False]
      judged strange(1) by (simp_all add: nums)
  have forged: "verify C P E (ask_stub C E now) (payload_at C E k3 3499200) ?sch st2 = (Ok False, st2)"
    using checked(2) [OF good(7) q(1) held, of P k3 False] judged strange(2) by (simp add: nums)
  have status: "status_at C P E now (payload_at C E k1 3490560) ?sch (clear_cache c, stub_new ?A) = Some (KeyUnavailable, st1)"
    "status_at C P E now (payload_at C E k3 3499200) ?sch st2 = Some (Invalid, st2)"
    by (rule status_of_verdict [OF earlier(1)], simp add: not_in_force_def) (rule status_of_verdict [OF forged], simp)
  show ?thesis
    by (simp add: a_key_the_creator_says_was_not_in_force_leaves_the_signature_unjudged_def Let_def
        test_minutes [OF good(7,5)] two(1) payload_written(2) [OF set] status earlier(2) looked_at_def is_err_def)
qed

lemma no_later_edge_passes:
  assumes set: "edge_setting C P E"
    and pems: "to_public_key_pem E (verifying_key_of E k1) = Inr p1" "to_public_key_pem E (verifying_key_of E k2) = Inr p2"
    and now: "minutes_since_base C now = Some s" "10085 \<le> s" "s \<le> 40000000" and strange: "rejects C E k1 k2 (s - 3)"
  shows "a_key_stated_without_an_end_has_no_later_edge C P E k1 k2 now c = Some ()"
proof -
  let ?sch = "lit ''stub-open''"
  let ?A = "\<lambda>url. bind_res (asked_minute url) (\<lambda>asked. if asked < s - 5 then answer C p1 (Some (s - 5 - 10080)) (Some (s - 5))
    else answer C p2 (Some (s - 5)) None)"
  have q: "63 \<notin> set ?sch" "63 \<notin> set (ct ?sch)" using ct_query [of ?sch] by (simp_all add: lit_def)
  note good = edge_setting [OF set] and one = exported_keys [OF edge_setting(4) [OF set] pems(1)]
    and two = exported_keys [OF edge_setting(4) [OF set] pems(2)]
  note differ = pems_differ [OF set pems strange]
    and judged = payload_judged [OF set pems(1)] payload_judged [OF set pems(2)]
  have less: "s - a < s - b" if "b < a" "a \<le> 10085" for a b
    using that now(2) by (simp add: word_less_nat_alt word_le_nat_alt unat_sub)
  have "s - a \<le> 40000000" if "a \<le> 10085" for a
    using word_sub_le [of a s] that now(2,3) by (meson order.trans)
  then have served: "request_public_key C E ?A (key_url_at (ct ?sch) (s - 3)) = Ok (p2, Some (s - 5), None)"
    "request_public_key C E ?A (key_url_at (ct ?sch) (s - 6)) = Ok (p1, Some (s - 10085), Some (s - 5))"
    using less [of 3 5] less [of 5 6] less [of 5 10085]
    by (auto intro!: request_answer [OF good(1) two(2)] request_answer [OF good(1) one(2)]
        simp: asked_minute_result [OF q(2)] answer_result [OF good(7)])
  have minutes: "s - 15 < s - 3" "s - 15 < s - 6" "s - 10085 \<le> s - 6" "s - 6 < s - 5"
    "\<not> s - 3 < s - 5" "0 < s - 5"
    using less [of 3 15] less [of 6 15] less [of 6 10085] less [of 5 6] less [of 3 5] less [of 5 10085]
    by (auto simp: word_neq_0_conv [symmetric])
  have "now_minute C now = s" by (simp add: now_minute_def now(1))
  moreover have "saturating_sub s CLOCK_DRIFT_ALLOWANCE_MINUTES = s - 15"
    using now(2) by (auto simp: saturating_sub_def CLOCK_DRIFT_ALLOWANCE_MINUTES_def word_le_nat_alt word_less_nat_alt)
  ultimately have rec: "recent C now (s - 3)" "recent C now (s - 6)"
    and open_span: "span_to_hold (now_minute C now) (Some (s - 3)) (recent C now (s - 3)) (Some (s - 5)) None
      = Some (s - 5, s - 5, False, True)"
    using minutes less [of 5 15] by (simp_all add: recent_def span_to_hold_def max_def)
  let ?k = "\<lparr> held_pem = p2, first_minute = s - 5, last_minute = s - 5, explicit = False, open_ended = True \<rparr>"
  obtain st1 where 1: "ask_stub C E now (key_url_at (ct ?sch) (s - 3)) (clear_cache c, stub_new ?A)
      = (Ok (key_answer_known p2 (s - 5) u32_max), st1)" "holding ?A (ct ?sch) [?k] 1 1 st1"
    using ask_new [OF q(2) holding_start _ _ served(1) open_span, of c]
    by (simp add: MAXIMUM_CACHED_KEYS_def key_answer_stated_def) blast
  have miss: "List.find (\<lambda>k. held_covers k (s - 6) \<and> (explicit k \<or> \<not> recent C now (s - 6))) [?k] = None"
    using minutes(4) by (simp add: held_covers_def not_le [symmetric])
  obtain st2 where 2: "ask_stub C E now (key_url_at (ct ?sch) (s - 6)) st1
      = (Ok (key_answer_known p1 (s - 10085) (s - 5 - 1)), st2)"
    "holding ?A (ct ?sch) ([?k] @ [stated p1 (s - 10085) (s - 5 - 1)]) (Suc 1) (Suc 1) st2"
    by (rule ask_stated [OF q(2) 1(2) _ _ miss served(2)])
      (use less [of 5 10085] minutes(4) differ in \<open>auto simp: MAXIMUM_CACHED_KEYS_def\<close>)
  have "beyond (s - 3) (key_answer_known p2 (s - 5) u32_max) = [s - 6]"
    using minutes by (simp add: beyond_simps near_edge_def abs_diff_def CLOCK_DRIFT_ALLOWANCE_MINUTES_def)
  then have live: "verify C P E (ask_stub C E now) (payload_at C E k1 (s - 3)) ?sch (clear_cache c, stub_new ?A) = (Ok True, st2)"
    using checked(4) [OF good(7) q(1) 1(1) _ _ _ _ 2(1), of P k1 False] judged strange differ by simp
  show ?thesis
    using holding_counts(1) [OF 2(2)]
    by (simp add: a_key_stated_without_an_end_has_no_later_edge_def Let_def now(1) one(1) two(1)
        payload_written(2) [OF set] status_of_verdict [OF live])
qed

section \<open>A calendar and keys on which the tests run\<close>

definition test_table :: "(str \<times> u32) list" where
  "test_table = map (\<lambda>(rfc, m). (lit rfc, m)) [
     (''2026-08-24T00:00:00Z'', 3494880), (''2026-08-30T23:59:00Z'', 3504959), (''2026-08-31T00:00:00Z'', 3504960),
     (''2026-08-31T00:01:00Z'', 3504961), (''2026-09-01T00:00:00Z'', 3506400), (''2026-09-03T12:00:00Z'', 3510000),
     (''2026-09-06T23:00:00Z'', 3514980), (''2026-09-06T23:59:00Z'', 3515039), (''2026-09-14T00:00:00Z'', 3525120)]"

definition test_calendar :: "int chrono" where
  "test_calendar = utc_seconds\<lparr> parse_from_rfc3339 := (\<lambda>s. case map_of test_table s of
     Some m \<Rightarrow> Some (minute_start utc_seconds m) | None \<Rightarrow> parse_from_rfc3339 utc_seconds s) \<rparr>"

lemma test_calendar_simps:
  "from_timestamp test_calendar = from_timestamp utc_seconds" "num_minutes test_calendar = num_minutes utc_seconds"
  "num_hours test_calendar = num_hours utc_seconds" "add_minutes test_calendar = add_minutes utc_seconds"
  "add_hours test_calendar = add_hours utc_seconds" "to_rfc3339 test_calendar = to_rfc3339 utc_seconds"
  "base_date test_calendar = base_date utc_seconds" "minute_start test_calendar = minute_start utc_seconds"
  by (simp_all add: test_calendar_def base_date_def minute_start_def [abs_def])

lemma test_calendar_fine: "minutes_fine test_calendar" "test_dates test_calendar"
  "request_moment test_calendar = Ok (minute_start test_calendar 3525120)"
proof -
  have dates: "dates_ok test_calendar" "dates_ordered test_calendar"
    using dates_ok_utc dates_ordered_utc by (simp_all add: dates_ok_def dates_ordered_def test_calendar_simps)
  obtain whole where whole: "rfc3339_ok utc_seconds whole" "\<forall>m \<le> 40000000. whole (minute_start utc_seconds m)"
    using minutes_fine_utc by (auto simp: minutes_fine_def)
  have "84 \<notin> set (to_rfc3339 utc_seconds d)" for d
    using decimal_digits [of "nat d"] decimal_digits [of "nat (- d)"] by (auto simp: utc_seconds_def decimal_int_def lit_def)
  moreover have "\<forall>s \<in> fst ` set test_table. 84 \<in> set s" by (simp add: test_table_def lit_def)
  ultimately have "map_of test_table (to_rfc3339 utc_seconds d) = None" for d
    unfolding map_of_eq_None_iff by blast
  then have "rfc3339_ok test_calendar whole"
    using whole(1) by (simp add: rfc3339_ok_def test_calendar_simps) (simp add: test_calendar_def)
  then show "minutes_fine test_calendar"
    using dates whole(2) by (auto simp: minutes_fine_def test_calendar_simps)
  show "test_dates test_calendar"
    by (simp add: test_dates_def test_calendar_simps) (simp add: test_calendar_def test_table_def lit_def)
  show "request_moment test_calendar = Ok (minute_start test_calendar 3525120)"
    by (simp add: request_moment_def test_calendar_simps) (simp add: test_calendar_def test_table_def lit_def)
qed

lemma edge_setting_fine: "edge_setting test_calendar target64 numbered"
  by (simp add: edge_setting_def test_calendar_fine ample_target64 signatures_ok_numbered public_pem_ok_numbered)

lemma numbered_rejects: "k \<noteq> k' \<Longrightarrow> rejects C numbered k k' m"
  using from_to_le_bytes [of k] from_to_le_bytes [of k']
  by (auto simp: rejects_def Let_def numbered_def numbered_sign_def to_le_bytes_def)

lemma edge_tests_run:
  "a_signature_failing_near_the_edge_of_a_span_is_checked_against_the_neighbour test_calendar target64 numbered 1 2 3
     (minute_start test_calendar 4000000) empty_cache = Some ()"
  by (rule near_edge_passes [OF edge_setting_fine]) (simp_all add: numbered_rejects, simp_all add: numbered_def)

end
