(* ===== verification/IdentifierTests.thy ===== *)
theory IdentifierTests
  imports EdgeTests
begin

text \<open>
  The unit tests of src/src/fetch.rs on the genuine identifier of the fixture files: which key
  verifies it, and what is said where its key is not served, is served in another form, or
  comes from a redirect. What is relied on of the fixture files is what they say of themselves:
  an OWID of 51d.es in the week of 31 August 2026, which the key of that week verifies and the
  key of the week of 14 September does not.
\<close>

section \<open>Definitions\<close>

definition an_answer_in_another_format_is_a_key_that_cannot_be_read ::
    "('t :: linorder) chrono \<Rightarrow> platform \<Rightarrow> ('sk, 'vk, 'sg) p256 \<Rightarrow> base64 \<Rightarrow> str \<Rightarrow> str \<Rightarrow> 't \<Rightarrow> cache
     \<Rightarrow> unit option" where
  "an_answer_in_another_format_is_a_key_that_cannot_be_read C P E B text fixture now c = do {
     owid <- expect (genuine_identifier C P B text);
     schedule <- expect (schedule_of C fixture);
     let stub = stub_new (\<lambda>url. bind_res (request_moment C) (\<lambda>moment.
       bind_res (end_point_answer C E moment schedule url SpanStated) (\<lambda>served.
       case parse_answer C (response_body served) of
         Ok a \<Rightarrow> Ok \<lparr> response_status = 200, response_body = to_json C (a\<lparr> answer_format := lit ''pkcs'' \<rparr>) \<rparr>
       | _ \<Rightarrow> Panic)));
     (status, _) <- status_at C P E now owid (lit ''stub-format'') (clear_cache c, stub);
     assert_that (status = InvalidKey)
   }"

definition an_answer_that_is_not_the_json_form_is_a_key_that_cannot_be_read ::
    "('t :: linorder) chrono \<Rightarrow> platform \<Rightarrow> ('sk, 'vk, 'sg) p256 \<Rightarrow> base64 \<Rightarrow> str \<Rightarrow> str \<Rightarrow> 't \<Rightarrow> cache
     \<Rightarrow> unit option" where
  "an_answer_that_is_not_the_json_form_is_a_key_that_cannot_be_read C P E B text fixture now c = do {
     owid <- expect (genuine_identifier C P B text);
     pem_only <- expect (end_point_stating C E fixture SpanPemOnly);
     (status, st) <- status_at C P E now owid (lit ''stub-pem-only'') (clear_cache c, pem_only);
     assert_that (status = InvalidKey);
     schedule <- expect (schedule_of C fixture);
     key <- get schedule 0;
     start <- minutes_at C (lit ''2026-08-31T00:00:00Z'');
     start <- add_minutes C (base_date C) (uint start);
     finish <- minutes_at C (lit ''2026-08-24T00:00:00Z'');
     finish <- add_minutes C (base_date C) (uint finish);
     let contradictory = stub_new (\<lambda>_. Ok \<lparr> response_status = 200, response_body =
       to_json C (published_answer_new (scheduled_pem key) (Some start) (Some finish)) \<rparr>);
     (status, _) <- status_at C P E now owid (lit ''stub-contradictory'') (fst st, contradictory);
     assert_that (status = InvalidKey)
   }"

definition url_names_the_minute_the_identifier_was_created ::
    "'t chrono \<Rightarrow> platform \<Rightarrow> base64 \<Rightarrow> str \<Rightarrow> unit option" where
  "url_names_the_minute_the_identifier_was_created C P B text = do {
     owid <- expect (genuine_identifier C P B text);
     assert_that (public_key_url C owid (lit ''https'')
       = lit ''https://51d.es/owid/api/v3/public-key?date='' @ decimal (unat IDENTIFIER_MINUTES) @ lit ''&format=spki'')
   }"

text \<open>\<open>offset_rfc3339\<close> is the library's \<open>to_rfc3339\<close>, which writes the offset as digits.\<close>

definition genuine_identifier_verifies_against_the_key_in_force_on_its_date ::
    "('t :: linorder) chrono \<Rightarrow> ('t \<Rightarrow> str) \<Rightarrow> platform \<Rightarrow> ('sk, 'vk, 'sg) p256 \<Rightarrow> base64 \<Rightarrow> str \<Rightarrow> str \<Rightarrow> unit option" where
  "genuine_identifier_verifies_against_the_key_in_force_on_its_date C offset_rfc3339 P E B text fixture = do {
     owid <- expect (genuine_identifier C P B text);
     schedule <- expect (schedule_of C fixture);
     key <- stand_in_key_in_force schedule (owid_date owid);
     assert_that (offset_rfc3339 (scheduled_start key) = lit ''2026-08-31T00:00:00+00:00'');
     status <- verify_status_with_public_key C P E owid (scheduled_pem key);
     assert_that (status = Valid)
   }"

definition a_later_weeks_key_does_not_verify_an_earlier_weeks_identifier ::
    "('t :: linorder) chrono \<Rightarrow> platform \<Rightarrow> ('sk, 'vk, 'sg) p256 \<Rightarrow> base64 \<Rightarrow> str \<Rightarrow> str \<Rightarrow> unit option" where
  "a_later_weeks_key_does_not_verify_an_earlier_weeks_identifier C P E B text fixture = do {
     owid <- expect (genuine_identifier C P B text);
     schedule <- expect (schedule_of C fixture);
     moment <- expect (request_moment C);
     later <- stand_in_key_in_force schedule moment;
     assert_that (scheduled_start later > owid_date owid);
     status <- verify_status_with_public_key C P E owid (scheduled_pem later);
     assert_that (status = Invalid)
   }"

definition dated_fetch_verifies_an_identifier_from_an_earlier_key_week ::
    "('t :: linorder) chrono \<Rightarrow> platform \<Rightarrow> ('sk, 'vk, 'sg) p256 \<Rightarrow> base64 \<Rightarrow> str \<Rightarrow> str \<Rightarrow> 't \<Rightarrow> cache
     \<Rightarrow> unit option" where
  "dated_fetch_verifies_an_identifier_from_an_earlier_key_week C P E B text fixture now c = do {
     owid <- expect (genuine_identifier C P B text);
     stub <- expect (end_point C E fixture);
     let (r, st) = verify C P E (ask_stub C E now) owid (lit ''stub-dated'') (c, stub);
     verified <- expect r;
     assert_that verified;
     assert_that (stub_dates (snd st) = [Some (decimal (unat IDENTIFIER_MINUTES))])
   }"

definition undated_fetch_leaves_an_earlier_weeks_identifier_unverified ::
    "('t :: linorder) chrono \<Rightarrow> platform \<Rightarrow> ('sk, 'vk, 'sg) p256 \<Rightarrow> base64 \<Rightarrow> str \<Rightarrow> str \<Rightarrow> 't \<Rightarrow> cache
     \<Rightarrow> unit option" where
  "undated_fetch_leaves_an_earlier_weeks_identifier_unverified C P E B text fixture now c = do {
     owid <- expect (genuine_identifier C P B text);
     stub <- expect (end_point C E fixture);
     let undated = lit ''stub-undated://'' @ owid_domain owid @ lit ''/owid/api/v''
       @ decimal (unat (as_byte (owid_version owid))) @ lit ''/public-key?format=spki'';
     let (r, st) = verify_at_url C P E (ask_stub C E now) owid undated (c, stub);
     status <- signature_status_of r;
     assert_that (status = KeyUnavailable);
     assert_that (stub_dates (snd st) = [None])
   }"

definition a_redirect_is_not_followed ::
    "('t :: linorder) chrono \<Rightarrow> platform \<Rightarrow> ('sk, 'vk, 'sg) p256 \<Rightarrow> base64 \<Rightarrow> str \<Rightarrow> str \<Rightarrow> 't \<Rightarrow> cache
     \<Rightarrow> unit option" where
  "a_redirect_is_not_followed C P E B text fixture now c = do {
     owid <- expect (genuine_identifier C P B text);
     let creator = public_key_url C owid (lit ''stub-redirect'');
     schedule <- expect (schedule_of C fixture);
     let stub = stub_new (\<lambda>url. if url = creator then Ok \<lparr> response_status = 302, response_body = [] \<rparr>
       else bind_res (request_moment C) (\<lambda>moment. end_point_answer C E moment schedule url SpanStated));
     (status, st) <- status_at C P E now owid (lit ''stub-redirect'') (c, stub);
     assert_that (status = KeyUnavailable);
     assert_that (requests (snd st) = [creator])
   }"

definition a_key_the_end_point_cannot_serve_is_key_unavailable ::
    "('t :: linorder) chrono \<Rightarrow> platform \<Rightarrow> ('sk, 'vk, 'sg) p256 \<Rightarrow> base64 \<Rightarrow> str \<Rightarrow> str \<Rightarrow> 't \<Rightarrow> cache
     \<Rightarrow> unit option" where
  "a_key_the_end_point_cannot_serve_is_key_unavailable C P E B text fixture now c = do {
     owid <- expect (genuine_identifier C P B text);
     stub <- expect (end_point C E fixture);
     schedule <- expect (schedule_of C fixture);
     key <- get schedule 0;
     fortnight_before <- add_minutes C (scheduled_start key) (- (14 * 24 * 60));
     before <- minutes_since_base C fortnight_before;
     let url = lit ''stub-unserved://'' @ owid_domain owid @ lit ''/owid/api/v''
       @ decimal (unat (as_byte (owid_version owid))) @ lit ''/public-key?date='' @ decimal (unat before) @ lit ''&format=spki'';
     let (r, st) = verify_at_url C P E (ask_stub C E now) owid url (c, stub);
     status <- signature_status_of r;
     assert_that (status = KeyUnavailable)
   }"

definition a_transport_that_obtains_no_answer_is_key_unavailable ::
    "('t :: linorder) chrono \<Rightarrow> platform \<Rightarrow> ('sk, 'vk, 'sg) p256 \<Rightarrow> base64 \<Rightarrow> str \<Rightarrow> 't \<Rightarrow> cache \<Rightarrow> unit option" where
  "a_transport_that_obtains_no_answer_is_key_unavailable C P E B text now c = do {
     let stub = stub_new (\<lambda>url. Err (Http (lit ''no route to '' @ url)));
     owid <- expect (genuine_identifier C P B text);
     (status, _) <- status_at C P E now owid (lit ''stub-unreachable'') (c, stub);
     assert_that (status = KeyUnavailable)
   }"

definition clearing_the_cache_makes_the_next_caller_fetch_again ::
    "('t :: linorder) chrono \<Rightarrow> platform \<Rightarrow> ('sk, 'vk, 'sg) p256 \<Rightarrow> base64 \<Rightarrow> str \<Rightarrow> str \<Rightarrow> 't \<Rightarrow> cache
     \<Rightarrow> unit option" where
  "clearing_the_cache_makes_the_next_caller_fetch_again C P E B text fixture now c = do {
     owid <- expect (genuine_identifier C P B text);
     stub <- expect (end_point C E fixture);
     (status, st) <- status_at C P E now owid (lit ''stub-cleared'') (c, stub);
     assert_that (status = Valid);
     (status, st) <- status_at C P E now owid (lit ''stub-cleared'') st;
     assert_that (status = Valid);
     assert_that (request_count st = 1);
     let st = (clear_cache (fst st), snd st);
     (status, st) <- status_at C P E now owid (lit ''stub-cleared'') st;
     assert_that (status = Valid);
     assert_that (request_count st = 2)
   }"

text \<open>The transport of one thread. Reference counts are not part of the model.\<close>

definition thread_bound_fetch :: "'t chrono \<Rightarrow> str \<Rightarrow> transport" where
  "thread_bound_fetch C pem _ = Ok \<lparr> response_status = 200, response_body = to_json C (published_answer_new pem None None) \<rparr>"

definition the_transport_future_is_not_required_to_be_send ::
    "('t :: linorder) chrono \<Rightarrow> platform \<Rightarrow> ('sk, 'vk, 'sg) p256 \<Rightarrow> base64 \<Rightarrow> str \<Rightarrow> str \<Rightarrow> 't \<Rightarrow> cache
     \<Rightarrow> unit option" where
  "the_transport_future_is_not_required_to_be_send C P E B text fixture now c = do {
     owid <- expect (genuine_identifier C P B text);
     schedule <- expect (schedule_of C fixture);
     key <- stand_in_key_in_force schedule (owid_date owid);
     let transport = thread_bound_fetch C (scheduled_pem key);
     status <- fst (verify_status C P E (key_at_url C E transport now) owid (lit ''stub-thread-bound'') c);
     assert_that (status = Valid)
   }"

section \<open>Lemmas\<close>

definition fixture_files ::
    "('t :: linorder) chrono \<Rightarrow> platform \<Rightarrow> ('sk, 'vk, 'sg) p256 \<Rightarrow> base64 \<Rightarrow> str \<Rightarrow> str \<Rightarrow> str list \<Rightarrow> 't owid \<Rightarrow> bool" where
  "fixture_files C P E B text fixture pems w \<longleftrightarrow>
     test_setting C P E fixture pems \<and> genuine_identifier C P B text = Ok w
     \<and> owid_version w = Version3 \<and> owid_domain w = lit ''51d.es'' \<and> owid_date w = minute_start C IDENTIFIER_MINUTES
     \<and> verify_with_public_key C P E w (pems ! 16) = Ok True
     \<and> verify_with_public_key C P E w (pems ! 18) = Ok False"

lemma fixture_files:
  assumes "fixture_files C P E B text fixture pems w"
  shows "test_setting C P E fixture pems" "genuine_identifier C P B text = Ok w"
    "owid_version w = Version3" "owid_domain w = lit ''51d.es''" "owid_date w = minute_start C 3510720"
    "verify_with_public_key C P E w (pems ! 16) = Ok True" "verify_with_public_key C P E w (pems ! 18) = Ok False"
    "minutes_since_base C (owid_date w) = Some 3510720"
    "public_key_url C w scheme = key_url_at (es scheme) 3510720"
    "stand_in_key_in_force (weeks C pems) (owid_date w)
      = Some \<lparr> scheduled_start = minute_start C 3504960, scheduled_pem = pems ! 16 \<rparr>"
    "stand_in_key_in_force (weeks C pems) (minute_start C 3525120)
      = Some \<lparr> scheduled_start = minute_start C 3525120, scheduled_pem = pems ! 18 \<rparr>"
proof -
  show w: "test_setting C P E fixture pems" "genuine_identifier C P B text = Ok w"
    "owid_version w = Version3" "owid_domain w = lit ''51d.es''" "owid_date w = minute_start C 3510720"
    "verify_with_public_key C P E w (pems ! 16) = Ok True" "verify_with_public_key C P E w (pems ! 18) = Ok False"
    using assms by (simp_all add: fixture_files_def IDENTIFIER_MINUTES_def)
  note dates = test_setting(5,6) [OF w(1)]
  show "minutes_since_base C (owid_date w) = Some 3510720" by (simp add: w(5) minute_start_count(2) [OF dates(1)])
  then show "public_key_url C w scheme = key_url_at (es scheme) 3510720"
    by (simp add: public_key_url_def key_end_point_def w(3,4) es_def lit_def decimal.simps)
  show "stand_in_key_in_force (weeks C pems) (owid_date w)
      = Some \<lparr> scheduled_start = minute_start C 3504960, scheduled_pem = pems ! 16 \<rparr>"
    using week_in_force [OF dates, of 16 3510720 pems] by (simp add: w(5) week_starts)
  show "stand_in_key_in_force (weeks C pems) (minute_start C 3525120)
      = Some \<lparr> scheduled_start = minute_start C 3525120, scheduled_pem = pems ! 18 \<rparr>"
    using week_in_force [OF dates, of 18 3525120 pems] by (simp add: week_start_def)
qed

text \<open>The tests with no request.\<close>

lemma identifier_tests_pass:
  assumes "fixture_files C P E B text fixture pems w"
  shows "url_names_the_minute_the_identifier_was_created C P B text = Some ()"
    and "offset_rfc3339 (minute_start C 3504960) = lit ''2026-08-31T00:00:00+00:00'' \<Longrightarrow>
      genuine_identifier_verifies_against_the_key_in_force_on_its_date C offset_rfc3339 P E B text fixture = Some ()"
    and "a_later_weeks_key_does_not_verify_an_earlier_weeks_identifier C P E B text fixture = Some ()"
proof -
  note w = fixture_files [OF assms]
  have moment: "request_moment C = Ok (minute_start C 3525120)"
    using test_setting(3) [OF w(1)] by (simp add: weekly_fixture_def)
  show "url_names_the_minute_the_identifier_was_created C P B text = Some ()"
    by (simp add: url_names_the_minute_the_identifier_was_created_def w(2,9) IDENTIFIER_MINUTES_def key_url_at_def
        FORMAT_QUERY_def es_def del: decimal.simps) (simp add: lit_def)
  show "offset_rfc3339 (minute_start C 3504960) = lit ''2026-08-31T00:00:00+00:00'' \<Longrightarrow>
      genuine_identifier_verifies_against_the_key_in_force_on_its_date C offset_rfc3339 P E B text fixture = Some ()"
    by (simp add: genuine_identifier_verifies_against_the_key_in_force_on_its_date_def w(2,6,10)
        weekly_schedule [OF test_setting(3) [OF w(1)]] verify_status_with_public_key_def)
  show "a_later_weeks_key_does_not_verify_an_earlier_weeks_identifier C P E B text fixture = Some ()"
    by (simp add: a_later_weeks_key_does_not_verify_an_earlier_weeks_identifier_def w(2,5,7,11) moment
        weekly_schedule [OF test_setting(3) [OF w(1)]] verify_status_with_public_key_def
        minute_start_less [OF test_setting(5,6) [OF w(1)]])
qed

text \<open>What a test without an empty cache relies on: no key is held for its end point, and there is room.\<close>

definition unasked :: "cache \<Rightarrow> str \<Rightarrow> bool" where
  "unasked c p \<longleftrightarrow> cache_keys c p = None \<and> cache_held c < MAXIMUM_CACHED_KEYS"

lemma unasked:
  assumes "unasked c p"
  shows "holding A p [] (cache_held c) 0 (c, stub_new A)" "cache_held c < MAXIMUM_CACHED_KEYS"
    "stub_dates (snd (c, stub_new A)) = []"
  using assms by (simp_all add: unasked_def holding_def stub_new_def request_count_def held_keys_def stub_dates_def)

lemma requests_new: "requests (stub_new A) = []"
  by (simp add: stub_new_def)

text \<open>The identifier checked against the stand in: its week's key is fetched, held, and verifies.\<close>

lemma identifier_asked:
  assumes "fixture_files C P E B text fixture pems w" "63 \<notin> set scheme"
    and "holding (weekly_answer C E pems SpanStated) (es scheme) [] h n st" "h < MAXIMUM_CACHED_KEYS"
  obtains st' where "verify C P E (ask_stub C E now) w scheme st = (Ok True, st')"
    "holding (weekly_answer C E pems SpanStated) (es scheme) [stated (pems ! 16) 3504960 3515039] (Suc h) (Suc n) st'"
    "stub_dates (snd st') = stub_dates (snd st) @ [Some (decimal 3510720)]"
proof -
  note w = fixture_files [OF assms(1)] and q = es_query [OF assms(2)]
  have asked: "request_public_key C E (weekly_answer C E pems SpanStated) (key_url_at (es scheme) 3510720)
      = Ok (pems ! 16, Some 3504960, Some 3515040)"
    using weekly_stated [OF test_setting(1,3) [OF w(1)] q, of 16 3510720] by (simp add: week_starts min_def word_le_nat_alt)
  obtain st' where st': "ask_stub C E now (key_url_at (es scheme) 3510720) st
      = (Ok (key_answer_known (pems ! 16) 3504960 3515039), st')"
    "holding (weekly_answer C E pems SpanStated) (es scheme) [stated (pems ! 16) 3504960 3515039] (Suc h) (Suc n) st'"
    "stub_dates (snd st') = stub_dates (snd st) @ [Some (decimal 3510720)]"
    using ask_stated [OF q assms(3,4) _ _ asked, of now] by (simp del: decimal.simps) blast
  have "verify C P E (ask_stub C E now) w scheme st = (Ok True, st')"
    using judged(1) [OF st'(1) _ w(8) refl, of P True] w(6) by (simp add: verify_def w(9))
  with st'(2,3) show thesis by (intro that)
qed

lemma identifier_held:
  assumes "fixture_files C P E B text fixture pems w" "63 \<notin> set scheme"
    and "holding A (es scheme) [stated (pems ! 16) 3504960 3515039] h n st"
  shows "verify C P E (ask_stub C E now) w scheme st = (Ok True, st)"
proof -
  note w = fixture_files [OF assms(1)]
  have "ask_stub C E now (key_url_at (es scheme) 3510720) st = (Ok (key_answer_known (pems ! 16) 3504960 3515039), st)"
    using ask_held [OF es_query [OF assms(2)] assms(3), of 3510720 C now "stated (pems ! 16) 3504960 3515039" E] by simp
  from judged(1) [OF this _ w(8) refl, of P True] w(6) show ?thesis by (simp add: verify_def w(9))
qed

lemma dated_and_cleared_pass:
  assumes "fixture_files C P E B text fixture pems w"
  shows "unasked c (es (lit ''stub-dated'')) \<Longrightarrow>
      dated_fetch_verifies_an_identifier_from_an_earlier_key_week C P E B text fixture now c = Some ()"
    and "unasked c (es (lit ''stub-cleared'')) \<Longrightarrow>
      clearing_the_cache_makes_the_next_caller_fetch_again C P E B text fixture now c = Some ()"
proof -
  note w = fixture_files [OF assms] and stub = weekly_stub [OF test_setting(3) [OF fixture_files(1) [OF assms]]]
  let ?A = "weekly_answer C E pems SpanStated"
  have q: "63 \<notin> set (lit ''stub-dated'')" "63 \<notin> set (lit ''stub-cleared'')" by (simp_all add: lit_def)
  show "dated_fetch_verifies_an_identifier_from_an_earlier_key_week C P E B text fixture now c = Some ()"
    if c: "unasked c (es (lit ''stub-dated''))"
  proof -
    obtain st where "verify C P E (ask_stub C E now) w (lit ''stub-dated'') (c, stub_new ?A) = (Ok True, st)"
      "stub_dates (snd st) = [Some (decimal 3510720)]"
      using identifier_asked [OF assms q(1) unasked(1,2) [OF c], of now] unasked(3) [OF c, of ?A] by (simp del: decimal.simps) blast
    then show ?thesis
      by (simp add: dated_fetch_verifies_an_identifier_from_an_earlier_key_week_def w(2) end_point_def stub
          IDENTIFIER_MINUTES_def del: decimal.simps)
  qed
  show "clearing_the_cache_makes_the_next_caller_fetch_again C P E B text fixture now c = Some ()"
    if c: "unasked c (es (lit ''stub-cleared''))"
  proof -
    let ?sch = "lit ''stub-cleared''"
    obtain st1 where 1: "verify C P E (ask_stub C E now) w ?sch (c, stub_new ?A) = (Ok True, st1)"
      "holding ?A (es ?sch) [stated (pems ! 16) 3504960 3515039] (Suc (cache_held c)) (Suc 0) st1"
      using identifier_asked [OF assms q(2) unasked(1,2) [OF c], of now] by blast
    have "holding ?A (es ?sch) [] 0 (Suc 0) (clear_cache (fst st1), snd st1)"
      using 1(2) by (simp add: holding_def clear_cache_def request_count_def held_keys_def)
    note empty = this
    obtain st2 where 2: "verify C P E (ask_stub C E now) w ?sch (clear_cache (fst st1), snd st1) = (Ok True, st2)"
      "holding ?A (es ?sch) [stated (pems ! 16) 3504960 3515039] (Suc 0) (Suc (Suc 0)) st2"
      using identifier_asked [OF assms q(2) empty, of now] by (simp add: MAXIMUM_CACHED_KEYS_def del: decimal.simps) blast
    show ?thesis
      using holding_counts(1) [OF 1(2)] holding_counts(1) [OF 2(2)]
      by (simp add: clearing_the_cache_makes_the_next_caller_fetch_again_def w(2) end_point_def stub Let_def
          status_of_verdict [OF 1(1)] status_of_verdict [OF identifier_held [OF assms q(2) 1(2)]] status_of_verdict [OF 2(1)])
  qed
qed

text \<open>A request that fails is recorded and nothing is held.\<close>

lemma ask_refused:
  assumes "63 \<notin> set p" "holding A p [] h n st" "request_public_key C E A (key_url_at p m) = Err e"
  obtains st' where "ask_stub C E now (key_url_at p m) st = (Err (into_error (failure_of e)), st')"
    "requests (snd st') = requests (snd st) @ [key_url_at p m]" "fst st' = fst st"
proof -
  obtain c s where st: "st = (c, s)" by fastforce
  have "held_for c p m (recent C now m) = None" using holding_lookup assms(2) st by fastforce
  moreover have "stub_answer s = A" using assms(2) st by (simp add: holding_def)
  ultimately have "ask_stub C E now (key_url_at p m) (c, s)
      = (Err (into_error (failure_of e)), (c, s\<lparr> requests := requests s @ [key_url_at p m] \<rparr>))"
    using assms(3) by (simp add: ask_stub_def key_at_url_def cached_answer_def is_recent_url_def
        key_url_at_read_back [OF assms(1)] fetch_outcome_def stub_fetch_def)
  then show thesis using st by (intro that [of "(c, s\<lparr> requests := requests s @ [key_url_at p m] \<rparr>)"]) simp_all
qed

lemma identifier_refused:
  assumes "fixture_files C P E B text fixture pems w" "63 \<notin> set scheme"
    and "holding A (es scheme) [] h n st" "request_public_key C E A (key_url_at (es scheme) 3510720) = Err e"
  obtains st' where "verify C P E (ask_stub C E now) w scheme st = (Err (into_error (failure_of e)), st')"
    "requests (snd st') = requests (snd st) @ [key_url_at (es scheme) 3510720]" "fst st' = fst st"
proof -
  obtain st' where st': "ask_stub C E now (key_url_at (es scheme) 3510720) st = (Err (into_error (failure_of e)), st')"
    "requests (snd st') = requests (snd st) @ [key_url_at (es scheme) 3510720]" "fst st' = fst st"
    using ask_refused [OF es_query [OF assms(2)] assms(3,4)] .
  then show thesis
    by (intro that [of st']) (simp_all add: verify_def verify_at_url_def fixture_files(9) [OF assms(1)])
qed

lemma unavailable_passes:
  assumes "fixture_files C P E B text fixture pems w"
  shows "unasked c (es (lit ''stub-redirect'')) \<Longrightarrow> a_redirect_is_not_followed C P E B text fixture now c = Some ()"
    and "unasked c (es (lit ''stub-unreachable'')) \<Longrightarrow>
      a_transport_that_obtains_no_answer_is_key_unavailable C P E B text now c = Some ()"
proof -
  note w = fixture_files [OF assms]
  have q: "63 \<notin> set (lit ''stub-redirect'')" "63 \<notin> set (lit ''stub-unreachable'')" by (simp_all add: lit_def)
  show "a_redirect_is_not_followed C P E B text fixture now c = Some ()" if c: "unasked c (es (lit ''stub-redirect''))"
  proof -
    let ?url = "key_url_at (es (lit ''stub-redirect'')) 3510720"
    let ?A = "\<lambda>url. if url = ?url then Ok \<lparr> response_status = 302, response_body = [] \<rparr>
      else bind_res (request_moment C) (\<lambda>moment. end_point_answer C E moment (weeks C pems) url SpanStated)"
    obtain message where "request_public_key C E ?A ?url = Err (Http message)"
      by (simp add: request_public_key_def del: decimal.simps)
    from identifier_refused [OF assms q(1) unasked(1) [OF c] this] obtain st where
      st: "verify C P E (ask_stub C E now) w (lit ''stub-redirect'') (c, stub_new ?A) = (Err (Http message), st)"
      "requests (snd st) = [?url]" by (simp add: requests_new) blast
    show ?thesis
      using st(2) by (simp add: a_redirect_is_not_followed_def Let_def w(2,9)
          weekly_schedule [OF test_setting(3) [OF w(1)]] status_of_verdict [OF st(1)])
  qed
  show "a_transport_that_obtains_no_answer_is_key_unavailable C P E B text now c = Some ()"
    if c: "unasked c (es (lit ''stub-unreachable''))"
  proof -
    let ?A = "\<lambda>url. Err (Http (lit ''no route to '' @ url)) :: (fetch_response, error) res"
    have "request_public_key C E ?A (key_url_at (es (lit ''stub-unreachable'')) 3510720)
        = Err (Http (lit ''no route to '' @ key_url_at (es (lit ''stub-unreachable'')) 3510720))"
      by (simp add: request_public_key_def)
    from identifier_refused [OF assms q(2) unasked(1) [OF c] this] obtain st where
      st: "verify C P E (ask_stub C E now) w (lit ''stub-unreachable'') (c, stub_new ?A)
        = (Err (Http (lit ''no route to '' @ key_url_at (es (lit ''stub-unreachable'')) 3510720)), st)" by (simp add: requests_new) blast
    show ?thesis
      by (simp add: a_transport_that_obtains_no_answer_is_key_unavailable_def Let_def w(2) status_of_verdict [OF st])
  qed
qed

text \<open>Answers that cannot be read.\<close>

lemma status_refused:
  assumes "fixture_files C P E B text fixture pems w" "63 \<notin> set scheme"
    and "\<exists>m. request_public_key C E A (key_url_at (es scheme) 3510720) = Err (Key m)"
  shows "\<exists>st. status_at C P E now w scheme (clear_cache c, stub_new A) = Some (InvalidKey, st) \<and> fst st = clear_cache c"
proof -
  from assms(3) obtain m where "request_public_key C E A (key_url_at (es scheme) 3510720) = Err (Key m)" by blast
  from identifier_refused [OF assms(1,2) holding_start this] obtain st where
    st: "verify C P E (ask_stub C E now) w scheme (clear_cache c, stub_new A) = (Err (into_error (failure_of (Key m))), st)"
    "fst st = fst (clear_cache c, stub_new A)" .
  have "status_at C P E now w scheme (clear_cache c, stub_new A) = Some (InvalidKey, st)"
    by (rule status_of_verdict [OF st(1)]) simp
  with st(2) show ?thesis by auto
qed

lemma unreadable_passes:
  fixes C :: "('t :: linorder) chrono"
  assumes "fixture_files C P E B text fixture pems w"
  shows "an_answer_in_another_format_is_a_key_that_cannot_be_read C P E B text fixture now c = Some ()"
    and "pems ! 16 = lit ''-----BEGIN PUBLIC KEY-----'' @ rest \<Longrightarrow>
      an_answer_that_is_not_the_json_form_is_a_key_that_cannot_be_read C P E B text fixture now c = Some ()"
proof -
  note w = fixture_files [OF assms]
  note set = test_setting [OF w(1)] and fine = minutes_fine [OF test_setting(1) [OF w(1)]]
  have q: "63 \<notin> set (lit ''stub-format'')" "63 \<notin> set (lit ''stub-pem-only'')" "63 \<notin> set (lit ''stub-contradictory'')"
    by (simp_all add: lit_def)
  have moment: "request_moment C = Ok (minute_start C 3525120)" using set(3) by (simp add: weekly_fixture_def)
  have week: "week_start 16 \<le> min 3510720 3525120" "min 3510720 3525120 < week_start (Suc 16)"
    by (simp_all add: week_starts min_def word_le_nat_alt)
  show "an_answer_in_another_format_is_a_key_that_cannot_be_read C P E B text fixture now c = Some ()"
  proof -
    let ?url = "key_url_at (es (lit ''stub-format'')) 3510720"
    let ?a = "published_answer_new (pems ! 16) (Some (minute_start C (week_start 16))) (Some (minute_start C (week_start (Suc 16))))"
    let ?b = "?a\<lparr> answer_format := lit ''pkcs'' \<rparr>"
    let ?A = "\<lambda>url. bind_res (end_point_answer C E (minute_start C 3525120) (weeks C pems) url SpanStated) (\<lambda>served.
       case parse_answer C (response_body served) of
         Ok a \<Rightarrow> Ok \<lparr> response_status = 200, response_body = to_json C (a\<lparr> answer_format := lit ''pkcs'' \<rparr>) \<rparr>
       | _ \<Rightarrow> Panic)"
    have "parse_answer C (to_json C ?a) = Ok ?a" "parse_answer C (to_json C ?b) = Ok ?b"
      by (rule fine(3); simp add: published_answer_new_def)+
    moreover have "end_point_answer C E (minute_start C 3525120) (weeks C pems) ?url SpanStated
        = Ok \<lparr> response_status = 200, response_body = to_json C ?a \<rparr>"
      using weekly_response(1) [OF set(1,3) es_query [OF q(1)] _ week] by (simp add: weekly_answer_def)
    moreover have "validate E ?b None = Err (Key (lit ''the public key answer states a format this crate does not read''))"
      by (simp add: validate_def SPKI_FORMAT_def lit_def)
    ultimately have "request_public_key C E ?A ?url = Err (Key (lit ''the public key answer states a format this crate does not read''))"
      by (simp add: request_public_key_def)
    then obtain st where "status_at C P E now w (lit ''stub-format'') (clear_cache c, stub_new ?A) = Some (InvalidKey, st)"
      using status_refused [OF assms q(1), of ?A now c] by blast
    then show ?thesis
      by (simp add: an_answer_in_another_format_is_a_key_that_cannot_be_read_def Let_def w(2) moment
          weekly_schedule [OF set(3)])
  qed
  show "an_answer_that_is_not_the_json_form_is_a_key_that_cannot_be_read C P E B text fixture now c = Some ()"
    if rest: "pems ! 16 = lit ''-----BEGIN PUBLIC KEY-----'' @ rest"
  proof -
    let ?A = "weekly_answer C E pems SpanPemOnly"
    have "weekly_answer C E pems SpanPemOnly (key_url_at (es (lit ''stub-pem-only'')) 3510720)
        = Ok \<lparr> response_status = 200, response_body = pems ! 16 \<rparr>"
      using weekly_asked [OF set(1) es_query [OF q(2)], of 3510720] w(5,10)
      by (simp add: weekly_answer_def end_point_answer_def min_def word_le_nat_alt)
    moreover have "parse_answer C (pems ! 16) = Err not_json"
    proof -
      have head: "pems ! 16 = [] @ 45 # tl (pems ! 16)" by (simp add: rest lit_def)
      then have "skip_space (pems ! 16) 0 = 0" "get (pems ! 16) 0 = Some 45"
        using skip_space_here [of 45 "[]" "tl (pems ! 16)"] get_here [of "[]" 45 "tl (pems ! 16)"]
        by (simp_all add: is_whitespace_def)
      then show ?thesis by (simp add: parse_answer_def read_flat_object_def Let_def)
    qed
    ultimately have "\<exists>m. request_public_key C E ?A (key_url_at (es (lit ''stub-pem-only'')) 3510720) = Err (Key m)"
      by (simp add: request_public_key_def not_json_def)
    then obtain st where 1: "status_at C P E now w (lit ''stub-pem-only'') (clear_cache c, stub_new ?A) = Some (InvalidKey, st)"
      "fst st = clear_cache c"
      using status_refused [OF assms q(2), of ?A now c] by blast
    let ?a = "published_answer_new (pems ! 0) (Some (minute_start C 3504960)) (Some (minute_start C 3494880))"
    let ?B = "\<lambda>_ :: str. Ok \<lparr> response_status = 200, response_body = to_json C ?a \<rparr> :: (fetch_response, error) res"
    have "parse_answer C (to_json C ?a) = Ok ?a" by (rule fine(3); simp add: published_answer_new_def)
    moreover have "\<exists>m. validate E ?a None = Err (Key m)"
      using week_pem [OF set(3), of 0] by (auto simp: validate_def published_answer_new_def check_span_def
          minute_start_le [OF fine(1,2)] new_verify_only_def split: if_splits)
    ultimately have "\<exists>m. request_public_key C E ?B (key_url_at (es (lit ''stub-contradictory'')) 3510720) = Err (Key m)"
      by (auto simp: request_public_key_def)
    then obtain st' where 2: "status_at C P E now w (lit ''stub-contradictory'') (clear_cache c, stub_new ?B) = Some (InvalidKey, st')"
      using status_refused [OF assms q(3), of ?B now c] by blast
    have "get (weeks C pems) 0 = Some \<lparr> scheduled_start = minute_start C (week_start 0), scheduled_pem = pems ! 0 \<rparr>"
      by (simp add: get_def weeks_def)
    then show ?thesis
      by (simp add: an_answer_that_is_not_the_json_form_is_a_key_that_cannot_be_read_def Let_def w(2) 1 2
          weekly_stub [OF set(3)] weekly_schedule [OF set(3)] test_minutes [OF set(5,4)]
          minute_start_valid(2) [OF set(5), of Version3])
  qed
qed

text \<open>A question with no date, or for a minute before the first week.\<close>

lemma undated_stated:
  fixes C :: "('t :: linorder) chrono"
  assumes "test_setting C P E fixture pems" "63 \<notin> set p"
  shows "request_public_key C E (weekly_answer C E pems SpanStated) (p @ lit ''?format=spki'')
    = Ok (pems ! 18, Some 3525120, Some 3535200)"
proof -
  note dates = test_setting(5,6) [OF assms(1)] and set = test_setting(3) [OF assms(1)]
  obtain cr where cr: "new_verify_only E (pems ! 18) = Ok cr" using week_pem [OF set, of 18] by auto
  let ?a = "published_answer_new (pems ! 18) (Some (minute_start C 3525120)) (Some (minute_start C 3535200))"
  have "week_start 18 = 3525120" "week_start (Suc 18) = 3535200" by (simp_all add: week_start_def)
  then have "stand_in_key_in_force (weeks C pems) (minute_start C 3525120)
      = Some \<lparr> scheduled_start = minute_start C 3525120, scheduled_pem = pems ! 18 \<rparr>"
    "next_start (weeks C pems) \<lparr> scheduled_start = minute_start C 3525120, scheduled_pem = pems ! 18 \<rparr>
      = Some (minute_start C 3535200)"
    using week_in_force [OF dates, of 18 3525120 pems] week_next [OF dates, of 18 pems "pems ! 18"] by simp_all
  moreover have "stand_in_asked C (minute_start C 3525120) (p @ lit ''?format=spki'') = Ok (Some (minute_start C 3525120))"
    by (simp add: stand_in_asked_def undated_query [OF assms(2)])
  moreover have "validate E ?a (Some (minute_start C 3525120)) = Ok ()"
    using cr by (simp add: validate_new minute_start_less [OF dates])
  ultimately have "weekly_answer C E pems SpanStated (p @ lit ''?format=spki'') = Ok \<lparr> response_status = 200,
      response_body = to_json C (published_answer_new (pems ! 18) (map_option (minute_start C) (Some 3525120))
        (map_option (minute_start C) (Some 3535200))) \<rparr>"
    by (simp add: weekly_answer_def end_point_answer_def Let_def)
  then show ?thesis by (rule request_answer [OF test_setting(1) [OF assms(1)] cr]) simp_all
qed

lemma before_the_weeks:
  assumes "test_setting C P E fixture pems" "63 \<notin> set p" "m < 3343680"
  shows "\<exists>message. request_public_key C E (weekly_answer C E pems SpanStated) (key_url_at p m) = Err (Http message)"
proof -
  note dates = test_setting(5,6) [OF assms(1)]
  have "\<not> week_start i \<le> m" if "i < 30" for i
    using that assms(3) unat_week_start [of i] by (simp add: word_le_nat_alt word_less_nat_alt)
  then have "stand_in_key_in_force (weeks C pems) (minute_start C m) = None"
    by (auto simp: stand_in_key_in_force_def find_None_iff weeks_def minute_start_le [OF dates])
  moreover have "min m 3525120 = m" using assms(3) by (simp add: min_def word_le_nat_alt word_less_nat_alt)
  ultimately show ?thesis
    using weekly_asked [OF test_setting(1) [OF assms(1)] assms(2), of m]
    by (simp add: request_public_key_def weekly_answer_def end_point_answer_def del: decimal.simps)
qed

lemma undated_and_unserved_pass:
  assumes "fixture_files C P E B text fixture pems w"
  shows "undated_fetch_leaves_an_earlier_weeks_identifier_unverified C P E B text fixture now c = Some ()"
    and "unasked c (es (lit ''stub-unserved'')) \<Longrightarrow> add_minutes C (minute_start C 3343680) (- 20160) = Some (minute_start C 3323520) \<Longrightarrow>
      a_key_the_end_point_cannot_serve_is_key_unavailable C P E B text fixture now c = Some ()"
proof -
  note w = fixture_files [OF assms]
  note set = test_setting [OF w(1)]
  let ?A = "weekly_answer C E pems SpanStated"
  have q: "63 \<notin> set (es (lit ''stub-undated''))" "63 \<notin> set (es (lit ''stub-unserved''))"
    by (rule es_query, simp add: lit_def)+
  show "undated_fetch_leaves_an_earlier_weeks_identifier_unverified C P E B text fixture now c = Some ()"
  proof -
    let ?url = "es (lit ''stub-undated'') @ lit ''?format=spki''"
    obtain c' where "hold (now_minute C now) c (end_point_of ?url) None False (pems ! 18) (Some 3525120) (Some 3535200)
        = Ok (key_answer_stated (pems ! 18) (Some 3525120) (Some 3535200), c')"
      by (rule hold_cases [of "now_minute C now" c "end_point_of ?url" None False "pems ! 18" "Some 3525120" "Some 3535200"]) blast+
    moreover have "key_answer_stated (pems ! 18) (Some 3525120) (Some 3535200) = key_answer_known (pems ! 18) 3525120 3535199"
      by (simp add: key_answer_stated_def)
    ultimately have "ask_stub C E now ?url (c, stub_new ?A)
        = (Ok (key_answer_known (pems ! 18) 3525120 3535199), (c', \<lparr> stub_answer = ?A, requests = [?url] \<rparr>))"
      using undated_stated [OF w(1) q(1)]
      by (simp add: ask_stub_def key_at_url_def cached_answer_def is_recent_url_def undated_query [OF q(1)]
          fetch_outcome_def stub_fetch_def stub_new_def)
    from judged(3) [OF this _ w(8) refl, of P False] w(7)
    have "verify_at_url C P E (ask_stub C E now) w ?url (c, stub_new ?A)
        = (Err not_in_force, (c', \<lparr> stub_answer = ?A, requests = [?url] \<rparr>))"
      by (simp add: beyond_simps near_edge_def abs_diff_def CLOCK_DRIFT_ALLOWANCE_MINUTES_def)
    moreover have "?url = lit ''stub-undated://'' @ lit ''51d.es'' @ lit ''/owid/api/v'' @ decimal (unat (as_byte Version3))
        @ lit ''/public-key?format=spki''" by (simp add: es_def lit_def decimal.simps)
    ultimately show ?thesis
      using undated_query(1) [OF q(1)]
      by (simp add: undated_fetch_leaves_an_earlier_weeks_identifier_unverified_def Let_def w(2,3,4) end_point_def
          weekly_stub [OF set(3)] not_in_force_def stub_dates_def)
  qed
  show "a_key_the_end_point_cannot_serve_is_key_unavailable C P E B text fixture now c = Some ()"
    if c: "unasked c (es (lit ''stub-unserved''))"
      and fortnight: "add_minutes C (minute_start C 3343680) (- 20160) = Some (minute_start C 3323520)"
  proof -
    let ?url = "key_url_at (es (lit ''stub-unserved'')) 3323520"
    obtain message where "request_public_key C E ?A ?url = Err (Http message)"
      using before_the_weeks [OF w(1) q(2), of 3323520] by auto
    from ask_refused [OF q(2) unasked(1) [OF c] this] obtain st where
      "ask_stub C E now ?url (c, stub_new ?A) = (Err (Http message), st)" by (simp add: requests_new) blast
    then have "verify_at_url C P E (ask_stub C E now) w ?url (c, stub_new ?A) = (Err (Http message), st)"
      by (simp add: verify_at_url_def)
    moreover have "?url = lit ''stub-unserved://'' @ lit ''51d.es'' @ lit ''/owid/api/v'' @ decimal (unat (as_byte Version3))
        @ lit ''/public-key?date='' @ decimal (unat (3323520 :: u32)) @ lit ''&format=spki''"
      by (simp add: es_def key_url_at_def FORMAT_QUERY_def del: decimal.simps) (simp add: lit_def decimal.simps [of 3])
    moreover have "get (weeks C pems) 0 = Some \<lparr> scheduled_start = minute_start C 3343680, scheduled_pem = pems ! 0 \<rparr>"
      by (simp add: get_def weeks_def week_start_def)
    ultimately show ?thesis
      using fortnight by (simp add: a_key_the_end_point_cannot_serve_is_key_unavailable_def Let_def w(2,3,4) end_point_def
          weekly_stub [OF set(3)] weekly_schedule [OF set(3)] minute_start_count(2) [OF set(5)] del: decimal.simps)
  qed
qed

lemma thread_bound_passes:
  fixes C :: "('t :: linorder) chrono"
  assumes "fixture_files C P E B text fixture pems w" "cache_keys c (es (lit ''stub-thread-bound'')) = None"
  shows "the_transport_future_is_not_required_to_be_send C P E B text fixture now c = Some ()"
proof -
  note w = fixture_files [OF assms(1)]
  note set = test_setting [OF w(1)]
  let ?p = "es (lit ''stub-thread-bound'')" and ?A = "thread_bound_fetch C (pems ! 16)"
  have q: "63 \<notin> set ?p" by (rule es_query) (simp add: lit_def)
  obtain cr where "new_verify_only E (pems ! 16) = Ok cr" using week_pem [OF set(3), of 16] by auto
  then have "request_public_key C E ?A (key_url_at ?p 3510720) = Ok (pems ! 16, None, None)"
    by (intro request_answer [OF set(1)]) (simp_all add: thread_bound_fetch_def)
  moreover obtain c' where "hold (now_minute C now) c ?p (Some 3510720) (recent C now 3510720) (pems ! 16) None None
      = Ok (key_answer_stated (pems ! 16) None None, c')"
    by (rule hold_cases [of "now_minute C now" c ?p "Some 3510720" "recent C now 3510720" "pems ! 16" None None]) blast+
  ultimately have "key_at_url C E ?A now (key_url_at ?p 3510720) c = (Ok (key_answer_stated (pems ! 16) None None), c')"
    using assms(2) by (simp add: key_at_url_def cached_answer_def is_recent_url_def key_url_at_read_back [OF q]
        held_for_def fetch_outcome_def)
  then show ?thesis
    by (simp add: the_transport_future_is_not_required_to_be_send_def Let_def w(2,6,9,10) weekly_schedule [OF set(3)]
        verify_status_def verify_def verify_at_url_def)
qed

end
