(* ===== verification/PolledTests.thy ===== *)
theory PolledTests
  imports IdentifierTests Settling
begin

text \<open>
  The unit tests of src/src/fetch.rs whose callers overlap on one thread. A future is a check of
  Plan and the caller it waits for; polling it takes the steps of Fetching up to the point where
  it suspends or has its verdict. The stub's transport records the request when it is first
  polled and answers when it is polled again.
\<close>

section \<open>Polling\<close>

record runtime =
  runtime_world :: world
  runtime_stub :: stub
  asked_by :: "nat set"
  next_caller :: nat

definition fresh_runtime :: "cache \<Rightarrow> stub \<Rightarrow> runtime" where
  "fresh_runtime c stub = \<lparr> runtime_world = empty_world\<lparr> world_cache := c \<rparr>, runtime_stub = stub,
     asked_by = {}, next_caller = 0 \<rparr>"

datatype progress = Moved | Suspended | Ended "(key_answer, error) res"

text \<open>One step of a caller, or the reason it has none.\<close>

definition poll_step ::
    "('t :: linorder) chrono \<Rightarrow> ('sk, 'vk, 'sg) p256 \<Rightarrow> 't \<Rightarrow> nat \<Rightarrow> runtime \<Rightarrow> progress \<times> runtime" where
  "poll_step C E now i rt =
     (let w = runtime_world rt in
      case callers w i of
        None \<Rightarrow> (Suspended, rt)
      | Some c \<Rightarrow>
          (case caller_phase c of
             Asking \<Rightarrow> (Moved, rt\<lparr> runtime_world := turn w i c \<rparr>)
           | Leading f \<Rightarrow>
               if i \<notin> asked_by rt
               then (Suspended, rt\<lparr> runtime_stub := snd (stub_fetch (caller_url c) (runtime_stub rt)),
                                    asked_by := insert i (asked_by rt) \<rparr>)
               else (Moved, rt\<lparr> runtime_world := respond C now w i c f
                      (request_public_key C E (stub_answer (runtime_stub rt)) (caller_url c)) \<rparr>)
           | Unlisting f out \<Rightarrow> (Moved, rt\<lparr> runtime_world := unlist w i c f out \<rparr>)
           | Ending f out \<Rightarrow> (Moved, rt\<lparr> runtime_world := finish_flight w i c f out \<rparr>)
           | Waiting f \<Rightarrow> (Moved, rt\<lparr> runtime_world := poll w i c f \<rparr>)
           | Parked f \<Rightarrow> (Suspended, rt)
           | Returned r \<Rightarrow> (Ended r, rt)
           | Dropped \<Rightarrow> (Suspended, rt)))"

partial_function (option) drive ::
    "('t :: linorder) chrono \<Rightarrow> ('sk, 'vk, 'sg) p256 \<Rightarrow> 't \<Rightarrow> nat \<Rightarrow> runtime
     \<Rightarrow> ((key_answer, error) res option \<times> runtime) option" where
  "drive C E now i rt =
     (case poll_step C E now i rt of
        (Moved, rt) \<Rightarrow> drive C E now i rt
      | (Suspended, rt) \<Rightarrow> Some (None, rt)
      | (Ended r, rt) \<Rightarrow> Some (Some r, rt))"

text \<open>A caller that was suspended looks at its flight again when it is polled.\<close>

definition look_again :: "nat \<Rightarrow> runtime \<Rightarrow> runtime" where
  "look_again i rt =
     (let w = runtime_world rt in
      case callers w i of
        Some c \<Rightarrow> (case caller_phase c of Parked f \<Rightarrow> rt\<lparr> runtime_world := set_phase w i c (Waiting f) \<rparr> | _ \<Rightarrow> rt)
      | None \<Rightarrow> rt)"

definition enter_caller :: "'t chrono \<Rightarrow> 't \<Rightarrow> str \<Rightarrow> runtime \<Rightarrow> nat \<times> runtime" where
  "enter_caller C now url rt =
     (let w = runtime_world rt; i = next_caller rt in
      (i, rt\<lparr> runtime_world := w\<lparr> callers := (callers w)(i \<mapsto> \<lparr> caller_url = url,
                caller_recent = is_recent_url C now url, caller_phase = Asking \<rparr>) \<rparr>,
              next_caller := i + 1 \<rparr>))"

type_synonym future = "check \<times> nat option"

primrec poll_check ::
    "('t :: linorder) chrono \<Rightarrow> ('sk, 'vk, 'sg) p256 \<Rightarrow> 't \<Rightarrow> check \<Rightarrow> nat option \<Rightarrow> runtime
     \<Rightarrow> (future \<times> runtime) option" where
  "poll_check C E now (Verdict v) waiting rt = Some ((Verdict v, None), rt)"
| "poll_check C E now (Ask url go) waiting rt =
     (let (i, rt) = (case waiting of None \<Rightarrow> enter_caller C now url rt | Some i \<Rightarrow> (i, look_again i rt)) in
      case drive C E now i rt of
        None \<Rightarrow> None
      | Some (None, rt) \<Rightarrow> Some ((Ask url go, Some i), rt)
      | Some (Some r, rt) \<Rightarrow> poll_check C E now (go r) None rt)"

definition poll_future ::
    "('t :: linorder) chrono \<Rightarrow> ('sk, 'vk, 'sg) p256 \<Rightarrow> 't \<Rightarrow> future \<Rightarrow> runtime \<Rightarrow> (future \<times> runtime) option" where
  "poll_future C E now f rt = poll_check C E now (fst f) (snd f) rt"

definition future_ready :: "future \<Rightarrow> (bool, error) res option" where
  "future_ready f = (case fst f of Verdict v \<Rightarrow> Some v | Ask _ _ \<Rightarrow> None)"

text \<open>\<open>await\<close>: polled until it is ready. One that never is has no result.\<close>

partial_function (option) await ::
    "('t :: linorder) chrono \<Rightarrow> ('sk, 'vk, 'sg) p256 \<Rightarrow> 't \<Rightarrow> future \<Rightarrow> runtime
     \<Rightarrow> ((bool, error) res \<times> runtime) option" where
  "await C E now f rt =
     (case future_ready f of
        Some v \<Rightarrow> Some (v, rt)
      | None \<Rightarrow>
          (case poll_future C E now f rt of
             None \<Rightarrow> None
           | Some (f, rt) \<Rightarrow> await C E now f rt))"

text \<open>
  \<open>join!\<close> of two futures: round after round both are polled, the first of them first where the
  library says so, until both are ready. Which is polled first in each round is an argument.
\<close>

primrec join_rounds ::
    "('t :: linorder) chrono \<Rightarrow> ('sk, 'vk, 'sg) p256 \<Rightarrow> 't \<Rightarrow> bool list \<Rightarrow> future \<Rightarrow> future \<Rightarrow> runtime
     \<Rightarrow> ((bool, error) res \<times> (bool, error) res \<times> runtime) option" where
  "join_rounds C E now [] f g rt =
     do { a <- future_ready f; b <- future_ready g; Some (a, b, rt) }"
| "join_rounds C E now (first # rounds) f g rt =
     (if first
      then do { (f, rt) <- poll_future C E now f rt; (g, rt) <- poll_future C E now g rt;
                join_rounds C E now rounds f g rt }
      else do { (g, rt) <- poll_future C E now g rt; (f, rt) <- poll_future C E now f rt;
                join_rounds C E now rounds f g rt })"

text \<open>A future dropped: the caller it waits for drops out, and a leader runs its \<open>Drop\<close>.\<close>

definition drop_caller :: "nat \<Rightarrow> world \<Rightarrow> world" where
  "drop_caller i w =
     (case callers w i of
        None \<Rightarrow> w
      | Some c \<Rightarrow>
          (case caller_phase c of
             Leading f \<Rightarrow>
               let w = unlist w i c f None in
               finish_flight w i (c\<lparr> caller_phase := Ending f None \<rparr>) f None
           | Waiting f \<Rightarrow> set_phase w i c Dropped
           | Parked f \<Rightarrow> set_phase w i c Dropped
           | _ \<Rightarrow> w))"

definition drop_future :: "future \<Rightarrow> runtime \<Rightarrow> runtime" where
  "drop_future f rt =
     (case snd f of None \<Rightarrow> rt | Some i \<Rightarrow> rt\<lparr> runtime_world := drop_caller i (runtime_world rt) \<rparr>)"

section \<open>The tests\<close>

definition callers_asking_for_one_key_at_the_same_time_share_one_fetch ::
    "('t :: linorder) chrono \<Rightarrow> platform \<Rightarrow> ('sk, 'vk, 'sg) p256 \<Rightarrow> base64 \<Rightarrow> str \<Rightarrow> str \<Rightarrow> 't \<Rightarrow> cache
     \<Rightarrow> bool list \<Rightarrow> unit option" where
  "callers_asking_for_one_key_at_the_same_time_share_one_fetch C P E B text fixture now c rounds = do {
     owid <- expect (genuine_identifier C P B text);
     stub <- expect (end_point C E fixture);
     let check = (verify_plan C P E owid (public_key_url C owid (lit ''stub-shared'')), None);
     (first, second, rt) <- join_rounds C E now rounds check check (fresh_runtime c stub);
     first <- signature_status_of first;
     second <- signature_status_of second;
     assert_that ((first, second) = (Valid, Valid));
     assert_that (length (requests (runtime_stub rt)) = 1)
   }"

definition a_fetch_dropped_part_way_is_made_again_by_the_caller_waiting_on_it ::
    "('t :: linorder) chrono \<Rightarrow> platform \<Rightarrow> ('sk, 'vk, 'sg) p256 \<Rightarrow> base64 \<Rightarrow> str \<Rightarrow> str \<Rightarrow> 't \<Rightarrow> cache
     \<Rightarrow> unit option" where
  "a_fetch_dropped_part_way_is_made_again_by_the_caller_waiting_on_it C P E B text fixture now c = do {
     owid <- expect (genuine_identifier C P B text);
     stub <- expect (end_point C E fixture);
     let check = (verify_plan C P E owid (public_key_url C owid (lit ''stub-dropped'')), None);
     (first, rt) <- poll_future C E now check (fresh_runtime c stub);
     assert_that (future_ready first = None);
     (second, rt) <- poll_future C E now check rt;
     assert_that (future_ready second = None);
     assert_that (length (requests (runtime_stub rt)) = 1);
     let rt = drop_future first rt;
     (verdict, rt) <- await C E now second rt;
     status <- signature_status_of verdict;
     assert_that (status = Valid);
     assert_that (length (requests (runtime_stub rt)) = 2)
   }"

section \<open>Polls\<close>

text \<open>
  What the tests rely on of the check polled: it asks for one key, which is not held, and the
  answer settles it.
\<close>

definition asks_once ::
    "('t :: linorder) chrono \<Rightarrow> ('sk, 'vk, 'sg) p256 \<Rightarrow> 't \<Rightarrow> transport \<Rightarrow> cache \<Rightarrow> str
     \<Rightarrow> ((key_answer, error) res \<Rightarrow> check) \<Rightarrow> key_answer \<Rightarrow> (cache \<Rightarrow> cache) \<Rightarrow> (bool, error) res \<Rightarrow> bool" where
  "asks_once C E now A c url go a held v \<longleftrightarrow>
     in_flight c url = None \<and> go (Ok a) = Verdict v
     \<and> (\<forall>k. cache_keys k = cache_keys c \<longrightarrow> cached_answer k url (is_recent_url C now url) = None
          \<and> fetch_outcome C now k url (is_recent_url C now url) (request_public_key C E A url) = Ok (Inr a, held k))"

definition leading :: "cache \<Rightarrow> str \<Rightarrow> bool \<Rightarrow> transport \<Rightarrow> nat \<Rightarrow> nat list \<Rightarrow> (nat \<rightharpoonup> caller) \<Rightarrow> runtime" where
  "leading c url r A i ws cs =
     \<lparr> runtime_world = \<lparr> world_cache = c\<lparr> in_flight := (in_flight c)(url \<mapsto> 0) \<rparr>,
         flights = [0 \<mapsto> \<lparr> finished = False, outcome = None, wakers = ws \<rparr>],
         callers = cs(i \<mapsto> \<lparr> caller_url = url, caller_recent = r, caller_phase = Leading 0 \<rparr>), next_flight = 1 \<rparr>,
       runtime_stub = \<lparr> stub_answer = A, requests = [url] \<rparr>, asked_by = {i}, next_caller = Suc (length ws) \<rparr>"

lemma first_poll:
  assumes "asks_once C E now A c url go a held v"
  shows "poll_future C E now (Ask url go, None) (fresh_runtime c (stub_new A))
    = Some ((Ask url go, Some 0), leading c url (is_recent_url C now url) A 0 [] Map.empty)"
  using assms
  by (simp add: asks_once_def poll_future_def fresh_runtime_def enter_caller_def Let_def empty_world_def
      drive.simps poll_step_def turn_def set_phase_def stub_fetch_def stub_new_def leading_def)

text \<open>The second caller finds the fetch under way, and parks again if it is polled before the leader.\<close>

abbreviation parked :: "str \<Rightarrow> bool \<Rightarrow> caller" where
  "parked url r \<equiv> \<lparr> caller_url = url, caller_recent = r, caller_phase = Parked 0 \<rparr>"

lemma second_poll:
  assumes "asks_once C E now A c url go a held v"
  defines "r \<equiv> is_recent_url C now url"
  shows "poll_future C E now (Ask url go, None) (leading c url r A 0 [] Map.empty)
      = Some ((Ask url go, Some 1), leading c url r A 0 [1] [1 \<mapsto> parked url r])"
    and "poll_future C E now (Ask url go, Some 1) (leading c url r A 0 [1] [1 \<mapsto> parked url r])
      = Some ((Ask url go, Some 1), leading c url r A 0 [1] [1 \<mapsto> parked url r])"
  using assms
  by (auto simp: asks_once_def poll_future_def enter_caller_def Let_def look_again_def drive.simps poll_step_def turn_def
      poll_def set_phase_def leading_def fun_upd_twist)

text \<open>The leader answered, and then the second caller; or the leader dropped, and the second caller leads.\<close>

lemma leader_polled:
  assumes "asks_once C E now A c url go a held v"
  defines "r \<equiv> is_recent_url C now url"
  obtains rt where "poll_future C E now (Ask url go, Some 0) (leading c url r A 0 [1] [1 \<mapsto> parked url r])
      = Some ((Verdict v, None), rt)"
    "poll_future C E now (Ask url go, Some 1) rt = Some ((Verdict v, None), rt\<lparr> runtime_world :=
       (runtime_world rt)\<lparr> callers := (callers (runtime_world rt))(1 \<mapsto> \<lparr> caller_url = url, caller_recent = r,
          caller_phase = Returned (Ok a) \<rparr>) \<rparr> \<rparr>)"
    "requests (runtime_stub rt) = [url]"
proof -
  let ?w = "\<lparr> world_cache = (held (c\<lparr> in_flight := (in_flight c)(url \<mapsto> 0) \<rparr>))
        \<lparr> in_flight := (in_flight (held (c\<lparr> in_flight := (in_flight c)(url \<mapsto> 0) \<rparr>)))(url := None) \<rparr>,
      flights = [0 \<mapsto> \<lparr> finished = True, outcome = Some (Inr a), wakers = [] \<rparr>],
      callers = [1 \<mapsto> \<lparr> caller_url = url, caller_recent = r, caller_phase = Waiting 0 \<rparr>,
        0 \<mapsto> \<lparr> caller_url = url, caller_recent = r, caller_phase = Returned (Ok a) \<rparr>], next_flight = 1 \<rparr>"
  let ?rt = "(leading c url r A 0 [1] [1 \<mapsto> parked url r])\<lparr> runtime_world := ?w \<rparr>"
  have "wake [1] 0 [1 \<mapsto> parked url r, 0 \<mapsto> \<lparr> caller_url = url, caller_recent = r, caller_phase = Ending 0 (Some (Inr a)) \<rparr>]
      = [1 \<mapsto> \<lparr> caller_url = url, caller_recent = r, caller_phase = Waiting 0 \<rparr>,
         0 \<mapsto> \<lparr> caller_url = url, caller_recent = r, caller_phase = Ending 0 (Some (Inr a)) \<rparr>]"
    by (rule ext) (simp add: wake_def)
  then have "poll_future C E now (Ask url go, Some 0) (leading c url r A 0 [1] [1 \<mapsto> parked url r]) = Some ((Verdict v, None), ?rt)"
    using assms
    by (simp add: asks_once_def poll_future_def Let_def look_again_def drive.simps poll_step_def respond_def unlist_def
      finish_flight_def set_phase_def leading_def)
  moreover have "poll_future C E now (Ask url go, Some 1) ?rt = Some ((Verdict v, None), ?rt\<lparr> runtime_world :=
       ?w\<lparr> callers := (callers ?w)(1 \<mapsto> \<lparr> caller_url = url, caller_recent = r, caller_phase = Returned (Ok a) \<rparr>) \<rparr> \<rparr>)"
    using assms by (simp add: asks_once_def poll_future_def Let_def look_again_def drive.simps poll_step_def poll_def set_phase_def)
  ultimately show thesis by (intro that [of ?rt]) (simp_all add: leading_def)
qed

lemma leader_dropped:
  assumes "asks_once C E now A c url go a held v"
  defines "r \<equiv> is_recent_url C now url"
  obtains rt rt' where "poll_future C E now (Ask url go, Some 1)
      (drop_future (Ask url go, Some 0) (leading c url r A 0 [1] [1 \<mapsto> parked url r])) = Some ((Ask url go, Some 1), rt)"
    "poll_future C E now (Ask url go, Some 1) rt = Some ((Verdict v, None), rt')"
    "requests (runtime_stub rt') = [url, url]"
proof -
  let ?caller = "\<lambda>p. \<lparr> caller_url = url, caller_recent = r, caller_phase = p \<rparr>"
  let ?lead = "leading c url r A 0 [1] [1 \<mapsto> parked url r]"
  let ?w = "\<lparr> world_cache = c\<lparr> in_flight := (in_flight c)(url \<mapsto> 1) \<rparr>,
      flights = [0 \<mapsto> \<lparr> finished = True, outcome = None, wakers = [] \<rparr>, 1 \<mapsto> \<lparr> finished = False, outcome = None, wakers = [] \<rparr>],
      callers = [0 \<mapsto> ?caller Dropped, 1 \<mapsto> ?caller (Leading 1)], next_flight = 2 \<rparr>"
  let ?rt = "?lead\<lparr> runtime_world := ?w, runtime_stub := \<lparr> stub_answer = A, requests = [url, url] \<rparr>, asked_by := {1, 0} \<rparr>"
  have woken: "wake [1] 0 [1 \<mapsto> parked url r, 0 \<mapsto> ?caller (Ending 0 None)] = [1 \<mapsto> ?caller (Waiting 0), 0 \<mapsto> ?caller (Ending 0 None)]"
    by (rule ext) (simp add: wake_def)
  have none: "(in_flight c)(url := None) = in_flight c" using assms(1) by (auto simp: asks_once_def)
  have "poll_future C E now (Ask url go, Some 1) (drop_future (Ask url go, Some 0) ?lead) = Some ((Ask url go, Some 1), ?rt)"
    using assms woken
    by (simp add: asks_once_def drop_future_def drop_caller_def poll_future_def Let_def look_again_def drive.simps
        poll_step_def turn_def unlist_def finish_flight_def poll_def set_phase_def leading_def stub_fetch_def)
  moreover have "\<exists>rt'. poll_future C E now (Ask url go, Some 1) ?rt = Some ((Verdict v, None), rt')
      \<and> requests (runtime_stub rt') = [url, url]"
    using assms
    by (simp add: asks_once_def poll_future_def Let_def look_again_def drive.simps poll_step_def respond_def unlist_def
      finish_flight_def set_phase_def wake_def)
  ultimately show thesis using that by blast
qed

section \<open>The tests pass\<close>

lemma identifier_asks_once:
  assumes "fixture_files C P E B text fixture pems w" "63 \<notin> set scheme"
    and "cache_keys c (es scheme) = None" "in_flight c (public_key_url C w scheme) = None"
  obtains go held where "verify_plan C P E w (public_key_url C w scheme) = Ask (public_key_url C w scheme) go"
    "asks_once C E now (weekly_answer C E pems SpanStated) c (public_key_url C w scheme) go
       (key_answer_known (pems ! 16) 3504960 3515039) held (Ok True)"
proof -
  note w = fixture_files [OF assms(1)] and q = es_query [OF assms(2)]
  let ?url = "key_url_at (es scheme) 3510720" and ?a = "key_answer_known (pems ! 16) 3504960 3515039"
  obtain go where go: "verify_plan C P E w ?url = Ask ?url go" "go (Ok ?a) = Verdict (Ok True)"
    using w(6) by (simp add: verify_plan_def)
  have asked: "request_public_key C E (weekly_answer C E pems SpanStated) ?url = Ok (pems ! 16, Some 3504960, Some 3515040)"
    using weekly_stated [OF test_setting(1,3) [OF w(1)] q, of 16 3510720] by (simp add: week_starts min_def word_le_nat_alt)
  have "key_answer_stated (pems ! 16) (Some 3504960) (Some 3515040) = ?a" by (simp add: key_answer_stated_def)
  then have "asks_once C E now (weekly_answer C E pems SpanStated) c ?url go ?a
      (\<lambda>k. hold_new k (es scheme) (stated (pems ! 16) 3504960 3515039)) (Ok True)"
    using assms(3,4) go(2) by (simp add: asks_once_def w(9) cached_answer_def key_url_at_read_back [OF q] held_for_def
        fetch_outcome_def asked hold_def span_to_hold_def Let_def stated_def)
  with go(1) show thesis by (intro that) (simp_all add: w(9))
qed

lemma ready [simp]: "poll_future C E now (Verdict v, None) rt = Some ((Verdict v, None), rt)"
  "future_ready (Verdict v, i) = Some v" "future_ready (Ask url go, i) = None"
  by (simp_all add: poll_future_def future_ready_def)

lemma share_passes:
  assumes "fixture_files C P E B text fixture pems w" "unasked c (es (lit ''stub-shared''))"
    and "in_flight c (public_key_url C w (lit ''stub-shared'')) = None"
  shows "callers_asking_for_one_key_at_the_same_time_share_one_fetch C P E B text fixture now c [x, y, z] = Some ()"
proof -
  note w = fixture_files [OF assms(1)]
  let ?url = "public_key_url C w (lit ''stub-shared'')" and ?A = "weekly_answer C E pems SpanStated"
  have q: "63 \<notin> set (lit ''stub-shared'')" by (simp add: lit_def)
  have unheld: "cache_keys c (es (lit ''stub-shared'')) = None" using assms(2) by (simp add: unasked_def)
  obtain go held where plan: "verify_plan C P E w ?url = Ask ?url go" and
    once: "asks_once C E now ?A c ?url go (key_answer_known (pems ! 16) 3504960 3515039) held (Ok True)"
    by (rule identifier_asks_once [OF assms(1) q unheld assms(3)])
  let ?r = "is_recent_url C now ?url"
  obtain rt where led: "poll_future C E now (Ask ?url go, Some 0) (leading c ?url ?r ?A 0 [1] [1 \<mapsto> parked ?url ?r])
      = Some ((Verdict (Ok True), None), rt)"
    "poll_future C E now (Ask ?url go, Some 1) rt = Some ((Verdict (Ok True), None), rt\<lparr> runtime_world :=
       (runtime_world rt)\<lparr> callers := (callers (runtime_world rt))(1 \<mapsto> \<lparr> caller_url = ?url, caller_recent = ?r,
          caller_phase = Returned (Ok (key_answer_known (pems ! 16) 3504960 3515039)) \<rparr>) \<rparr> \<rparr>)"
    "requests (runtime_stub rt) = [?url]" by (rule leader_polled [OF once])
  note polls = first_poll [OF once] second_poll [OF once] led
  show ?thesis
    by (cases x; cases y; cases z; simp add: callers_asking_for_one_key_at_the_same_time_share_one_fetch_def
        w(2) end_point_def weekly_stub [OF test_setting(3) [OF w(1)]] Let_def plan polls del: One_nat_def)
qed

lemma dropped_passes:
  assumes "fixture_files C P E B text fixture pems w" "unasked c (es (lit ''stub-dropped''))"
    and "in_flight c (public_key_url C w (lit ''stub-dropped'')) = None"
  shows "a_fetch_dropped_part_way_is_made_again_by_the_caller_waiting_on_it C P E B text fixture now c = Some ()"
proof -
  note w = fixture_files [OF assms(1)]
  let ?url = "public_key_url C w (lit ''stub-dropped'')" and ?A = "weekly_answer C E pems SpanStated"
  have q: "63 \<notin> set (lit ''stub-dropped'')" by (simp add: lit_def)
  have unheld: "cache_keys c (es (lit ''stub-dropped'')) = None" using assms(2) by (simp add: unasked_def)
  obtain go held where plan: "verify_plan C P E w ?url = Ask ?url go" and
    once: "asks_once C E now ?A c ?url go (key_answer_known (pems ! 16) 3504960 3515039) held (Ok True)"
    by (rule identifier_asks_once [OF assms(1) q unheld assms(3)])
  let ?r = "is_recent_url C now ?url"
  let ?rt = "drop_future (Ask ?url go, Some 0) (leading c ?url ?r ?A 0 [1] [1 \<mapsto> parked ?url ?r])"
  obtain rt rt' where again: "poll_future C E now (Ask ?url go, Some 1) ?rt = Some ((Ask ?url go, Some 1), rt)"
    "poll_future C E now (Ask ?url go, Some 1) rt = Some ((Verdict (Ok True), None), rt')"
    "requests (runtime_stub rt') = [?url, ?url]" by (rule leader_dropped [OF once])
  have "await C E now (Ask ?url go, Some 1) ?rt = Some (Ok True, rt')"
    by (simp add: await.simps again del: One_nat_def)
  moreover have "requests (runtime_stub (leading c ?url ?r ?A 0 [1] [1 \<mapsto> parked ?url ?r])) = [?url]"
    by (simp add: leading_def)
  ultimately show ?thesis
    using again(3) first_poll [OF once] second_poll(1) [OF once]
    by (simp add: a_fetch_dropped_part_way_is_made_again_by_the_caller_waiting_on_it_def
        w(2) end_point_def weekly_stub [OF test_setting(3) [OF w(1)]] Let_def plan del: One_nat_def)
qed

section \<open>Polling takes the steps of the process\<close>

text \<open>
  What polling and dropping do to the process are steps of \<open>Fetching\<close>, so what is shown of every
  state those reach holds while the futures are polled.
\<close>

lemma poll_step_acts:
  assumes "poll_step C E now i rt = (p, rt')"
  shows "runtime_world rt' = runtime_world rt \<or> (\<exists>a. acts C (runtime_world rt) a (runtime_world rt') \<and> a \<noteq> Enter)"
    "next_caller rt' = next_caller rt"
proof -
  show "next_caller rt' = next_caller rt"
    using assms by (auto simp: poll_step_def Let_def split: option.splits phase.splits if_splits)
  show "runtime_world rt' = runtime_world rt \<or> (\<exists>a. acts C (runtime_world rt) a (runtime_world rt') \<and> a \<noteq> Enter)"
  proof (cases "callers (runtime_world rt) i")
    case (Some c)
    note unfold = poll_step_def Let_def
    show ?thesis
    proof (cases "caller_phase c")
      case Asking
      with acts.turn [OF Some this, of C] show ?thesis using assms Some by (auto simp: unfold)
    next
      case (Leading f)
      let ?out = "request_public_key C E (stub_answer (runtime_stub rt)) (caller_url c)"
      have "acts C (runtime_world rt) (Respond (caller_url c) ?out) (respond C now (runtime_world rt) i c f ?out)"
        by (rule acts.respond [OF Some Leading])
      then show ?thesis using assms Some Leading by (cases "i \<in> asked_by rt") (auto simp: unfold)
    next
      case (Unlisting f out)
      with acts.unlist [OF Some this, of C] show ?thesis using assms Some by (auto simp: unfold)
    next
      case (Ending f out)
      with acts.finish [OF Some this, of C] show ?thesis using assms Some by (auto simp: unfold)
    next
      case (Waiting f)
      with acts.poll [OF Some this, of C] show ?thesis using assms Some by (auto simp: unfold)
    qed (use assms Some in \<open>auto simp: unfold\<close>)
  qed (use assms in \<open>simp add: poll_step_def\<close>)
qed

text \<open>A state reached, whose callers are numbered below the next.\<close>

definition sound :: "'t chrono \<Rightarrow> runtime \<Rightarrow> bool" where
  "sound C rt \<longleftrightarrow> reach C (\<lambda>_. True) (runtime_world rt)
     \<and> (\<forall>i \<ge> next_caller rt. callers (runtime_world rt) i = None)"

lemma acts_None: "acts C w a w' \<Longrightarrow> callers w i = None \<Longrightarrow> a \<noteq> Enter \<Longrightarrow> callers w' i = None"
  by (induction rule: acts.induct)
    (auto simp: turn_def respond_def unlist_def finish_flight_def poll_def set_phase_def wake_def Let_def
      split: option.splits res.splits)

lemma sound_act:
  assumes "sound C rt" "runtime_world rt' = runtime_world rt \<or> (\<exists>a. acts C (runtime_world rt) a (runtime_world rt') \<and> a \<noteq> Enter)"
    "next_caller rt' = next_caller rt"
  shows "sound C rt'"
  using assms by (auto simp: sound_def intro: reach.more acts_None)

lemma drive_sound:
  assumes "drive C E now i rt = Some z"
  shows "sound C rt \<longrightarrow> sound C (snd z)"
proof (rule drive.raw_induct [where P = "\<lambda>C E now i rt z. sound C rt \<longrightarrow> sound C (snd z)", OF _ assms], goal_cases)
  case (1 self C E now i rt z)
  obtain p rt1 where p: "poll_step C E now i rt = (p, rt1)" by fastforce
  have "sound C rt \<longrightarrow> sound C rt1" using sound_act [OF _ poll_step_acts [OF p]] by blast
  with 1 p show ?case by (cases p) auto
qed

lemma look_again_sound: "sound C rt \<Longrightarrow> sound C (look_again i rt)"
  by (rule sound_act [of C rt])
    (auto simp: look_again_def Let_def split: option.splits phase.splits dest: acts.again [where C = C])

lemma enter_sound:
  assumes "sound C rt"
  shows "sound C (snd (enter_caller C now url rt))"
proof -
  have "acts C (runtime_world rt) Enter (runtime_world (snd (enter_caller C now url rt)))"
    using assms acts.enter [of "runtime_world rt" "next_caller rt" C url now] by (simp add: sound_def enter_caller_def Let_def)
  with assms show ?thesis by (auto simp: sound_def enter_caller_def Let_def intro: reach.more)
qed

lemma poll_sound:
  "poll_check C E now check waiting rt = Some (f, rt') \<Longrightarrow> sound C rt \<Longrightarrow> sound C rt'"
proof (induction check arbitrary: waiting rt)
  case (Ask url go)
  let ?start = "case waiting of None \<Rightarrow> enter_caller C now url rt | Some i \<Rightarrow> (i, look_again i rt)"
  obtain i rt1 where start: "?start = (i, rt1)" by fastforce
  then have "sound C rt1"
    using enter_sound [OF Ask.prems(2), of now url] look_again_sound [OF Ask.prems(2)] by (auto split: option.splits)
  moreover obtain z rt2 where z: "drive C E now i rt1 = Some (z, rt2)"
    using Ask.prems(1) start by (auto split: option.splits prod.splits)
  ultimately have "sound C rt2" using drive_sound [OF z] by simp
  then show ?case using Ask.prems(1) start z Ask.IH [of _ None rt2] by (cases z) auto
qed simp

lemma drop_leader_acts:
  assumes "callers w i = Some c" "caller_phase c = Leading f"
  obtains w1 w2 where "acts C w Cancel w1" "acts C w1 Unlist w2" "acts C w2 Finish (drop_caller i w)"
proof -
  let ?w1 = "set_phase w i c (Unlisting f None)"
  let ?w2 = "unlist w i c f None"
  have "unlist ?w1 i (c\<lparr> caller_phase := Unlisting f None \<rparr>) f None = ?w2"
    by (simp add: unlist_def set_phase_def)
  then have "acts C ?w1 Unlist ?w2"
    using acts.unlist [of ?w1 i "c\<lparr> caller_phase := Unlisting f None \<rparr>" f None C] by (simp add: set_phase_def)
  moreover have "acts C ?w2 Finish (drop_caller i w)"
    using acts.finish [of ?w2 i "c\<lparr> caller_phase := Ending f None \<rparr>" f None C] assms
    by (simp add: drop_caller_def unlist_def set_phase_def Let_def)
  ultimately show thesis using that acts.cancel_lead [OF assms] by blast
qed

lemma drop_sound:
  assumes "sound C rt"
  shows "sound C (drop_future f rt)"
proof (cases "snd f")
  case (Some i)
  let ?w = "runtime_world rt"
  note [simp] = Some drop_future_def
  show ?thesis
  proof (cases "callers ?w i")
    case None
    then show ?thesis using assms by (simp add: drop_caller_def)
  next
    case (Some c)
    show ?thesis
    proof (cases "\<exists>f. caller_phase c = Leading f")
      case True
      then obtain f where "caller_phase c = Leading f" by blast
      from drop_leader_acts [OF Some this] obtain w1 w2 where
        steps: "acts C ?w Cancel w1" "acts C w1 Unlist w2" "acts C w2 Finish (drop_caller i ?w)" .
      have 1: "sound C (rt\<lparr> runtime_world := w1 \<rparr>)" by (rule sound_act [OF assms]) (use steps(1) in auto)
      have 2: "sound C (rt\<lparr> runtime_world := w2 \<rparr>)" by (rule sound_act [OF 1]) (use steps(2) in auto)
      show ?thesis by (rule sound_act [OF 2]) (use steps(3) in auto)
    next
      case False
      show ?thesis
      proof (cases "\<exists>f. caller_phase c = Waiting f \<or> caller_phase c = Parked f")
        case True
        then have "acts C ?w Cancel (drop_caller i ?w)"
          using acts.cancel_wait [OF Some, of _ C] by (auto simp: drop_caller_def Some)
        then show ?thesis by (intro sound_act [OF assms]) auto
      next
        case waits: False
        with False assms show ?thesis by (cases "caller_phase c") (simp_all add: drop_caller_def Some)
      qed
    qed
  qed
qed (use assms in \<open>simp add: drop_future_def\<close>)

end
