(* ===== verification/Awaited.thy ===== *)
theory Awaited
  imports PolledTests
begin

text \<open>
  A check awaited with no other caller about (src/src/fetch.rs): polled by the runtime of
  PolledTests until it is ready, suspended at each request, it gives what the sequential
  functions of Verify give. What is shown of these is so shown of the async functions.
\<close>

section \<open>A check alone\<close>

text \<open>Nobody is fetching, and the callers that asked the transport were here before.\<close>

definition idle :: "runtime \<Rightarrow> bool" where
  "idle rt \<longleftrightarrow> cache_inv (world_cache (runtime_world rt)) \<and> in_flight (world_cache (runtime_world rt)) = Map.empty
     \<and> asked_by rt \<subseteq> {..<next_caller rt}"

definition process_of :: "runtime \<Rightarrow> process" where
  "process_of rt = (world_cache (runtime_world rt), runtime_stub rt)"

lemma wake_nobody [simp]: "wake [] f cs = cs"
  by (rule ext) (simp add: wake_def split: option.splits)

lemma await_same:
  assumes "future_ready f = None" "poll_future C E now f rt = poll_future C E now (p, None) rt'"
  shows "await C E now f rt = await C E now (p, None) rt'"
proof (cases p)
  case (Verdict v)
  with assms show ?thesis by (simp add: await.simps)
next
  case (Ask url go)
  with assms show ?thesis by (simp add: await.simps [of C E now f] await.simps [of C E now "(Ask url go, None)"])
qed

lemma await_suspended:
  assumes "future_ready f = None" "poll_future C E now f rt = Some (g, rt')"
  shows "await C E now f rt = await C E now g rt'"
  using assms by (simp add: await.simps [of C E now f])

lemma await_cached:
  assumes "idle rt" "cached_answer (world_cache (runtime_world rt)) url (is_recent_url C now url) = Some a"
  obtains rt' where "idle rt'" "process_of rt' = process_of rt"
    "await C E now (Ask url go, None) rt = await C E now (go (Ok a), None) rt'"
proof -
  let ?i = "next_caller rt" and ?w = "runtime_world rt"
  let ?rt = "rt\<lparr> next_caller := ?i + 1, runtime_world := ?w\<lparr> callers := (callers ?w)(?i \<mapsto> \<lparr> caller_url = url,
      caller_recent = is_recent_url C now url, caller_phase = Returned (Ok a) \<rparr>) \<rparr> \<rparr>"
  have "poll_future C E now (Ask url go, None) rt = poll_future C E now (go (Ok a), None) ?rt"
    using assms(2)
    by (simp add: poll_future_def enter_caller_def Let_def drive.simps poll_step_def turn_def set_phase_def)
  then have "await C E now (Ask url go, None) rt = await C E now (go (Ok a), None) ?rt"
    by (intro await_same) simp_all
  moreover have "idle ?rt" "process_of ?rt = process_of rt"
    using assms(1) by (auto simp: idle_def process_of_def)
  ultimately show thesis using that by blast
qed

lemma await_requested:
  assumes "idle rt" "cached_answer (world_cache (runtime_world rt)) url r = None" "r = is_recent_url C now url"
    and "fetch_outcome C now (world_cache (runtime_world rt)) url r
      (request_public_key C E (stub_answer (runtime_stub rt)) url) = Ok (out, k)" "cache_inv k" "in_flight k = Map.empty"
  obtains rt' where "idle rt'" "process_of rt' = (k, snd (stub_fetch url (runtime_stub rt)))"
    "await C E now (Ask url go, None) rt = await C E now (go (result_of out), None) rt'"
proof -
  let ?i = "next_caller rt" and ?w = "runtime_world rt" and ?f = "next_flight (runtime_world rt)"
  let ?c = "\<lambda>p. \<lparr> caller_url = url, caller_recent = r, caller_phase = p \<rparr>" and ?s = "snd (stub_fetch url (runtime_stub rt))"
  let ?fl = "\<lambda>b x. (flights ?w)(?f \<mapsto> \<lparr> finished = b, outcome = x, wakers = [] \<rparr>)"
  let ?rt1 = "rt\<lparr> runtime_world := ?w\<lparr> next_flight := ?f + 1,
        world_cache := (world_cache ?w)\<lparr> in_flight := [url \<mapsto> ?f] \<rparr>,
        flights := ?fl False None, callers := (callers ?w)(?i \<mapsto> ?c (Leading ?f)) \<rparr>,
      runtime_stub := ?s, asked_by := insert ?i (asked_by rt), next_caller := ?i + 1 \<rparr>"
  let ?rt2 = "?rt1\<lparr> runtime_world := ?w\<lparr> next_flight := ?f + 1, world_cache := k,
        flights := ?fl True (Some out), callers := (callers ?w)(?i \<mapsto> ?c (Returned (result_of out))) \<rparr> \<rparr>"
  have "?i \<notin> asked_by rt" "in_flight (world_cache ?w) = Map.empty" using assms(1) by (auto simp: idle_def)
  then have first: "poll_future C E now (Ask url go, None) rt = Some ((Ask url go, Some ?i), ?rt1)"
    using assms(2,3)
    by (simp add: poll_future_def enter_caller_def Let_def drive.simps poll_step_def turn_def set_phase_def)
  have none: "k\<lparr> in_flight := Map.empty \<rparr> = k" using assms(6) by (cases k) simp
  have "fetch_outcome C now ((world_cache ?w)\<lparr> in_flight := [url \<mapsto> ?f] \<rparr>) url r
      (request_public_key C E (stub_answer (runtime_stub rt)) url) = Ok (out, k\<lparr> in_flight := [url \<mapsto> ?f] \<rparr>)"
    using assms(4) by (simp add: fetch_outcome_other_flights)
  then have second: "poll_future C E now (Ask url go, Some ?i) ?rt1 = poll_future C E now (go (result_of out), None) ?rt2"
    using none by (simp add: poll_future_def look_again_def Let_def drive.simps poll_step_def respond_def unlist_def
        finish_flight_def set_phase_def stub_fetch_def)
  have "await C E now (Ask url go, None) rt = await C E now (go (result_of out), None) ?rt2"
    by (rule trans [OF await_suspended [OF _ first] await_same [OF _ second]]) simp_all
  moreover have "idle ?rt2" "process_of ?rt2 = (k, ?s)"
    using assms(1,5,6) by (auto simp: idle_def process_of_def)
  ultimately show thesis using that by blast
qed

lemma await_ask:
  assumes "idle rt" "\<forall>u. stub_answer (runtime_stub rt) u \<noteq> Panic" "ask_stub C E now url (process_of rt) = (r, st)"
  obtains rt' where "idle rt'" "process_of rt' = st" "\<forall>u. stub_answer (runtime_stub rt') u \<noteq> Panic"
    "await C E now (Ask url go, None) rt = await C E now (go r, None) rt'"
proof (cases "cached_answer (world_cache (runtime_world rt)) url (is_recent_url C now url)")
  case (Some a)
  then have "r = Ok a" "st = process_of rt"
    using assms(3) by (auto simp: ask_stub_def process_of_def key_at_url_def)
  with await_cached [OF assms(1) Some, of E go] that assms(2) show thesis
    by (metis prod.inject process_of_def)
next
  case None
  let ?k = "world_cache (runtime_world rt)" and ?q = "request_public_key C E (stub_answer (runtime_stub rt)) url"
  have q: "?q \<noteq> Panic" using assms(2) by (rule request_total)
  have k: "cache_inv ?k" "in_flight ?k = Map.empty" using assms(1) by (simp_all add: idle_def)
  from fetch_outcome_result [OF k(1) q, of C now url "is_recent_url C now url"] k(2) obtain out k' where
    out: "fetch_outcome C now ?k url (is_recent_url C now url) ?q = Ok (out, k')" "cache_inv k'" "in_flight k' = Map.empty"
    by auto
  then have r: "r = result_of out" "st = (k', snd (stub_fetch url (runtime_stub rt)))"
    using assms(3) None by (auto simp: ask_stub_def process_of_def key_at_url_def split: sum.splits)
  from await_requested [OF assms(1) None refl out, of go] obtain rt' where
    rt': "idle rt'" "process_of rt' = st" "await C E now (Ask url go, None) rt = await C E now (go r, None) rt'"
    using r by metis
  then show thesis using that assms(2) r(2) by (simp add: process_of_def stub_fetch_def)
qed

lemma await_plan:
  assumes "idle rt" "\<forall>u. stub_answer (runtime_stub rt) u \<noteq> Panic"
    "run_plan (ask_stub C E now) p (process_of rt) = (v, st)"
  shows "\<exists>rt'. await C E now (p, None) rt = Some (v, rt') \<and> process_of rt' = st"
  using assms
proof (induction p arbitrary: rt)
  case (Verdict x)
  then show ?case by (simp add: await.simps)
next
  case (Ask url go)
  obtain r st' where r: "ask_stub C E now url (process_of rt) = (r, st')" by (rule prod.exhaust)
  from await_ask [OF Ask.prems(1,2) r, of go] obtain rt' where
    rt': "idle rt'" "process_of rt' = st'" "\<forall>u. stub_answer (runtime_stub rt') u \<noteq> Panic"
    "await C E now (Ask url go, None) rt = await C E now (go r, None) rt'" .
  with Ask.IH [of "go r" rt'] Ask.prems(3) r show ?case by simp
qed

section \<open>Properties\<close>

text \<open>C25: A check awaited on a runtime of one thread ends, however often its caller is suspended,
  and its verdict, the cache it leaves and the requests it made are those of the sequential
  reading of \<open>verify_at_url\<close>, where nobody else is fetching and the transport does not panic.\<close>

theorem awaited_check_is_sequential:
  assumes "cache_inv c" "in_flight c = Map.empty" "\<forall>u. stub_answer stub u \<noteq> Panic"
    and "verify_at_url C P E (ask_stub C E now) w url (c, stub) = (v, st)"
  shows "\<exists>rt. await C E now (verify_plan C P E w url, None) (fresh_runtime c stub) = Some (v, rt)
    \<and> (world_cache (runtime_world rt), runtime_stub rt) = st"
proof -
  have "idle (fresh_runtime c stub)" "process_of (fresh_runtime c stub) = (c, stub)"
    "runtime_stub (fresh_runtime c stub) = stub"
    using assms(1,2) by (simp_all add: idle_def process_of_def fresh_runtime_def)
  with assms(3,4) show ?thesis
    using await_plan [of "fresh_runtime c stub" C E now "verify_plan C P E w url" v st]
    by (simp add: plan_is_verify_at_url) (simp add: process_of_def)
qed


section \<open>Witnesses\<close>

text \<open>An OWID signed just after its key was replaced: the check asks for two keys.\<close>

lemma edge_answers_total: "edge_answers test_calendar E p1 p2 p3 u \<noteq> Panic"
  by (auto simp: edge_answers_def end_point_answer_def stand_in_asked_def bind_res_Panic_iff test_calendar_simps
      utc_seconds_def split: option.splits)

theorem awaited_check_is_sequential_witness:
  "\<exists>A rt. await test_calendar numbered 0
      (verify_plan test_calendar target64 numbered (payload_at test_calendar numbered 1 3504965)
         (public_key_url test_calendar (payload_at test_calendar numbered 1 3504965) []), None)
      (fresh_runtime empty_cache (stub_new A)) = Some (Ok True, rt) \<and> length (requests (runtime_stub rt)) = 2"
proof -
  let ?w = "payload_at test_calendar numbered 1 3504965"
  obtain p1 p2 where pems: "to_public_key_pem numbered (verifying_key_of numbered 1) = Inr p1"
    "to_public_key_pem numbered (verifying_key_of numbered 2) = Inr p2" by (simp add: numbered_def)
  let ?A = "edge_answers test_calendar numbered p1 p2 []"
  obtain st where st: "verify test_calendar target64 numbered (ask_stub test_calendar numbered 0) ?w []
      (clear_cache empty_cache, stub_new ?A) = (Ok True, st)"
    "holding ?A (ct []) [stated p2 3504960 3515039, stated p1 3494880 3504959] 2 2 st"
    by (rule late_is_checked_beyond [OF edge_setting_fine _ pems, of "[]"]) (simp_all add: numbered_rejects)
  have "clear_cache empty_cache = empty_cache" by (simp add: clear_cache_def empty_cache_def)
  with st(1) have checked: "verify_at_url test_calendar target64 numbered (ask_stub test_calendar numbered 0) ?w
      (public_key_url test_calendar ?w []) (empty_cache, stub_new ?A) = (Ok True, st)"
    by (simp add: verify_def)
  have "in_flight empty_cache = Map.empty" "\<forall>u. stub_answer (stub_new ?A) u \<noteq> Panic"
    using edge_answers_total [of numbered p1 p2 "[]"] by (simp_all add: empty_cache_def stub_new_def)
  from awaited_check_is_sequential [OF cache_inv_empty this checked] obtain rt where
    rt: "await test_calendar numbered 0 (verify_plan test_calendar target64 numbered ?w (public_key_url test_calendar ?w []), None)
      (fresh_runtime empty_cache (stub_new ?A)) = Some (Ok True, rt)" "(world_cache (runtime_world rt), runtime_stub rt) = st"
    by blast
  moreover have "length (requests (runtime_stub rt)) = 2"
    using holding_counts(1) [OF st(2)] rt(2) by (auto simp: request_count_def)
  ultimately show ?thesis by blast
qed

end
