(* ===== verification/Spec2Isabelle.thy ===== *)
theory Spec2Isabelle
  imports Settling Transport Walkthrough Fixtures StatusTests SpanTests IdentifierTests Awaited
begin

text \<open>
  A model of the OWID crate (src/src/*.rs): what an OWID is on the wire, how it is read,
  written, signed and verified, how a creator publishes the keys it signs with, and how a
  verifier obtains and caches them. The definitions follow the source function by function;
  PROJECT.json names the lines each one translates.

  \<^bold>\<open>The program.\<close> A creator (creator.rs) fills the fields of an OWID (owid.rs) through the
  writers of io.rs, signs them with its key (crypto.rs) and sends the bytes or their base 64
  text. A reader parses them (parse.rs), the whole of a buffer or one envelope after another,
  and names each outcome (status.rs). To check the signature it needs the creator's public
  key: a creator with one key or a schedule of them (schedule.rs) serves an answer
  (key_answer.rs) at its end point (endpoints.rs), and the verifier asks for the key in force
  in the OWID's minute, through a cache and a table of fetches under way that all callers of
  the process share (fetch.rs).

  \<^bold>\<open>Conventions.\<close> A Rust \<open>Result\<close> is \<open>res\<close> of Prelude with a third
  constructor for a panic: an index or a slice out of range, a subtraction below zero, a
  failed \<open>expect\<close> or \<open>debug_assert\<close>. A \<open>String\<close> is a list of code points, a
  byte a \<open>u8\<close>, a minute a \<open>u32\<close> that wraps. A \<open>HashMap\<close> is a partial map.
  What the crate only calls is a parameter: the record \<open>chrono\<close> (dates), \<open>base64\<close>,
  \<open>p256\<close> (keys and signatures) and \<open>platform\<close> (the width of \<open>usize\<close> and what the
  allocator grants), all of Environment, with the laws relied on as predicates
  (\<open>dates_ok\<close>, \<open>rfc3339_ok\<close>, \<open>base64_ok\<close>, \<open>signatures_ok\<close>,
  \<open>public_pem_ok\<close>, \<open>ample\<close>). Environment also holds an instance of each, on which every
  law is proved and every worked example runs. The clock is an argument, as is the transport.

  \<^bold>\<open>The theories.\<close>

  \<^item> Prelude, Std, Utf8: outcomes, checked indexing and slices, the standard library's text
    functions (decimal and hexadecimal numbers, splitting, trimming), UTF-8 both ways.
  \<^item> Errors (error.rs, version.rs, parse.rs, status.rs): versions, error types, messages.
  \<^item> Wire and Codec (io.rs): the writers; the interface of a field writer and its reader.
  \<^item> Parse and Envelope (parse.rs): the parser and what it accepts; Owid and Frames (owid.rs):
    the operations of \<open>Owid\<close> and runs of frames; Reading: their properties.
  \<^item> Crypto (crypto.rs, status.rs), Creator (creator.rs), Signing: keys, creation, signature
    checks and their properties. Samples: the OWIDs of the worked examples.
  \<^item> Schedule (schedule.rs), KeyAnswer (key_answer.rs), Endpoints (endpoints.rs): a creator's
    side of key publication, each with its properties.
  \<^item> KeyCache, KeyUrl, KeyRequest (fetch.rs): the cache, the URLs, one request. KeyHistory: what
    the cache can hold after any sequence of answers. KeyMap: the map it refines. Hosted: the
    cache and a creator's schedule together.
  \<^item> Fetching (fetch.rs): callers that overlap, as a step relation with one step for each locked
    section or poll. Sharing: its safety and liveness. Draining: its termination. Answering:
    what each caller gets, for any answers of the transport. Concurrent: the same where a
    creator's end point is asked, with the schedule.
  \<^item> Verify (fetch.rs): verification with a fetched key, over any source of keys. Remote: its
    properties. StandIn and Fixtures: the end point the tests of fetch.rs answer with, its stub
    and its fixture files. Rotation: the path from a creator with a schedule to a verifier.
    Plan: verification as a sequence of suspensions among callers that overlap. Settling: its
    termination there.
  \<^item> Transport (reqwest_fetch.rs): the built in transport. Walkthrough
    (src/examples/create_and_verify.rs): the example program.
  \<^item> Assertions and FormatTests (io.rs, crypto.rs, creator.rs), StatusTests (status.rs),
    ServingTests (schedule.rs, key_answer.rs, endpoints.rs), FetchTests, SpanTests, EdgeTests and
    IdentifierTests (fetch.rs): the unit tests. Questions: what a caller of the cache is told, one
    rule per outcome. PolledTests (fetch.rs): the unit tests whose callers overlap on one thread,
    their futures polled by a runtime of one thread, whose polls are steps of
    Fetching. Awaited: there a check with nobody about it is the sequential one.

  \<^bold>\<open>What the lemmas show.\<close> Reading: parsing and serializing are inverse on exactly the valid
  envelopes, no input panics, every truncation and every trailing byte is refused, the framed
  read is the whole read of a prefix, and no declared length is believed before the bytes are
  there. Signing: what a creator makes a reader reads and verifies, the signed bytes determine
  every field, and a forgery is named only where a readable key judged a signature of the
  right length. Schedule, KeyAnswer, Endpoints: the key in force is the one the documented
  rule names, its stated span is exactly when it is, and a client accepts whatever the end
  point serves. KeyCache to KeyMap: the cache's invariant, that it serves only what was
  claimed, and that answers only ever extend what it knows; for a schedule of distinct keys
  that start on whole minutes it agrees with the schedule (Hosted). Fetching to Draining: a lone
  caller's steps are the sequential function, no wake-up is lost, no two callers fetch one URL
  together, every schedule of callers ends, and a caller gets only what its URL or its end
  point was served. Verify to Rotation: each verdict is justified, a check costs at most three
  requests, and a rotated key still verifies what it signed. Plan: with any callers beside
  it, a check against a hosted schedule returns True only under a key of the schedule, and
  False never for a genuine OWID; every check ends (Settling). Transport: a key is never taken from another host.
  The test theories: each unit test is a value of type \<open>unit option\<close>, \<open>None\<close> where it
  panics, and passes for every calendar and signature scheme with the laws relied on, whatever
  keys are drawn and, where the test does not name it, whenever it runs.

  \<^bold>\<open>Interfaces.\<close> Codec states the contract of a field codec (\<open>wire_field\<close>), which the
  domain, date, payload and signature codecs of Parse and Envelope provide; \<open>calendar\<close> and
  \<open>dated\<close> the dates these rest on; Verify states \<open>key_source\<close>, which \<open>key_at_url\<close>
  provides over any \<open>quiet_transport\<close>, which the hosted schedule and the stand in provide.
  Owid extends the codec contract to whole envelopes (\<open>envelopes\<close>), for runs of frames.
  Answering states \<open>answer_contract\<close>, what shared fetches need of a cache and of the
  transport's answers for each caller's result to be good: KeyHistory's runs provide it for any
  transport, Hosted's honest caches for a creator's end point.

  \<^bold>\<open>Loops and bounds.\<close> No definition takes fuel: each loop of the source is a recursion with a
  measure (the characters or bytes left) or on a list. The cache bound (1024 keys), the drift
  allowance (15 minutes), the domain bound (253) and the signature length (64) are the code's
  constants. The worked examples use a 64 bit \<open>usize\<close> and an allocator that grants it.

  \<^bold>\<open>Observations.\<close> Where the code does other than its comments say, the theorem that shows it
  stands with the component: \<open>brief_span_is_held_to_now\<close> (KeyMap),
  \<open>gap_between_stated_spans_is_served\<close> (KeyHistory),
  \<open>mid_minute_start_is_not_judged\<close> (Rotation), \<open>domain_query_names_the_minute\<close> (KeyUrl),
  \<open>clear_lets_an_earlier_fetch_be_held\<close> and \<open>sharing_fails_after_clear\<close> (Sharing).

  \<^bold>\<open>Not modelled.\<close> The accessors that return a field are the record selectors. lib.rs is a
  list of modules and re-exports, apart from the signature length. The integration tests
  (src/tests) are outside the crate. Of the tests of fetch.rs, those that start threads or open a
  socket are left out; callers on several threads are the subject of Sharing. The order in which
  a join polls its futures is an argument of the test that has one. What the fixture files hold,
  and that a drawn key refuses what another signed, depend on what P-256 computes and are
  hypotheses of the test theories; EdgeTests has an instance on which its tests run. The reqwest
  crate is a parameter of Transport. A poisoned lock is read as its data, as the code does. A
  panic inside a transport ends its caller as being dropped does. The lines the example printed
  before a failure are not kept.
\<close>

end
